(* ===== verification/Prelude.thy ===== *)
theory Prelude
  imports Complex_Main "HOL-Library.Multiset"
begin

text \<open>
  Shared vocabulary of the development: the collections of simplification rules the
  component proofs use, generic facts on lists and options, and the interface of a
  deterministic state machine whose steps keep an invariant.
\<close>

named_theorems text_simps \<open>string operations\<close>
named_theorems number_simps \<open>JavaScript numbers\<close>
named_theorems view_simps \<open>view functions\<close>

section \<open>Lists and options\<close>

abbreviation coalesce :: "'a option \<Rightarrow> 'a \<Rightarrow> 'a" where
  \<comment> \<open>the operator \<open>??\<close>: the value, or the fallback when it is null or undefined\<close>
  "coalesce x d \<equiv> case x of None \<Rightarrow> d | Some v \<Rightarrow> v"

lemma takeWhile_append_stop:
  "\<forall>x \<in> set xs. P x \<Longrightarrow> ys = [] \<or> \<not> P (hd ys) \<Longrightarrow> takeWhile P (xs @ ys) = xs"
  by (induction xs) (cases ys; auto)+

lemma dropWhile_append_stop:
  "\<forall>x \<in> set xs. P x \<Longrightarrow> ys = [] \<or> \<not> P (hd ys) \<Longrightarrow> dropWhile P (xs @ ys) = ys"
  by (induction xs) (cases ys; auto)+

lemma sum_list_nonneg_int: "\<forall>x \<in> set xs. 0 \<le> (f x :: int) \<Longrightarrow> 0 \<le> sum_list (map f xs)"
  by (induction xs) auto

definition remove_nth :: "nat \<Rightarrow> 'a list \<Rightarrow> 'a list" where
  "remove_nth i xs = take i xs @ drop (Suc i) xs"

lemma remove_nth_other:
  "x \<in> set xs \<Longrightarrow> i < length xs \<Longrightarrow> xs ! i \<noteq> x \<Longrightarrow> x \<in> set (remove_nth i xs)"
  by (subst (asm) id_take_nth_drop [of i xs]) (auto simp: remove_nth_def)

section \<open>Deterministic machines with an invariant\<close>

text \<open>
  A page, hook or context of the dashboard is a step function from a state and an event
  to the next state. The interface asks for one law, that a step keeps the invariant; its
  clients get the law for every run.
\<close>

locale machine =
  fixes step :: "'s \<Rightarrow> 'e \<Rightarrow> 's"
    and inv :: "'s \<Rightarrow> bool"
  assumes inv_step: "inv s \<Longrightarrow> inv (step s e)"
begin

lemma inv_run: "inv s \<Longrightarrow> inv (foldl step s es)"
  by (induction es arbitrary: s) (auto intro: inv_step)

lemma inv_run_snoc: "inv s \<Longrightarrow> inv (step (foldl step s es) e)"
  by (intro inv_step inv_run)

end

end
