(* ===== verification/JsNumber.thy ===== *)
theory JsNumber
  imports Prelude
begin

text \<open>
  The JavaScript number type, as far as the dashboard uses it: IEEE binary64 values with
  round-to-nearest-even, the arithmetic operators, and the rounding functions of
  \<open>Math\<close>. A finite number is the rational it denotes, so that rounding is a function on
  rationals that the kernel evaluates; \<open>-0\<close> is identified with \<open>0\<close>, which no code of the
  dashboard distinguishes.
\<close>

section \<open>Digits and logarithms in a base\<close>

function blen :: "int \<Rightarrow> int \<Rightarrow> int" where
  \<comment> \<open>the number of digits of \<open>n\<close> in base \<open>b\<close>\<close>
  "blen b n = (if n \<le> 0 \<or> b < 2 then 0 else 1 + blen b (n div b))"
  by pat_completeness auto
termination
  by (relation "measure (\<lambda>(b, n). nat n)") (auto simp: nat_less_eq_zless int_div_less_self)

declare blen.simps [simp del]

lemma blen_0 [simp]: "blen b 0 = 0"
  by (subst blen.simps) simp

lemma blen_step: "2 \<le> b \<Longrightarrow> 0 < n \<Longrightarrow> blen b n = 1 + blen b (n div b)"
  by (subst blen.simps) simp

lemma blen_nonneg: "0 \<le> blen b n"
proof (induction b n rule: blen.induct)
  case (1 b n)
  then show ?case by (subst blen.simps) auto
qed

lemma blen_pos: "2 \<le> b \<Longrightarrow> 0 < n \<Longrightarrow> 1 \<le> blen b n"
  using blen_nonneg [of b "n div b"] by (simp add: blen_step)

lemma div_less_iff_less_mult_int:
  fixes n b c :: int
  assumes "2 \<le> b" and "n div b < c"
  shows "n < b * c"
proof -
  have "b * (n div b) \<le> b * (c - 1)" using assms by (intro mult_left_mono) auto
  moreover have "n < b * (n div b) + b"
    using mult_div_mod_eq [of b n] pos_mod_bound [of b n] assms(1) by linarith
  ultimately show ?thesis by (simp add: right_diff_distrib)
qed

lemma blen_upper: "2 \<le> b \<Longrightarrow> 0 \<le> n \<Longrightarrow> n < b ^ nat (blen b n)"
proof (induction b n rule: blen.induct)
  case (1 b n)
  show ?case
  proof (cases "n = 0")
    case False
    with 1 have "n div b < b ^ nat (blen b (n div b))"
      by (simp add: pos_imp_zdiv_nonneg_iff)
    then have "n < b * b ^ nat (blen b (n div b))"
      using "1.prems" by (intro div_less_iff_less_mult_int)
    then show ?thesis
      using False "1.prems" blen_nonneg [of b "n div b"] by (simp add: blen_step nat_add_distrib)
  qed simp
qed

lemma blen_lower: "2 \<le> b \<Longrightarrow> 0 < n \<Longrightarrow> b ^ (nat (blen b n) - 1) \<le> n"
proof (induction b n rule: blen.induct)
  case (1 b n)
  show ?case
  proof (cases "0 < n div b")
    case False
    then have "n div b = 0" using "1.prems" pos_imp_zdiv_nonneg_iff [of b n] by linarith
    with "1.prems" show ?thesis by (simp add: blen_step)
  next
    case True
    with 1 have IH: "b ^ (nat (blen b (n div b)) - 1) \<le> n div b" by simp
    have "1 \<le> blen b (n div b)" using True "1.prems" by (intro blen_pos)
    then have "nat (blen b n) - 1 = Suc (nat (blen b (n div b)) - 1)"
      using "1.prems" by (simp add: blen_step)
    then have "b ^ (nat (blen b n) - 1) = b * b ^ (nat (blen b (n div b)) - 1)" by simp
    also have "\<dots> \<le> b * (n div b)" using IH "1.prems" by (intro mult_left_mono) auto
    also have "\<dots> \<le> n" using "1.prems" mult_div_mod_eq [of b n] pos_mod_sign [of b n] by linarith
    finally show ?thesis .
  qed
qed

lemma blen_rat_bounds:
  assumes b: "2 \<le> b" and i: "0 < i"
  shows "(of_int b :: rat) powi (blen b i - 1) \<le> of_int i"
    and "(of_int i :: rat) < of_int b powi blen b i"
proof -
  have p: "1 \<le> blen b i" using b i by (rule blen_pos)
  have "(of_int b :: rat) powi (blen b i - 1) = of_int (b ^ (nat (blen b i) - 1))"
    using p by (simp add: power_int_def nat_diff_distrib)
  then show "(of_int b :: rat) powi (blen b i - 1) \<le> of_int i"
    using blen_lower [OF b i] by (simp only: of_int_le_iff)
  have "(of_int b :: rat) powi blen b i = of_int (b ^ nat (blen b i))"
    using p by (simp add: power_int_def)
  then show "(of_int i :: rat) < of_int b powi blen b i"
    using blen_upper [OF b, of i] i by (simp only: of_int_less_iff)
qed

text \<open>\<open>ilog b x\<close> is the exponent of the leading digit of \<open>x > 0\<close> in base \<open>b\<close>.\<close>

definition ilog :: "int \<Rightarrow> rat \<Rightarrow> int" where
  "ilog b x =
     (let (p, q) = quotient_of x; k = blen b p - blen b q
      in if of_int b powi k \<le> x then k else k - 1)"

lemma ilog_bounds:
  assumes b: "2 \<le> b" and x: "0 < x"
  shows "of_int b powi ilog b x \<le> x" and "x < of_int b powi (ilog b x + 1)"
proof -
  obtain p q where pq: "quotient_of x = (p, q)" by fastforce
  have q: "0 < q" using quotient_of_denom_pos [OF pq] .
  have xe: "x = of_int p / of_int q" using quotient_of_div [OF pq] .
  have p: "0 < p" using x q unfolding xe by (simp add: zero_less_divide_iff)
  let ?B = "of_int b :: rat"
  have B: "0 < ?B" using b by simp
  define k where "k = blen b p - blen b q"
  have "k - 1 = (blen b p - 1) - blen b q" by (simp add: k_def)
  then have "?B powi (k - 1) = ?B powi (blen b p - 1) / ?B powi blen b q"
    using B power_int_diff [of ?B "blen b p - 1" "blen b q"] by (simp only:) simp
  also have "\<dots> \<le> x"
    unfolding xe using blen_rat_bounds [OF b p] blen_rat_bounds [OF b q] p q B
    by (intro frac_le) auto
  finally have low: "?B powi (k - 1) \<le> x" .
  have "x < ?B powi blen b p / ?B powi (blen b q - 1)"
    unfolding xe using blen_rat_bounds [OF b p] blen_rat_bounds [OF b q] p B
    by (intro frac_less) auto
  also have "\<dots> = ?B powi (blen b p - (blen b q - 1))"
    using B power_int_diff [of ?B "blen b p" "blen b q - 1"] by simp
  also have "blen b p - (blen b q - 1) = k + 1" by (simp add: k_def)
  finally have high: "x < ?B powi (k + 1)" .
  have "ilog b x = (if ?B powi k \<le> x then k else k - 1)"
    by (simp add: ilog_def pq k_def Let_def)
  with low high show "?B powi ilog b x \<le> x" and "x < ?B powi (ilog b x + 1)"
    by (auto split: if_splits)
qed

lemma ilog_eqI:
  assumes b: "2 \<le> b" and low: "of_int b powi k \<le> x" and high: "x < of_int b powi (k + 1)"
  shows "ilog b x = k"
proof -
  let ?B = "of_int b :: rat"
  have B: "1 \<le> ?B" using b by simp
  have "0 < ?B powi k" using b by simp
  then have x: "0 < x" using low by (rule less_le_trans)
  have "?B powi k < ?B powi (ilog b x + 1)" "?B powi ilog b x < ?B powi (k + 1)"
    using ilog_bounds [OF b x] low high by auto
  then have "k < ilog b x + 1" "ilog b x < k + 1"
    using B by (metis linorder_not_le power_int_increasing)+
  then show ?thesis by simp
qed

section \<open>Rounding to binary64\<close>

definition round_even :: "rat \<Rightarrow> int" where
  \<comment> \<open>the nearest integer, ties to the even one\<close>
  "round_even x =
     (let f = \<lfloor>x\<rfloor>; d = x - of_int f
      in if d < 1 / 2 then f else if 1 / 2 < d then f + 1 else if even f then f else f + 1)"

lemma round_even_error: "\<bar>of_int (round_even x) - x\<bar> \<le> 1 / 2"
proof -
  define f where "f = \<lfloor>x\<rfloor>"
  have b: "of_int f \<le> x" "x < of_int f + 1" unfolding f_def by linarith+
  consider "x - of_int f < 1 / 2" | "1 / 2 < x - of_int f" | "x - of_int f = 1 / 2"
    by linarith
  then show ?thesis
    using b by cases (simp_all add: round_even_def Let_def abs_le_iff flip: f_def)
qed

lemma round_even_eqI: "\<bar>x - of_int n\<bar> < 1 / 2 \<Longrightarrow> round_even x = n"
  using round_even_error [of x] by linarith

lemma round_even_of_int [simp]: "round_even (of_int n) = n"
  by (rule round_even_eqI) simp

text \<open>
  The exponent of the unit in the last place: 53 significant bits, and never below the
  smallest subnormal \<open>2 ^ -1074\<close>.
\<close>

definition ulp_exp :: "rat \<Rightarrow> int" where
  "ulp_exp x = max (ilog 2 \<bar>x\<bar> - 52) (- 1074)"

definition fl :: "rat \<Rightarrow> rat" where
  "fl x = (if x = 0 then 0
           else of_int (round_even (x / 2 powi ulp_exp x)) * 2 powi ulp_exp x)"

lemma fl_0 [simp]: "fl 0 = 0"
  by (simp add: fl_def)

lemma fl_abs_error:
  "\<bar>fl x - x\<bar> \<le> 2 powi ulp_exp x / 2"
proof (cases "x = 0")
  case False
  let ?u = "(2::rat) powi ulp_exp x"
  have u: "0 < ?u" by simp
  have "fl x - x = (of_int (round_even (x / ?u)) - x / ?u) * ?u"
    using False u by (simp add: fl_def left_diff_distrib)
  then have "\<bar>fl x - x\<bar> = \<bar>of_int (round_even (x / ?u)) - x / ?u\<bar> * ?u"
    using u by (simp add: abs_mult)
  also have "\<dots> \<le> 1 / 2 * ?u"
    using u round_even_error by (intro mult_right_mono) auto
  finally show ?thesis by simp
qed simp

lemma ilog2_bounds:
  "x \<noteq> 0 \<Longrightarrow> 2 powi ilog 2 \<bar>x\<bar> \<le> \<bar>x\<bar>"
  "x \<noteq> 0 \<Longrightarrow> \<bar>x\<bar> < 2 powi (ilog 2 \<bar>x\<bar> + 1)"
  using ilog_bounds [of 2 "\<bar>x\<bar>"] by auto

definition min_normal :: rat where
  "min_normal = 2 powi (- 1022)"

lemma min_normal_le: "min_normal \<le> 1 / 2 ^ 41"
proof -
  have "min_normal \<le> 2 powi (- 41)"
    unfolding min_normal_def by (rule power_int_increasing) auto
  also have "(2::rat) powi (- 41) = 1 / 2 ^ 41" by (simp add: power_int_minus)
  finally show ?thesis .
qed

lemma fl_rel_error:
  assumes "min_normal \<le> \<bar>x\<bar>"
  shows "\<bar>fl x - x\<bar> \<le> \<bar>x\<bar> * 2 powi (- 53)"
proof -
  have "0 < min_normal" unfolding min_normal_def by (rule zero_less_power_int) simp
  with assms have x: "x \<noteq> 0" by (metis abs_0 not_le)
  have "(2::rat) powi (- 1022) < 2 powi (ilog 2 \<bar>x\<bar> + 1)"
    using assms ilog2_bounds(2) [OF x] unfolding min_normal_def by (rule order_le_less_trans)
  then have "- 1022 < ilog 2 \<bar>x\<bar> + 1"
    by (metis linorder_not_le one_le_numeral power_int_increasing)
  then have e: "ulp_exp x = ilog 2 \<bar>x\<bar> - 52" by (simp add: ulp_exp_def)
  have "\<bar>fl x - x\<bar> \<le> 2 powi (ilog 2 \<bar>x\<bar> - 52) / 2"
    using fl_abs_error [of x] by (simp add: e)
  also have "\<dots> = 2 powi ilog 2 \<bar>x\<bar> * 2 powi (- 53)"
    by (simp add: power_int_diff power_int_minus)
  also have "\<dots> \<le> \<bar>x\<bar> * 2 powi (- 53)"
    using ilog2_bounds(1) [OF x] by (intro mult_right_mono) auto
  finally show ?thesis .
qed

lemma fl_representable:
  assumes "x = of_int m * 2 powi e" and "ulp_exp x \<le> e"
  shows "fl x = x"
proof (cases "x = 0")
  case False
  define v where "v = ulp_exp x"
  obtain k where k: "e = v + int k"
    using assms(2) zle_iff_zadd unfolding v_def by blast
  have "x / 2 powi v = of_int (m * 2 ^ k)"
    by (subst assms(1)) (simp add: k power_int_add)
  then have "round_even (x / 2 powi v) = m * 2 ^ k" by (simp only: round_even_of_int)
  with False show ?thesis
    by (simp add: fl_def flip: v_def) (simp add: assms(1) k power_int_add)
qed simp

lemma ilog2_le: "x \<noteq> 0 \<Longrightarrow> \<bar>x\<bar> < 2 powi n \<Longrightarrow> ilog 2 \<bar>x\<bar> < n"
  using ilog2_bounds(1) [of x]
  by (metis (no_types) linorder_not_le one_le_numeral order_less_le_trans
      order_less_irrefl power_int_increasing)

lemma fl_of_int [simp]:
  assumes "\<bar>n\<bar> \<le> 2 ^ 53"
  shows "fl (of_int n) = of_int n"
proof (cases "\<bar>n\<bar> = 2 ^ 53")
  case True
  have "ilog 2 \<bar>of_int n :: rat\<bar> = 53"
    by (rule ilog_eqI) (simp_all add: True flip: of_int_abs)
  then have "ulp_exp (of_int n) \<le> 1" by (simp add: ulp_exp_def)
  moreover have "of_int n = (of_int (n div 2) * 2 powi 1 :: rat)"
  proof -
    have "\<bar>n\<bar> = 9007199254740992" using True by simp
    then have "n = n div 2 * 2" by presburger
    then have "of_int n = (of_int (n div 2 * 2) :: rat)" by simp
    then show ?thesis by simp
  qed
  ultimately show ?thesis by (intro fl_representable [of _ "n div 2" 1])
next
  case False
  with assms have l: "\<bar>n\<bar> < 2 ^ 53" by simp
  show ?thesis
  proof (cases "n = 0")
    case False
    have "of_int \<bar>n\<bar> < (of_int (2 ^ 53) :: rat)"
      using l by (simp only: of_int_less_iff)
    then have "\<bar>of_int n :: rat\<bar> < 2 powi 53" by simp
    then have "ilog 2 \<bar>of_int n :: rat\<bar> < 53"
      using False by (intro ilog2_le) simp_all
    then have "ulp_exp (of_int n) \<le> 0" by (simp add: ulp_exp_def)
    then show ?thesis by (intro fl_representable [of _ n 0]) simp_all
  qed simp
qed

lemma fl_idem [simp]: "fl (fl x) = fl x"
proof (cases "x = 0")
  case False
  define e where "e = ulp_exp x"
  define m where "m = round_even (x / 2 powi e)"
  have y: "fl x = of_int m * 2 powi e" using False by (simp add: fl_def m_def e_def)
  have "ilog 2 \<bar>x\<bar> + 1 \<le> 53 + e" by (simp add: e_def ulp_exp_def)
  then have "(2::rat) powi (ilog 2 \<bar>x\<bar> + 1) \<le> 2 powi (53 + e)" by (intro power_int_increasing) auto
  then have "\<bar>x\<bar> < 2 powi (53 + e)" using ilog2_bounds(2) [OF False] by linarith
  then have "\<bar>x / 2 powi e\<bar> < 2 ^ 53" by (simp add: power_int_add abs_divide divide_less_eq)
  then have "\<bar>of_int m :: rat\<bar> < 2 ^ 53 + 1"
    using round_even_error [of "x / 2 powi e"] unfolding m_def by linarith
  then have "(of_int \<bar>m\<bar> :: rat) < of_int (2 ^ 53 + 1)" by simp
  then have m: "\<bar>m\<bar> \<le> 2 ^ 53" by (simp only: of_int_less_iff)
  show ?thesis
  proof (cases "\<bar>m\<bar> = 2 ^ 53")
    case True
    have "\<bar>of_int m :: rat\<bar> = 2 ^ 53" using True by (metis of_int_abs of_int_numeral of_int_power)
    then have a: "\<bar>fl x\<bar> = 2 powi (53 + e)" unfolding y by (simp add: abs_mult power_int_add)
    have "(2::rat) powi (53 + e) < 2 powi (53 + e + 1)" by (rule power_int_strict_increasing) auto
    then have "ilog 2 \<bar>fl x\<bar> = 53 + e" unfolding a by (intro ilog_eqI) simp_all
    then have "ulp_exp (fl x) \<le> e + 1" by (simp add: ulp_exp_def e_def)
    moreover have "\<bar>m\<bar> = 9007199254740992" using True by simp
    then have "m = m div 2 * 2" by presburger
    then have "(of_int m :: rat) = of_int (m div 2) * 2" by (metis of_int_mult of_int_numeral)
    then have "fl x = of_int (m div 2) * 2 powi (e + 1)" by (simp add: y power_int_add)
    ultimately show ?thesis by (intro fl_representable)
  next
    case F: False
    then have "\<bar>m\<bar> < 2 ^ 53" using m by simp
    then have "of_int \<bar>m\<bar> < (of_int (2 ^ 53) :: rat)" by (simp only: of_int_less_iff)
    then have "\<bar>fl x\<bar> < 2 ^ 53 * 2 powi e" unfolding y by (simp add: abs_mult)
    then have b: "\<bar>fl x\<bar> < 2 powi (53 + e)" by (simp add: power_int_add)
    show ?thesis
    proof (cases "fl x = 0")
      case N: False
      have "ulp_exp (fl x) \<le> e"
        using ilog2_le [OF N b] by (simp add: ulp_exp_def e_def)
      then show ?thesis using y by (intro fl_representable)
    qed simp
  qed
qed simp

section \<open>Number values and operators\<close>

datatype jsnum = NaN | Inf bool \<comment> \<open>\<open>Inf True\<close> is \<open>Infinity\<close>\<close> | Fin rat

definition num :: "rat \<Rightarrow> jsnum" where
  \<comment> \<open>the Number value of an exact result: rounded, or an infinity from \<open>2 ^ 1024\<close> on\<close>
  "num x = (let y = fl x in if y \<noteq> 0 \<and> 1024 \<le> ilog 2 \<bar>y\<bar> then Inf (0 < y) else Fin y)"

definition jint :: "int \<Rightarrow> jsnum" where
  \<comment> \<open>the Number that \<open>JSON.parse\<close> makes of an integer literal\<close>
  "jint n = num (of_int n)"

fun js_add :: "jsnum \<Rightarrow> jsnum \<Rightarrow> jsnum" where
  "js_add (Fin a) (Fin b) = num (a + b)"
| "js_add (Inf s) (Inf t) = (if s = t then Inf s else NaN)"
| "js_add (Inf s) (Fin b) = Inf s"
| "js_add (Fin a) (Inf t) = Inf t"
| "js_add NaN _ = NaN"
| "js_add _ NaN = NaN"

fun js_neg :: "jsnum \<Rightarrow> jsnum" where
  "js_neg (Fin a) = Fin (- a)"
| "js_neg (Inf s) = Inf (\<not> s)"
| "js_neg NaN = NaN"

fun js_mul :: "jsnum \<Rightarrow> jsnum \<Rightarrow> jsnum" where
  "js_mul (Fin a) (Fin b) = num (a * b)"
| "js_mul (Inf s) (Inf t) = Inf (s = t)"
| "js_mul (Inf s) (Fin b) = (if b = 0 then NaN else Inf (s = (0 < b)))"
| "js_mul (Fin a) (Inf t) = (if a = 0 then NaN else Inf (t = (0 < a)))"
| "js_mul NaN _ = NaN"
| "js_mul _ NaN = NaN"

fun js_div :: "jsnum \<Rightarrow> jsnum \<Rightarrow> jsnum" where
  "js_div (Fin a) (Fin b) =
     (if b = 0 then (if a = 0 then NaN else Inf (0 < a)) else num (a / b))"
| "js_div (Inf s) (Inf t) = NaN"
| "js_div (Inf s) (Fin b) = Inf (s = (0 \<le> b))"
| "js_div (Fin a) (Inf t) = Fin 0"
| "js_div NaN _ = NaN"
| "js_div _ NaN = NaN"

fun js_lt :: "jsnum \<Rightarrow> jsnum \<Rightarrow> bool" where
  "js_lt (Fin a) (Fin b) = (a < b)"
| "js_lt (Inf s) (Inf t) = (\<not> s \<and> t)"
| "js_lt (Inf s) (Fin b) = (\<not> s)"
| "js_lt (Fin a) (Inf t) = t"
| "js_lt NaN _ = False"
| "js_lt _ NaN = False"

definition js_le :: "jsnum \<Rightarrow> jsnum \<Rightarrow> bool" where
  "js_le a b = (js_lt a b \<or> (a = b \<and> a \<noteq> NaN))"

definition js_truthy :: "jsnum \<Rightarrow> bool" where
  "js_truthy n = (n \<noteq> NaN \<and> n \<noteq> Fin 0)"

fun js_isFinite :: "jsnum \<Rightarrow> bool" where
  "js_isFinite (Fin _) = True"
| "js_isFinite _ = False"

fun math_floor :: "jsnum \<Rightarrow> jsnum" where
  "math_floor (Fin x) = Fin (of_int \<lfloor>x\<rfloor>)"
| "math_floor n = n"

fun math_ceil :: "jsnum \<Rightarrow> jsnum" where
  "math_ceil (Fin x) = Fin (of_int \<lceil>x\<rceil>)"
| "math_ceil n = n"

fun math_round :: "jsnum \<Rightarrow> jsnum" where
  \<comment> \<open>the nearest integer, ties towards \<open>+Infinity\<close>\<close>
  "math_round (Fin x) = Fin (of_int \<lfloor>x + 1 / 2\<rfloor>)"
| "math_round n = n"

definition math_min :: "jsnum \<Rightarrow> jsnum \<Rightarrow> jsnum" where
  "math_min a b = (if a = NaN \<or> b = NaN then NaN else if js_lt b a then b else a)"

definition math_max :: "jsnum \<Rightarrow> jsnum \<Rightarrow> jsnum" where
  "math_max a b = (if a = NaN \<or> b = NaN then NaN else if js_lt a b then b else a)"

lemma num_exact: "fl x = x \<Longrightarrow> \<bar>x\<bar> < 2 powi 1024 \<Longrightarrow> num x = Fin x"
  using ilog2_le [of x 1024] by (auto simp: num_def)

lemma num_of_int [number_simps]: "\<bar>n\<bar> \<le> 2 ^ 53 \<Longrightarrow> num (of_int n) = Fin (of_int n)"
proof (rule num_exact)
  assume n: "\<bar>n\<bar> \<le> 2 ^ 53"
  then show "fl (of_int n) = of_int n" by (rule fl_of_int)
  have "\<bar>of_int n :: rat\<bar> \<le> 2 ^ 53"
    using n by (metis of_int_abs of_int_le_iff of_int_numeral of_int_power)
  also have "(2::rat) ^ 53 = 2 powi 53" by simp
  also have "(2::rat) powi 53 < 2 powi 1024" by (rule power_int_strict_increasing) auto
  finally show "\<bar>of_int n :: rat\<bar> < 2 powi 1024" .
qed

lemma jint_small [number_simps]: "\<bar>n\<bar> \<le> 2 ^ 53 \<Longrightarrow> jint n = Fin (of_int n)"
  by (simp add: jint_def num_of_int)

lemma fl_le: "\<bar>fl x\<bar> \<le> 2 * \<bar>x\<bar> + 2"
proof (cases "min_normal \<le> \<bar>x\<bar>")
  case True
  have "\<bar>x\<bar> * 2 powi (- 53) \<le> \<bar>x\<bar> * 1"
    by (intro mult_left_mono) (simp_all add: power_int_minus)
  then show ?thesis using fl_rel_error [OF True] by linarith
next
  case False
  show ?thesis
  proof (cases "x = 0")
    case x0: False
    have "\<bar>x\<bar> < 2 powi (- 1022)" using False by (simp add: min_normal_def)
    with x0 have "ilog 2 \<bar>x\<bar> < - 1022" by (rule ilog2_le)
    then have "ulp_exp x \<le> 0" by (simp add: ulp_exp_def)
    then have "(2::rat) powi ulp_exp x \<le> 2 powi 0" by (intro power_int_increasing) auto
    then have "\<bar>fl x - x\<bar> \<le> 1" using fl_abs_error [of x] by simp
    moreover have "\<bar>fl x\<bar> \<le> \<bar>fl x - x\<bar> + \<bar>x\<bar>" using abs_triangle_ineq [of "fl x - x" x] by simp
    moreover have "0 \<le> \<bar>x\<bar>" by simp
    ultimately show ?thesis by linarith
  qed simp
qed

lemma num_moderate: "\<bar>x\<bar> < 2 powi 1000 \<Longrightarrow> num x = Fin (fl x)"
proof -
  assume x: "\<bar>x\<bar> < 2 powi 1000"
  have "2 + 2 < (2::rat) powi 1001"
    using power_int_strict_increasing [of 2 1001 "2::rat"] by simp
  moreover have "2 * \<bar>x\<bar> < 2 powi 1 * 2 powi 1000" using x by simp
  moreover have "(2::rat) powi 1 * 2 powi 1000 = 2 powi 1001" by (subst power_int_add [symmetric]) simp_all
  moreover have "(2::rat) powi 1001 + 2 powi 1001 = 2 powi 1 * 2 powi 1001" by simp
  moreover have "(2::rat) powi 1 * 2 powi 1001 = 2 powi 1002" by (subst power_int_add [symmetric]) simp_all
  moreover have "(2::rat) powi 1002 < 2 powi 1024" by (rule power_int_strict_increasing) auto
  ultimately have "\<bar>fl x\<bar> < 2 powi 1024" using fl_le [of x] by linarith
  moreover have "num x = num (fl x)" by (simp add: num_def)
  ultimately show ?thesis using num_exact [of "fl x"] by simp
qed

lemma num_0 [simp]: "num 0 = Fin 0"
  by (simp add: num_def)

lemma math_min_le: "math_min a b \<noteq> NaN \<Longrightarrow> js_le (math_min a b) a \<and> js_le (math_min a b) b"
  by (cases a; cases b) (auto simp: math_min_def js_le_def)

lemma math_max_ge: "math_max a b \<noteq> NaN \<Longrightarrow> js_le a (math_max a b) \<and> js_le b (math_max a b)"
  by (cases a; cases b) (auto simp: math_max_def js_le_def)

text \<open>
  Dividing an integer by a unit and multiplying back loses nothing once the product is
  rounded to an integer: the two roundings together are off by less than one half.
\<close>

lemma fl_div_mul_round:
  fixes n :: int and u :: rat
  assumes n: "0 < n" "n < 2 ^ 50" and u: "1 \<le> u" "u \<le> 2 ^ 40"
  shows "\<lfloor>fl (fl (of_int n / u) * u) + 1 / 2\<rfloor> = n"
proof -
  let ?n = "of_int n :: rat" and ?e = "2 powi (- 53) :: rat"
  define q where "q = fl (?n / u)"
  define r where "r = fl (q * u)"
  have n1: "1 \<le> ?n" and n2: "?n \<le> 2 ^ 50"
    using n of_int_less_iff [of n "2 ^ 50", where 'a = rat] by simp_all
  have "1 / u \<ge> 1 / 2 ^ 40" using u by (simp add: field_simps)
  moreover have "?n / u \<ge> 1 / u" using n1 u by (simp add: field_simps)
  ultimately have q0: "1 / 2 ^ 40 \<le> ?n / u" by linarith
  have "1 / 2 ^ 41 \<le> (1 / 2 ^ 40 :: rat)" by simp
  then have "min_normal \<le> \<bar>?n / u\<bar>" using q0 min_normal_le by linarith
  then have "\<bar>q - ?n / u\<bar> \<le> \<bar>?n / u\<bar> * ?e"
    unfolding q_def by (rule fl_rel_error)
  moreover have "\<bar>?n / u\<bar> = ?n / u" using n1 u by simp
  ultimately have qe: "\<bar>q - ?n / u\<bar> \<le> ?n / u * ?e" by simp
  have "q * u - ?n = (q - ?n / u) * u" using u by (simp add: left_diff_distrib)
  then have "\<bar>q * u - ?n\<bar> = \<bar>q - ?n / u\<bar> * u" using u by (simp add: abs_mult)
  also have "\<dots> \<le> ?n / u * ?e * u" using qe u by (intro mult_right_mono) auto
  also have "\<dots> = ?n * ?e" using u by simp
  finally have qu: "\<bar>q * u - ?n\<bar> \<le> ?n * ?e" .
  have e: "?e = 1 / 2 ^ 53" by (simp add: power_int_minus field_simps)
  have ne: "?n * ?e \<le> 1 / 4" using n2 by (simp add: e)
  then have lo: "3 / 4 \<le> q * u" and hi: "q * u \<le> ?n + 1 / 4" using qu n1 by linarith+
  have "1 / 2 ^ 41 \<le> (3 / 4 :: rat)" by simp
  then have "min_normal \<le> \<bar>q * u\<bar>" using lo min_normal_le by linarith
  then have "\<bar>r - q * u\<bar> \<le> \<bar>q * u\<bar> * ?e"
    unfolding r_def by (rule fl_rel_error)
  also have "\<dots> \<le> (?n + 1 / 4) * ?e" using lo hi by (intro mult_right_mono) (auto simp: e)
  finally have re: "\<bar>r - q * u\<bar> \<le> ?n * ?e + 1 / 4 * ?e" by (simp add: distrib_right)
  have "\<bar>r - ?n\<bar> \<le> 2 * (?n * ?e) + 1 / 4 * ?e" using qu re by linarith
  also have "\<dots> \<le> 2 * (2 ^ 50 * (1 / 2 ^ 53)) + 1 / 4 * (1 / 2 ^ 53)"
    using n2 by (simp add: e)
  finally have "\<bar>r - ?n\<bar> < 1 / 2" by simp
  then have "?n \<le> r + 1 / 2" "r + 1 / 2 < ?n + 1" by linarith+
  then show ?thesis unfolding r_def q_def by (simp add: floor_eq_iff)
qed

text \<open>
  Rounding the quotient of two integers, the divisor even, gives the nearest integer with ties
  upwards: the error of the division is too small to cross a half.
\<close>

lemma fl_div_round:
  fixes n v :: int
  assumes n: "0 \<le> n" "n < 2 ^ 52" and v: "1 \<le> v" "v \<le> 2 ^ 40"
  shows "\<lfloor>fl (of_int n / of_int (2 * v)) + 1 / 2\<rfloor> = (n + v) div (2 * v)"
proof (cases "n = 0")
  case True
  then show ?thesis using v by (simp add: floor_eq_iff)
next
  case False
  define u where "u = (of_int (2 * v) :: rat)"
  define x where "x = (of_int n :: rat) / u"
  define q where "q = (n + v) div (2 * v)"
  have "(n + v) mod (2 * v) = n + v - 2 * v * q" "0 \<le> (n + v) mod (2 * v)" "(n + v) mod (2 * v) < 2 * v"
    using v by (simp_all add: q_def minus_mult_div_eq_mod)
  then have i: "2 * v * q \<le> n + v" "n + v < 2 * v * q + 2 * v" by linarith+
  have u: "2 \<le> u" "u \<le> 2 ^ 41"
    using v(1) of_int_le_iff [of 1 v, where 'a = rat] v(2) of_int_le_iff [of v "2 ^ 40", where 'a = rat]
    by (simp_all add: u_def)
  have nq: "1 \<le> (of_int n :: rat)" "(of_int n :: rat) < 2 ^ 52"
    using n False of_int_le_iff [of 1 n, where 'a = rat] of_int_less_iff [of n "2 ^ 52", where 'a = rat] by simp_all
  have xu: "x * u = of_int n" using u by (simp add: x_def)
  have "1 / 2 ^ 41 \<le> 1 / u" using u by (intro divide_left_mono) auto
  also have "1 / u \<le> x" unfolding x_def using nq u by (intro divide_right_mono) auto
  finally have "1 / 2 ^ 41 \<le> \<bar>x\<bar>" using u nq by (simp add: x_def)
  then have e: "\<bar>fl x - x\<bar> \<le> \<bar>x\<bar> * 2 powi (- 53)"
    using min_normal_le by (intro fl_rel_error) linarith
  have "\<bar>fl x - x\<bar> * u \<le> \<bar>x\<bar> * 2 powi (- 53) * u" using e u by (intro mult_right_mono) auto
  also have "\<dots> = of_int n * 2 powi (- 53)" using xu u nq by (simp add: x_def)
  also have "\<dots> < 1 / 2" using nq by (simp add: power_int_minus)
  finally have d: "\<bar>fl x - x\<bar> * u < 1 / 2" .
  have vq: "u = 2 * of_int v" by (simp add: u_def)
  have hi: "(fl x + 1 / 2) * u < (of_int q + 1) * u"
  proof -
    have "n + 1 + v \<le> 2 * v * q + 2 * v" using i by simp
    then have "(of_int (n + 1 + v) :: rat) \<le> of_int (2 * v * q + 2 * v)" by (simp only: of_int_le_iff)
    then have "of_int n + 1 + u / 2 \<le> u * of_int q + u" by (simp add: vq)
    moreover have "(fl x - x) * u \<le> \<bar>fl x - x\<bar> * u" using u by (intro mult_right_mono) auto
    ultimately show ?thesis using d xu by (simp add: algebra_simps)
  qed
  have lo: "of_int q * u \<le> (fl x + 1 / 2) * u"
  proof (cases "n + v = 2 * v * q")
    case True
    then have "(of_int n :: rat) + of_int v = 2 * of_int v * of_int q"
      by (metis of_int_add of_int_mult of_int_numeral)
    then have x2: "x = of_int (2 * q - 1) * 2 powi (- 1)"
      using u by (simp add: x_def vq power_int_minus field_simps)
    have "x < 2 powi 52"
    proof -
      have "x \<le> of_int n" unfolding x_def using u nq by (simp add: divide_le_eq mult_left_le)
      then show ?thesis using nq by simp
    qed
    moreover have x0: "0 < x" using nq u by (simp add: x_def)
    ultimately have "ilog 2 \<bar>x\<bar> < 52 - 0" using ilog2_le [of x 52] by simp
    then have "ulp_exp x \<le> - 1" by (simp add: ulp_exp_def)
    with x2 have "fl x = x" by (rule fl_representable)
    moreover have "x + 1 / 2 = of_int q" using x2 by (simp add: power_int_minus field_simps)
    ultimately show ?thesis by simp
  next
    case False
    then have "2 * v * q + 1 \<le> n + v" using i by simp
    then have "(of_int (2 * v * q + 1) :: rat) \<le> of_int (n + v)" by (simp only: of_int_le_iff)
    then have "u * of_int q + 1 \<le> of_int n + u / 2" by (simp add: vq)
    moreover have "(x - fl x) * u \<le> \<bar>fl x - x\<bar> * u" using u by (intro mult_right_mono) auto
    ultimately show ?thesis using d xu by (simp add: algebra_simps)
  qed
  have "0 < u" using u by simp
  with lo hi have "of_int q \<le> fl x + 1 / 2" "fl x + 1 / 2 < of_int q + 1"
    by (metis mult_le_cancel_right_pos, metis mult_less_cancel_right_pos)
  then have "\<lfloor>fl x + 1 / 2\<rfloor> = q" by (simp add: floor_eq_iff)
  then show ?thesis by (simp only: x_def u_def q_def)
qed

section \<open>Rounding is monotone\<close>

lemma round_even_mono: "x \<le> y \<Longrightarrow> round_even x \<le> round_even y"
proof -
  assume xy: "x \<le> y"
  show ?thesis
  proof (cases "\<lfloor>x\<rfloor> = \<lfloor>y\<rfloor>")
    case True
    then show ?thesis using xy by (auto simp: round_even_def Let_def)
  next
    case False
    then have "\<lfloor>x\<rfloor> + 1 \<le> \<lfloor>y\<rfloor>" using floor_mono [OF xy] by linarith
    then show ?thesis by (auto simp: round_even_def Let_def)
  qed
qed

lemma fl_grid:
  assumes "x \<noteq> 0"
  shows "x \<le> of_int n * 2 powi ulp_exp x \<Longrightarrow> fl x \<le> of_int n * 2 powi ulp_exp x"
    and "of_int n * 2 powi ulp_exp x \<le> x \<Longrightarrow> of_int n * 2 powi ulp_exp x \<le> fl x"
proof -
  let ?u = "(2::rat) powi ulp_exp x"
  have u: "0 < ?u" by simp
  have f: "fl x = of_int (round_even (x / ?u)) * ?u" using assms by (simp add: fl_def)
  {
    assume "x \<le> of_int n * ?u"
    then have "x / ?u \<le> of_int n" using u by (simp add: divide_le_eq)
    then have "round_even (x / ?u) \<le> n" using round_even_mono [of "x / ?u" "of_int n"] by simp
    then show "fl x \<le> of_int n * ?u" unfolding f using u by (intro mult_right_mono) simp_all
  next
    assume "of_int n * ?u \<le> x"
    then have "of_int n \<le> x / ?u" using u by (simp add: le_divide_eq)
    then have "n \<le> round_even (x / ?u)" using round_even_mono [of "of_int n" "x / ?u"] by simp
    then show "of_int n * ?u \<le> fl x" unfolding f using u by (intro mult_right_mono) simp_all
  }
qed

lemma fl_nonneg: "0 \<le> x \<Longrightarrow> 0 \<le> fl x"
  using fl_grid(2) [of x 0] by (cases "x = 0") simp_all

lemma ilog2_mono: "0 < x \<Longrightarrow> x \<le> y \<Longrightarrow> ilog 2 x \<le> ilog 2 y"
  using ilog2_le [of x "ilog 2 y + 1"] ilog2_bounds(2) [of y] by simp

lemma fl_mono:
  assumes "0 \<le> x" "x \<le> y"
  shows "fl x \<le> fl y"
proof (cases "x = 0")
  case False
  then have x: "0 < x" and y: "0 < y" using assms by simp_all
  have l: "ilog 2 x \<le> ilog 2 y" using x assms(2) by (rule ilog2_mono)
  show ?thesis
  proof (cases "ulp_exp x = ulp_exp y")
    case True
    then have "x / 2 powi ulp_exp x \<le> y / 2 powi ulp_exp y" using assms(2) by (simp add: divide_right_mono)
    then show ?thesis using x y True by (simp add: fl_def round_even_mono mult_right_mono)
  next
    case False
    then have e: "ulp_exp y = ilog 2 y - 52" "ulp_exp x < ilog 2 y - 52" "ilog 2 x + 1 \<le> ilog 2 y"
      using l x y by (auto simp: ulp_exp_def max_def split: if_splits)
    define B where "B = (2::rat) powi ilog 2 y"
    have grid: "B = of_int (2 ^ nat (ilog 2 y - k)) * 2 powi k" if "k \<le> ilog 2 y" for k
    proof -
      have "(2::rat) powi ilog 2 y = 2 powi (ilog 2 y - k) * 2 powi k" by (subst power_int_add [symmetric]) simp_all
      then show ?thesis using that by (simp add: B_def power_int_def)
    qed
    have "(2::rat) powi (ilog 2 x + 1) \<le> B" unfolding B_def using e(3) by (intro power_int_increasing) auto
    then have "x \<le> B" using ilog2_bounds(2) [of x] x by simp
    then have "fl x \<le> B"
      using fl_grid(1) [of x "2 ^ nat (ilog 2 y - ulp_exp x)"] grid [of "ulp_exp x"] e x by simp
    moreover have "B \<le> y" using ilog2_bounds(1) [of y] y by (simp add: B_def)
    then have "B \<le> fl y"
      using fl_grid(2) [of y "2 ^ nat (ilog 2 y - ulp_exp y)"] grid [of "ulp_exp y"] e y by simp
    ultimately show ?thesis by linarith
  qed
qed (use assms fl_nonneg [of y] in simp)

text \<open>Rounding a number between two small non-negative integers stays between them.\<close>

lemma num_between:
  assumes "0 \<le> a" "of_int a \<le> x" "x \<le> of_int b" "b \<le> 2 ^ 53"
  shows "num x = Fin (fl x)" "of_int a \<le> fl x" "fl x \<le> of_int b"
proof -
  have nn: "0 \<le> (of_int a :: rat)" using assms(1) by simp
  have ab: "a \<le> b" using assms(2,3) by (metis of_int_le_iff order_trans)
  have "(2::rat) ^ 53 < 2 powi 1000" using power_int_strict_increasing [of 53 1000 "2::rat"] by simp
  moreover have "(of_int b :: rat) \<le> of_int (2 ^ 53)" using assms(4) by (simp only: of_int_le_iff)
  ultimately have "\<bar>x\<bar> < 2 powi 1000" using assms(2,3) nn by simp
  then show "num x = Fin (fl x)" by (rule num_moderate)
  show "of_int a \<le> fl x" using fl_mono [of "of_int a" x] assms(2,4) nn ab assms(1) by simp
  show "fl x \<le> of_int b" using fl_mono [of x "of_int b"] assms nn ab by simp
qed

end
