(* ===== verification/JsNumText.thy ===== *)
theory JsNumText
  imports JsNumber
begin

text \<open>
  Numbers and text: \<open>String(n)\<close> with the shortest digits that read back as the number,
  \<open>toFixed\<close>, \<open>parseFloat\<close> and \<open>parseInt(s, 10)\<close>. The main fact is that \<open>parseFloat\<close>
  inverts \<open>String\<close>.
\<close>

section \<open>Decimal digits\<close>

definition digit :: "int \<Rightarrow> char" where
  "digit d = ''0123456789'' ! nat d"

definition is_digit :: "char \<Rightarrow> bool" where
  "is_digit c = (c \<in> set ''0123456789'')"

definition digit_val :: "char \<Rightarrow> int" where
  "digit_val c = of_char c - 48"

function digits :: "int \<Rightarrow> string" where
  \<comment> \<open>the decimal digits of a natural number\<close>
  "digits n = (if n < 10 then [digit n] else digits (n div 10) @ [digit (n mod 10)])"
  by pat_completeness auto
termination
  by (relation "measure nat") auto

declare digits.simps [simp del]

definition int_string :: "int \<Rightarrow> string" where
  "int_string n = (if n < 0 then CHR ''-'' # digits (- n) else digits n)"

definition digits_val :: "string \<Rightarrow> int" where
  "digits_val s = foldl (\<lambda>a c. 10 * a + digit_val c) 0 s"

lemma digit_props:
  assumes "0 \<le> d" "d < 10"
  shows "is_digit (digit d)" "digit_val (digit d) = d"
proof -
  have "d = 0 \<or> d = 1 \<or> d = 2 \<or> d = 3 \<or> d = 4 \<or> d = 5 \<or> d = 6 \<or> d = 7 \<or> d = 8 \<or> d = 9"
    using assms by arith
  then show "is_digit (digit d)" "digit_val (digit d) = d"
    by (auto simp: is_digit_def digit_def digit_val_def)
qed

lemma digits_are_digits: "0 \<le> n \<Longrightarrow> \<forall>c \<in> set (digits n). is_digit c"
proof (induction n rule: digits.induct)
  case (1 n)
  then show ?case by (subst digits.simps) (auto simp: digit_props)
qed

lemma digits_nonempty [simp]: "digits n \<noteq> []"
  by (subst digits.simps) simp

lemma foldl_digits_append:
  "foldl (\<lambda>a c. 10 * a + digit_val c) a s = a * 10 ^ length s + digits_val s"
proof (induction s arbitrary: a)
  case (Cons c s)
  have "digits_val (c # s) = digit_val c * 10 ^ length s + digits_val s"
    using Cons [of "digit_val c"] by (simp add: digits_val_def)
  then show ?case using Cons [of "10 * a + digit_val c"] by (simp add: algebra_simps)
qed (simp add: digits_val_def)

lemma digits_val_Nil [simp]: "digits_val [] = 0"
  by (simp add: digits_val_def)

lemma digits_val_append:
  "digits_val (s @ t) = digits_val s * 10 ^ length t + digits_val t"
  using foldl_digits_append [of "digits_val s" t] by (simp add: digits_val_def)

lemma digits_val_singleton [simp]: "digits_val [c] = digit_val c"
  by (simp add: digits_val_def)

lemma digits_val_Cons:
  "digits_val (c # s) = digit_val c * 10 ^ length s + digits_val s"
  using digits_val_append [of "[c]" s] by simp

lemma digits_val_digits [simp]: "0 \<le> n \<Longrightarrow> digits_val (digits n) = n"
proof (induction n rule: digits.induct)
  case (1 n)
  show ?case
  proof (cases "n < 10")
    case False
    with 1 have "digits_val (digits (n div 10)) = n div 10" by simp
    with False show ?thesis
      by (subst digits.simps) (simp add: digits_val_append digit_props)
  qed (use 1 in \<open>subst digits.simps, simp add: digit_props\<close>)
qed

lemma digits_val_zeros [simp]: "digits_val (replicate k CHR ''0'' @ s) = digits_val s"
  by (induction k) (simp_all add: digits_val_Cons digit_val_def)

lemma digits_val_trailing [simp]:
  "digits_val (s @ replicate k CHR ''0'') = digits_val s * 10 ^ k"
  using digits_val_zeros [of k "[]"] by (simp add: digits_val_append)

lemma is_digit_zero [simp]: "is_digit CHR ''0''"
  by (simp add: is_digit_def)

lemma digits_inj: "0 \<le> m \<Longrightarrow> 0 \<le> n \<Longrightarrow> digits m = digits n \<Longrightarrow> m = n"
  by (metis digits_val_digits)

section \<open>String(n)\<close>

text \<open>
  The shortest decimal: the least number \<open>k\<close> of significant digits for which a \<open>k\<close>-digit
  decimal with \<open>n\<close> digits before the point rounds to the number, the one nearest to it
  first. Seventeen digits are always enough.
\<close>

definition dec_at :: "rat \<Rightarrow> int \<Rightarrow> nat \<Rightarrow> int \<Rightarrow> bool" where
  "dec_at x n k s = (fl (of_int s * 10 powi (n - int k)) = x)"

definition near_digits :: "rat \<Rightarrow> int \<Rightarrow> nat \<Rightarrow> int" where
  "near_digits x n k = round_even (x / 10 powi (n - int k))"

definition far_digits :: "rat \<Rightarrow> int \<Rightarrow> nat \<Rightarrow> int" where
  "far_digits x n k =
     (let y = x / 10 powi (n - int k); s = near_digits x n k
      in if of_int s \<le> y then s + 1 else s - 1)"

fun shortest_from :: "rat \<Rightarrow> int \<Rightarrow> nat list \<Rightarrow> (nat \<times> int) option" where
  "shortest_from x n [] = None"
| "shortest_from x n (k # ks) =
     (if dec_at x n k (near_digits x n k) then Some (k, near_digits x n k)
      else if dec_at x n k (far_digits x n k) then Some (k, far_digits x n k)
      else shortest_from x n ks)"

definition shortest :: "rat \<Rightarrow> nat \<times> int" where
  "shortest x =
     (case shortest_from x (ilog 10 x + 1) [1..<18] of
        Some ks \<Rightarrow> ks
      | None \<Rightarrow> (17, near_digits x (ilog 10 x + 1) 17))"

text \<open>
  The layout of the digits of \<open>s\<close> with \<open>n\<close> digits before the point: plain, with a point,
  with leading zeros, or with an exponent.
\<close>

definition layout :: "string \<Rightarrow> int \<Rightarrow> string" where
  "layout ds n =
     (let k = int (length ds) in
      if k \<le> n \<and> n \<le> 21 then ds @ replicate (nat (n - k)) CHR ''0''
      else if 0 < n \<and> n \<le> 21 then take (nat n) ds @ ''.'' @ drop (nat n) ds
      else if - 6 < n \<and> n \<le> 0 then ''0.'' @ replicate (nat (- n)) CHR ''0'' @ ds
      else let e = n - 1; sgn = (if e < 0 then ''-'' else ''+'');
               ex = ''e'' @ sgn @ digits \<bar>e\<bar>
           in if k = 1 then ds @ ex else take 1 ds @ ''.'' @ drop 1 ds @ ex)"

definition pos_string :: "rat \<Rightarrow> string" where
  "pos_string x =
     (let n = ilog 10 x + 1; (k, s) = shortest x
      in if s = 10 ^ k then layout ''1'' (n + 1) else layout (digits s) n)"

fun js_String :: "jsnum \<Rightarrow> string" where
  "js_String NaN = ''NaN''"
| "js_String (Inf s) = (if s then ''Infinity'' else ''-Infinity'')"
| "js_String (Fin x) =
     (if x = 0 then ''0'' else if x < 0 then ''-'' @ pos_string (- x) else pos_string x)"

section \<open>toFixed\<close>

definition fixed_nat :: "nat \<Rightarrow> int \<Rightarrow> string" where
  \<comment> \<open>the digits of \<open>m / 10 ^ d\<close>, at least one before the point\<close>
  "fixed_nat d m =
     (let ds = digits m; ps = replicate (d + 1 - length ds) CHR ''0'' @ ds;
          i = length ps - d
      in if d = 0 then ps else take i ps @ ''.'' @ drop i ps)"

fun toFixed :: "nat \<Rightarrow> jsnum \<Rightarrow> string" where
  "toFixed d (Fin x) =
     (if 10 ^ 21 \<le> \<bar>x\<bar> then js_String (Fin x)
      else if x < 0 then ''-'' @ fixed_nat d \<lfloor>- x * 10 ^ d + 1 / 2\<rfloor>
      else fixed_nat d \<lfloor>x * 10 ^ d + 1 / 2\<rfloor>)"
| "toFixed d n = js_String n"

section \<open>parseFloat and parseInt\<close>

definition is_space :: "char \<Rightarrow> bool" where
  \<comment> \<open>the white space and line terminators of ASCII\<close>
  "is_space c = (c \<in> {CHR '' '', CHR 0x09, CHR 0x0A, CHR 0x0B, CHR 0x0C, CHR 0x0D})"

definition split_sign :: "string \<Rightarrow> bool \<times> string" where
  "split_sign s =
     (case s of [] \<Rightarrow> (False, [])
      | c # r \<Rightarrow> if c = CHR ''-'' then (True, r) else if c = CHR ''+'' then (False, r) else (False, s))"

definition span_digits :: "string \<Rightarrow> string \<times> string" where
  "span_digits s = (takeWhile is_digit s, dropWhile is_digit s)"

definition exponent_part :: "string \<Rightarrow> int" where
  \<comment> \<open>the exponent at the head of the text, 0 when there is none\<close>
  "exponent_part s =
     (case s of [] \<Rightarrow> 0
      | c # r \<Rightarrow>
          if c \<noteq> CHR ''e'' \<and> c \<noteq> CHR ''E'' then 0
          else let (neg, t) = split_sign r; ds = fst (span_digits t)
               in if ds = [] then 0
                  else if neg then - digits_val ds else digits_val ds)"

definition fraction_part :: "string \<Rightarrow> string \<times> string" where
  "fraction_part s =
     (case s of [] \<Rightarrow> ([], [])
      | c # r \<Rightarrow> if c = CHR ''.'' then span_digits r else ([], s))"

definition signed_num :: "bool \<Rightarrow> rat \<Rightarrow> jsnum" where
  "signed_num neg x = num (if neg then - x else x)"

definition parseFloat :: "string \<Rightarrow> jsnum" where
  "parseFloat s =
     (let (neg, t) = split_sign (dropWhile is_space s) in
      if take 8 t = ''Infinity'' then Inf (\<not> neg)
      else let (ip, r) = span_digits t; (fp, r') = fraction_part r
           in if ip = [] \<and> fp = [] then NaN
              else signed_num neg (of_int (digits_val (ip @ fp))
                               * 10 powi (exponent_part r' - int (length fp))))"

definition parseInt10 :: "string \<Rightarrow> jsnum" where
  "parseInt10 s =
     (let (neg, t) = split_sign (dropWhile is_space s); ds = fst (span_digits t)
      in if ds = [] then NaN else signed_num neg (of_int (digits_val ds)))"

section \<open>Reading a number back\<close>

lemma digit_not_special:
  "is_digit c \<Longrightarrow> \<not> is_space c \<and> c \<noteq> CHR ''-'' \<and> c \<noteq> CHR ''+'' \<and> c \<noteq> CHR ''I''
     \<and> c \<noteq> CHR ''.'' \<and> c \<noteq> CHR ''e'' \<and> c \<noteq> CHR ''E''"
  by (auto simp: is_digit_def is_space_def)

lemma span_digits_append:
  "\<forall>c \<in> set ds. is_digit c \<Longrightarrow> r = [] \<or> \<not> is_digit (hd r) \<Longrightarrow> span_digits (ds @ r) = (ds, r)"
  unfolding span_digits_def
  by (simp only: takeWhile_append_stop dropWhile_append_stop)

lemma parseFloat_digits_head:
  assumes "is_digit c" and "s = c # r"
  shows "dropWhile is_space s = s" "split_sign s = (False, s)" "take 8 s \<noteq> ''Infinity''"
  using digit_not_special [OF assms(1)] assms(2)
  by (auto simp: split_sign_def)

lemma parseFloat_int:
  assumes "\<forall>c \<in> set ds. is_digit c" and "ds \<noteq> []"
  shows "parseFloat ds = num (of_int (digits_val ds))"
proof -
  obtain c r where cr: "ds = c # r" using assms(2) by (cases ds) auto
  then have c: "is_digit c" using assms(1) by simp
  have "span_digits ds = (ds, [])" using span_digits_append [of ds "[]"] assms(1) by simp
  then show ?thesis
    using parseFloat_digits_head [OF c cr] assms(2)
    by (simp add: parseFloat_def fraction_part_def exponent_part_def signed_num_def)
qed

lemma parseFloat_point:
  assumes "\<forall>c \<in> set ip. is_digit c" and "ip \<noteq> []" and "\<forall>c \<in> set fp. is_digit c"
  shows "parseFloat (ip @ ''.'' @ fp)
       = num (of_int (digits_val (ip @ fp)) * 10 powi (- int (length fp)))"
proof -
  obtain c r where cr: "ip @ ''.'' @ fp = c # r" and c: "is_digit c"
    using assms(1,2) by (cases ip) auto
  have "span_digits (ip @ ''.'' @ fp) = (ip, ''.'' @ fp)"
    using assms(1) by (intro span_digits_append) (auto simp: is_digit_def)
  moreover have "span_digits fp = (fp, [])"
    using span_digits_append [of fp "[]"] assms(3) by simp
  ultimately show ?thesis
    using parseFloat_digits_head [OF c cr] assms(2)
    by (simp add: parseFloat_def fraction_part_def exponent_part_def signed_num_def)
qed

lemma parseFloat_layout:
  assumes ds: "\<forall>c \<in> set ds. is_digit c" "ds \<noteq> []" and n: "- 6 < n" "n \<le> 21"
  shows "parseFloat (layout ds n)
       = num (of_int (digits_val ds) * 10 powi (n - int (length ds)))"
proof -
  consider (plain) "int (length ds) \<le> n" | (point) "0 < n" "n < int (length ds)" | (zeros) "n \<le> 0"
    by linarith
  then show ?thesis
  proof cases
    case plain
    let ?z = "replicate (nat (n - int (length ds))) CHR ''0''"
    have "layout ds n = ds @ ?z" using plain n by (simp add: layout_def)
    moreover have "parseFloat (ds @ ?z) = num (of_int (digits_val (ds @ ?z)))"
      using ds by (intro parseFloat_int) auto
    ultimately show ?thesis using plain by (simp add: power_int_def)
  next
    case point
    have "layout ds n = take (nat n) ds @ ''.'' @ drop (nat n) ds"
      using point n by (simp add: layout_def)
    moreover have "- int (length (drop (nat n) ds)) = n - int (length ds)"
      using point by simp
    ultimately show ?thesis
      using parseFloat_point [of "take (nat n) ds" "drop (nat n) ds"] ds point
      by (auto dest: in_set_takeD in_set_dropD)
  next
    case zeros
    let ?z = "replicate (nat (- n)) CHR ''0''"
    have "0 < int (length ds)" using ds by simp
    then have "\<not> int (length ds) \<le> n" using zeros by linarith
    then have "layout ds n = ''0'' @ ''.'' @ (?z @ ds)"
      using zeros n by (simp add: layout_def Let_def)
    moreover have "digits_val (''0'' @ ?z @ ds) = digits_val ds"
      using digits_val_zeros [of "Suc (nat (- n))" ds] by simp
    moreover have "- int (length (?z @ ds)) = n - int (length ds)" using zeros by simp
    moreover have "\<forall>c \<in> set (?z @ ds). is_digit c" using ds by auto
    ultimately show ?thesis using parseFloat_point [of "''0''" "?z @ ds"] by (simp only:) simp
  qed
qed

lemma length_digits:
  "1 \<le> k \<Longrightarrow> 10 ^ (k - 1) \<le> n \<Longrightarrow> n < 10 ^ k \<Longrightarrow> length (digits n) = k"
proof (induction n arbitrary: k rule: digits.induct)
  case (1 n)
  show ?case
  proof (cases "n < 10")
    case True
    have "k = 1"
    proof (rule ccontr)
      assume "k \<noteq> 1"
      with 1 have "(10::int) ^ 1 \<le> 10 ^ (k - 1)" by (intro power_increasing) auto
      with 1 True show False by simp
    qed
    with True show ?thesis by (subst digits.simps) simp
  next
    case False
    then have "k \<noteq> 1" using "1.prems" by auto
    then obtain j where j: "k = Suc j" "1 \<le> j" using "1.prems" by (cases k) auto
    obtain i where i: "j = Suc i" using j by (cases j) auto
    have "10 ^ (j - 1) \<le> n div 10" "n div 10 < 10 ^ j"
      using "1.prems" j i by auto
    then have "length (digits (n div 10)) = j" using "1.IH" False j by simp
    with False j show ?thesis by (subst digits.simps) simp
  qed
qed

lemma digit_range:
  assumes x: "0 < x" and k: "1 \<le> k" and n: "n = ilog 10 x + 1"
  shows "10 ^ (k - 1) \<le> x / 10 powi (n - int k)" and "x / 10 powi (n - int k) < 10 ^ k"
proof -
  have b: "10 powi (n - 1) \<le> x" "x < 10 powi n"
    using ilog_bounds [of 10 x] x n by simp_all
  have "(10::rat) powi (n - 1) = 10 ^ (k - 1) * 10 powi (n - int k)"
    using k by (simp add: of_nat_diff flip: power_int_of_nat power_int_add)
  then show "10 ^ (k - 1) \<le> x / 10 powi (n - int k)" using b by (simp add: field_simps)
  have "(10::rat) powi n = 10 ^ k * 10 powi (n - int k)"
    by (simp flip: power_int_of_nat power_int_add)
  then show "x / 10 powi (n - int k) < 10 ^ k" using b by (simp add: field_simps)
qed

lemma round_even_mono_int:
  assumes "of_int a \<le> y"
  shows "a \<le> round_even y"
proof (rule ccontr)
  assume "\<not> a \<le> round_even y"
  then have "of_int (round_even y) \<le> (of_int (a - 1) :: rat)" by (simp only: of_int_le_iff)
  then show False using assms round_even_error [of y] by simp
qed

lemma round_even_int_le:
  assumes "y < of_int a"
  shows "round_even y \<le> a"
proof (rule ccontr)
  assume "\<not> round_even y \<le> a"
  then have "of_int (a + 1) \<le> (of_int (round_even y) :: rat)" by (simp only: of_int_le_iff)
  then show False using assms round_even_error [of y] by simp
qed

lemma candidate_range:
  assumes x: "0 < x" and k: "1 \<le> k" and n: "n = ilog 10 x + 1"
    and s: "s = near_digits x n k \<or> s = far_digits x n k"
  shows "10 ^ (k - 1) \<le> s" and "s \<le> 10 ^ k"
proof -
  define y where "y = x / 10 powi (n - int k)"
  have lo: "of_int (10 ^ (k - 1)) \<le> y" and hi: "y < of_int (10 ^ k)"
    using digit_range [OF x k n] by (simp_all add: y_def)
  define m where "m = near_digits x n k"
  have m: "m = round_even y" by (simp add: m_def near_digits_def y_def)
  have err: "\<bar>of_int m - y\<bar> \<le> 1 / 2" unfolding m by (rule round_even_error)
  have mr: "10 ^ (k - 1) \<le> m" "m \<le> 10 ^ k"
    using round_even_mono_int [OF lo] round_even_int_le [OF hi] by (simp_all only: m)
  have "far_digits x n k = (if of_int m \<le> y then m + 1 else m - 1)"
    by (simp add: far_digits_def Let_def y_def m_def)
  moreover have "m + 1 \<le> 10 ^ k" if "of_int m \<le> y"
  proof -
    have "of_int m < (of_int (10 ^ k) :: rat)" using that hi by (rule order_le_less_trans)
    then show ?thesis by (simp only: of_int_less_iff)
  qed
  moreover have "10 ^ (k - 1) \<le> m - 1" if "\<not> of_int m \<le> y"
  proof -
    have "of_int (10 ^ (k - 1)) < (of_int m :: rat)" using that lo by linarith
    then show ?thesis by (simp only: of_int_less_iff)
  qed
  ultimately show "10 ^ (k - 1) \<le> s" "s \<le> 10 ^ k"
    using s mr m_def by (auto split: if_splits)
qed

lemma shortest_from_Some:
  "shortest_from x n ks = Some (k, s) \<Longrightarrow>
     k \<in> set ks \<and> dec_at x n k s \<and> (s = near_digits x n k \<or> s = far_digits x n k)"
  by (induction ks) (auto split: if_splits)

lemma shortest_from_None:
  "shortest_from x n ks = None \<Longrightarrow> k \<in> set ks \<Longrightarrow> \<not> dec_at x n k (near_digits x n k)"
  by (induction ks) (auto split: if_splits)

text \<open>
  A value closer to a double than a quarter of its unit in the last place, or half of it
  when the double is not a power of two, rounds to the double.
\<close>

lemma fl_close:
  assumes m: "2 ^ 52 \<le> m" "m < 2 ^ 53" and e: "- 1022 \<le> e"
    and x: "x = of_int m * 2 powi e"
    and y: "\<bar>y - x\<bar> \<le> x * (1 / (2 * 10 ^ 16))"
  shows "fl y = x"
proof -
  let ?u = "(2::rat) powi e" and ?m = "of_int m :: rat"
  have u: "0 < ?u" by simp
  have mr: "2 ^ 52 \<le> ?m" "?m \<le> 2 ^ 53 - 1"
    using m of_int_le_iff [of "2 ^ 52" m, where 'a = rat]
      of_int_le_iff [of m "2 ^ 53 - 1", where 'a = rat] by simp_all
  define z where "z = y / ?u"
  have yz: "y = z * ?u" using u by (simp add: z_def)
  have "\<bar>z - ?m\<bar> * ?u = \<bar>y - x\<bar>"
    using u unfolding x yz by (simp add: abs_mult flip: left_diff_distrib)
  also have "\<dots> \<le> (?m * (1 / (2 * 10 ^ 16))) * ?u" using y by (simp add: x mult_ac)
  finally have zm: "\<bar>z - ?m\<bar> \<le> ?m * (1 / (2 * 10 ^ 16))" using u by simp
  then have zb: "z \<le> ?m + ?m * (1 / (2 * 10 ^ 16))" "?m - ?m * (1 / (2 * 10 ^ 16)) \<le> z"
    by linarith+
  have z0: "0 < z" using zb mr by simp
  have zhi: "z < 2 ^ 53" using zb mr by simp
  have y0: "y \<noteq> 0" "\<bar>y\<bar> = y" using z0 u by (simp_all add: yz)
  show ?thesis
  proof (cases "2 ^ 52 \<le> z")
    case True
    have "ilog 2 y = e + 52"
      using True zhi u by (intro ilog_eqI) (simp_all add: yz power_int_add mult_ac)
    then have ue: "ulp_exp y = e" using y0 e by (simp add: ulp_exp_def)
    have "\<bar>z - ?m\<bar> < 1 / 2" using zm mr by simp
    then have "round_even z = m" by (rule round_even_eqI)
    then show ?thesis using y0 by (simp add: fl_def ue x flip: z_def)
  next
    case False
    have m52: "m = 2 ^ 52"
    proof (rule ccontr)
      assume "m \<noteq> 2 ^ 52"
      then have "2 ^ 52 + 1 \<le> m" using m by simp
      then have "2 ^ 52 + 1 \<le> ?m" using of_int_le_iff [of "2 ^ 52 + 1" m, where 'a = rat] by simp
      then show False using False zb mr by simp
    qed
    have zlo: "2 ^ 51 \<le> z" using zb mr by simp
    have "ilog 2 y = e + 51"
      using False zlo u by (intro ilog_eqI) (simp_all add: yz power_int_add mult_ac)
    then have ue: "ulp_exp y = e - 1" using y0 e by (simp add: ulp_exp_def)
    have half: "(2::rat) powi (e - 1) = ?u / 2" by (simp add: power_int_diff)
    have "\<bar>2 * z - of_int (2 ^ 53)\<bar> < 1 / 2" using zb unfolding abs_less_iff by (simp add: m52)
    then have "round_even (2 * z) = 2 ^ 53" by (rule round_even_eqI)
    moreover have "y / (?u / 2) = 2 * z" using u by (simp add: z_def)
    ultimately show ?thesis using y0 by (simp add: fl_def ue half x m52)
  qed
qed

lemma double_form:
  assumes x: "fl x = x" and lo: "2 powi (- 20) \<le> x"
  obtains m e where "x = of_int m * 2 powi e" "2 ^ 52 \<le> m" "m < 2 ^ 53" "- 72 \<le> e"
proof -
  have "0 < (2::rat) powi (- 20)" by (rule zero_less_power_int) simp
  with lo have x0: "0 < x" by (rule less_le_trans [rotated])
  have b: "2 powi ilog 2 x \<le> x" "x < 2 powi (ilog 2 x + 1)"
    using ilog_bounds [of 2 x] x0 by simp_all
  have "(2::rat) powi (- 20) < 2 powi (ilog 2 x + 1)"
    using lo b(2) by (rule order_le_less_trans)
  then have "- 20 < ilog 2 x + 1"
    by (metis linorder_not_le one_le_numeral power_int_increasing)
  moreover define e where "e = ulp_exp x"
  ultimately have e: "e = ilog 2 x - 52" "- 72 \<le> e" using x0 by (simp_all add: ulp_exp_def)
  define m where "m = round_even (x / 2 powi e)"
  have xm: "x = of_int m * 2 powi e" using x x0 by (simp add: fl_def m_def e_def)
  have "(2::rat) powi ilog 2 x = 2 ^ 52 * 2 powi e" "(2::rat) powi (ilog 2 x + 1) = 2 ^ 53 * 2 powi e"
    by (simp_all add: e(1) power_int_diff power_int_add)
  then have "of_int (2 ^ 52) \<le> (of_int m :: rat)" "of_int m < (of_int (2 ^ 53) :: rat)"
    using b xm by simp_all
  then have "2 ^ 52 \<le> m" "m < 2 ^ 53" by (simp_all only: of_int_le_iff of_int_less_iff)
  then show ?thesis using that xm e(2) by blast
qed

lemma seventeen_digits:
  assumes x: "fl x = x" "2 powi (- 20) \<le> x" and n: "n = ilog 10 x + 1"
  shows "dec_at x n 17 (near_digits x n 17)"
proof -
  obtain m e where me: "x = of_int m * 2 powi e" "2 ^ 52 \<le> m" "m < 2 ^ 53" "- 72 \<le> e"
    using double_form [OF x] .
  have x0: "0 < x" using me(1,2) by simp
  let ?t = "10 powi (n - int 17) :: rat"
  have t: "0 < ?t" by simp
  define y where "y = of_int (near_digits x n 17) * ?t"
  have "y - x = (of_int (round_even (x / ?t)) - x / ?t) * ?t"
    using t by (simp add: y_def near_digits_def left_diff_distrib)
  then have "\<bar>y - x\<bar> = \<bar>of_int (round_even (x / ?t)) - x / ?t\<bar> * ?t"
    using t by (simp add: abs_mult)
  also have "\<dots> \<le> 1 / 2 * ?t" using round_even_error t by (intro mult_right_mono) auto
  finally have "\<bar>y - x\<bar> \<le> 1 / 2 * ?t" .
  moreover have "10 ^ 16 * ?t \<le> x"
    using digit_range(1) [OF x0 _ n, of 17] t by (simp add: pos_le_divide_eq)
  ultimately have "\<bar>y - x\<bar> \<le> x * (1 / (2 * 10 ^ 16))" by simp
  then have "fl y = x" using fl_close [OF me(2,3) _ me(1)] me(4) by simp
  then show ?thesis by (simp add: dec_at_def y_def)
qed

lemma shortest_search:
  assumes x: "fl x = x" "2 powi (- 20) \<le> x" and n: "n = ilog 10 x + 1"
    and s: "shortest x = (k, s)"
  shows "shortest_from x n [1..<18] = Some (k, s)"
proof -
  have "shortest_from x n [1..<18] \<noteq> None"
  proof
    assume "shortest_from x n [1..<18] = None"
    from shortest_from_None [OF this, of 17] seventeen_digits [OF x n] show False by simp
  qed
  then obtain r where r: "shortest_from x n [1..<18] = Some r" by blast
  then have "r = (k, s)" using s by (simp add: shortest_def flip: n)
  with r show ?thesis by simp
qed

lemma shortest_correct:
  assumes x: "fl x = x" "2 powi (- 20) \<le> x" and n: "n = ilog 10 x + 1"
    and s: "shortest x = (k, s)"
  shows "dec_at x n k s" "1 \<le> k" "10 ^ (k - 1) \<le> s" "s \<le> 10 ^ k"
proof -
  have x0: "0 < x" using x(2) zero_less_power_int [of "2::rat" "- 20"] by linarith
  from shortest_search [OF x n s] have *: "k \<in> set [1..<18]" "dec_at x n k s" "s = near_digits x n k \<or> s = far_digits x n k"
    using shortest_from_Some by blast+
  then have k: "1 \<le> k" by simp
  show "dec_at x n k s" "1 \<le> k" "10 ^ (k - 1) \<le> s" "s \<le> 10 ^ k"
    using * k candidate_range [OF x0 k n *(3)] by simp_all
qed

text \<open>Reading back what \<open>String\<close> writes gives the number again.\<close>

theorem parseFloat_pos_string:
  assumes x: "fl x = x" "1 / 10 ^ 6 \<le> x" "x < 10 ^ 20"
  shows "parseFloat (pos_string x) = Fin x"
proof -
  have lo: "2 powi (- 20) \<le> x" using x(2) by (simp add: power_int_minus)
  have x0: "0 < x" using x(2) by simp
  define n where "n = ilog 10 x + 1"
  obtain k s where ks: "shortest x = (k, s)" by fastforce
  note c = shortest_correct [OF x(1) lo n_def ks]
  have b: "10 powi (n - 1) \<le> x" "x < 10 powi n"
    using ilog_bounds [of 10 x] x0 by (simp_all add: n_def)
  have "(10::rat) powi (n - 1) < 10 powi 20" using b(1) x(3) by simp
  then have n20: "n \<le> 20" by (metis linorder_not_le one_le_numeral power_int_increasing zle_diff1_eq)
  have "(10::rat) powi (- 6) < 10 powi n" using b(2) x(2) by (simp add: power_int_minus)
  then have n6: "- 6 < n" by (metis linorder_not_le one_le_numeral power_int_increasing)
  have fx: "num (of_int s * 10 powi (n - int k)) = Fin x"
  proof -
    have "fl (of_int s * 10 powi (n - int k)) = x" using c(1) by (simp add: dec_at_def)
    moreover have "x < 2 powi 1024"
    proof -
      have "(10::rat) ^ 20 \<le> 2 powi 100" by simp
      also have "(2::rat) powi 100 \<le> 2 powi 1024" by (rule power_int_increasing) auto
      finally show ?thesis using x(3) by simp
    qed
    ultimately show ?thesis using ilog2_le [of x 1024] x0 by (simp add: num_def)
  qed
  show ?thesis
  proof (cases "s = 10 ^ k")
    case True
    have "pos_string x = layout ''1'' (n + 1)"
      using True by (simp add: pos_string_def ks Let_def flip: n_def)
    moreover have "digits_val ''1'' = 1" by (simp add: digits_val_def digit_val_def)
    moreover have "(10::rat) ^ k * 10 powi (n - int k) = 10 powi n"
      by (simp flip: power_int_of_nat power_int_add)
    ultimately show ?thesis
      using parseFloat_layout [of "''1''" "n + 1"] n6 n20 fx True by (simp add: is_digit_def)
  next
    case False
    then have l: "length (digits s) = k" using c by (intro length_digits) auto
    have s0: "0 \<le> s" using c(3) zero_le_power [of "10::int" "k - 1"] by linarith
    have "pos_string x = layout (digits s) n"
      using False by (simp add: pos_string_def ks Let_def flip: n_def)
    then show ?thesis
      using parseFloat_layout [OF digits_are_digits [OF s0] _ n6] n20 fx s0 by (simp add: l)
  qed
qed

section \<open>Integers\<close>

lemma shortest_from_least:
  "shortest_from x n ks = Some (k, s) \<Longrightarrow> sorted ks \<Longrightarrow> k0 \<in> set ks \<Longrightarrow>
     dec_at x n k0 (near_digits x n k0) \<Longrightarrow> k \<le> k0"
  by (induction ks) (auto split: if_splits)

lemma digits_mult_10: "0 < s \<Longrightarrow> digits (s * 10 ^ j) = digits s @ replicate j CHR ''0''"
proof (induction j)
  case (Suc j)
  have "0 < s * 10 ^ j" using Suc.prems by simp
  then have "digits (s * 10 ^ j * 10) = digits (s * 10 ^ j) @ [digit 0]"
    by (subst digits.simps) simp
  moreover have "s * 10 ^ Suc j = s * 10 ^ j * 10" by simp
  moreover have "digit 0 = CHR ''0''" by (simp add: digit_def)
  ultimately have "digits (s * 10 ^ Suc j) = (digits s @ replicate j CHR ''0'') @ [CHR ''0'']"
    using Suc by (simp only:)
  then show ?case by (simp only: append_assoc replicate_append_same replicate_Suc)
qed simp

lemma digits_ilog:
  assumes "0 < n"
  shows "int (length (digits n)) = ilog 10 (of_int n) + 1"
proof -
  define k where "k = nat (ilog 10 (of_int n) + 1)"
  have b: "10 powi ilog 10 (of_int n) \<le> (of_int n :: rat)" "of_int n < (10 powi (ilog 10 (of_int n) + 1) :: rat)"
    using ilog_bounds [of 10 "of_int n"] assms by simp_all
  have "0 \<le> ilog 10 (of_int n)"
  proof (rule ccontr)
    assume "\<not> 0 \<le> ilog 10 (of_int n)"
    then have "(10::rat) powi (ilog 10 (of_int n) + 1) \<le> 10 powi 0" by (intro power_int_increasing) auto
    moreover have "1 \<le> (of_int n :: rat)" using assms by simp
    ultimately show False using b by simp
  qed
  then have k: "ilog 10 (of_int n) = int k - 1" "1 \<le> k" by (simp_all add: k_def)
  have "(of_int (10 ^ (k - 1)) :: rat) = 10 powi (int k - 1)" "(of_int (10 ^ k) :: rat) = 10 powi int k"
    using k(2) by (simp_all add: power_int_def nat_diff_distrib)
  then have "of_int (10 ^ (k - 1)) \<le> (of_int n :: rat)" "(of_int n :: rat) < of_int (10 ^ k)"
    using b k(1) by simp_all
  then have "10 ^ (k - 1) \<le> n" "n < 10 ^ k" by (simp_all only: of_int_le_iff of_int_less_iff)
  then show ?thesis using length_digits [of k n] k by simp
qed

lemma length_digits_le:
  assumes "0 \<le> n" "n < 10 ^ k" "1 \<le> k"
  shows "length (digits n) \<le> k"
  using assms
proof (induction n arbitrary: k rule: digits.induct)
  case (1 n)
  show ?case
  proof (cases "n < 10")
    case False
    have "k \<noteq> 1" using "1.prems" False by auto
    then obtain j where j: "k = Suc j" "1 \<le> j" using "1.prems" by (cases k) auto
    have "length (digits (n div 10)) \<le> j" using "1.IH" [OF False, of j] "1.prems" j by auto
    with False j show ?thesis by (subst digits.simps) simp
  qed (use 1 in \<open>subst digits.simps, simp\<close>)
qed

lemma pos_string_int:
  assumes n: "0 < n" "n < 10 ^ 15"
  shows "pos_string (of_int n) = digits n"
proof -
  let ?x = "of_int n :: rat"
  define L where "L = length (digits n)"
  have L: "int L = ilog 10 ?x + 1" unfolding L_def by (rule digits_ilog [OF n(1)])
  have L1: "1 \<le> L" "L \<le> 15" using length_digits_le [of n 15] n by (simp_all add: L_def Suc_le_eq)
  have flx: "fl ?x = ?x" using n by (intro fl_of_int) simp
  have lo: "2 powi (- 20) \<le> ?x"
  proof -
    have "(2::rat) powi (- 20) \<le> 1" by (simp add: power_int_minus)
    also have "1 \<le> ?x" using n by simp
    finally show ?thesis .
  qed
  obtain k s where ks: "shortest ?x = (k, s)" by fastforce
  note c = shortest_correct [OF flx lo L ks]
  have "dec_at ?x (int L) L (near_digits ?x (int L) L)"
    using flx by (simp add: dec_at_def near_digits_def)
  then have kL: "k \<le> L"
    using shortest_from_least [of ?x "int L" "[1..<18]" k s L] shortest_search [OF flx lo L ks] L1
    by simp
  have "(of_int s * 10 powi (int L - int k) :: rat) = of_int (s * 10 ^ (L - k))"
    using kL by (simp add: power_int_def nat_diff_distrib flip: of_nat_diff)
  moreover have "s * 10 ^ (L - k) \<le> 10 ^ 15"
  proof -
    have "s * 10 ^ (L - k) \<le> 10 ^ k * 10 ^ (L - k)" using c(4) by (intro mult_right_mono) auto
    also have "\<dots> = 10 ^ L" using kL by (simp flip: power_add)
    also have "\<dots> \<le> (10::int) ^ 15" using L1 by (intro power_increasing) auto
    finally show ?thesis .
  qed
  moreover have s0: "0 < s" using c(3) zero_less_power [of "10::int" "k - 1"] by linarith
  ultimately have "of_int (s * 10 ^ (L - k)) = ?x"
    using c(1) fl_of_int [of "s * 10 ^ (L - k)"] by (simp add: dec_at_def del: of_int_mult)
  then have sn: "n = s * 10 ^ (L - k)" by (simp only: of_int_eq_iff)
  have "s \<noteq> 10 ^ k"
  proof
    assume "s = 10 ^ k"
    then have "n = 10 ^ L" using sn kL by (simp flip: power_add)
    then have "length (digits n) = Suc L" using length_digits [of "Suc L" n] by simp
    then show False by (simp add: L_def)
  qed
  moreover have "length (digits s) = k" using c calculation by (intro length_digits) auto
  ultimately have "pos_string ?x = layout (digits s) (int L)"
    by (simp add: pos_string_def ks Let_def flip: L)
  also have "\<dots> = digits s @ replicate (L - k) CHR ''0''"
    using \<open>length (digits s) = k\<close> kL L1 by (simp add: layout_def nat_diff_distrib flip: of_nat_diff)
  also have "\<dots> = digits n" unfolding sn using s0 by (simp add: digits_mult_10)
  finally show ?thesis .
qed

lemma js_String_int [number_simps]:
  assumes "\<bar>n\<bar> < 10 ^ 15"
  shows "js_String (Fin (of_int n)) = int_string n"
proof -
  have z: "digits 0 = ''0''" by code_simp
  have "pos_string (- of_int n) = digits (- n)" if "n < 0"
    using pos_string_int [of "- n"] that assms by simp
  moreover have "pos_string (of_int n) = digits n" if "0 < n"
    using pos_string_int [of n] that assms by simp
  ultimately show ?thesis by (cases "n = 0") (auto simp: int_string_def z)
qed

lemma parseInt10_digits:
  assumes "0 \<le> n" "n \<le> 2 ^ 53"
  shows "parseInt10 (digits n) = Fin (of_int n)"
proof -
  obtain c r where cr: "digits n = c # r" using digits_nonempty [of n] by (cases "digits n") auto
  then have c: "is_digit c" using digits_are_digits [OF assms(1)] by simp
  have "fst (span_digits (digits n)) = digits n"
    using span_digits_append [of "digits n" "[]"] digits_are_digits [OF assms(1)] by simp
  then show ?thesis
    using parseFloat_digits_head [OF c cr] assms
    by (simp add: parseInt10_def signed_num_def num_of_int)
qed

end
