(* ===== verification/JsText.thy ===== *)
theory JsText
  imports JsNumText
begin

text \<open>
  Text of the dashboard: strings are the bytes of their UTF-8 encoding, so that
  \<open>encodeURIComponent\<close> and the query-string functions, which work on those bytes, are exact.
  Case conversion and trimming act on ASCII characters, which is what usernames, protocol
  names and dates consist of. The last section holds JSON values and \<open>JSON.stringify\<close>.
\<close>

section \<open>Basic operations\<close>

definition startsWith :: "string \<Rightarrow> string \<Rightarrow> bool" where
  "startsWith s p = (take (length p) s = p)"

definition trim :: "string \<Rightarrow> string" where
  "trim s = rev (dropWhile is_space (rev (dropWhile is_space s)))"

definition upper :: "char \<Rightarrow> char" where
  "upper c = (let n = (of_char c :: int) in if 97 \<le> n \<and> n \<le> 122 then char_of (n - 32) else c)"

definition toUpperCase :: "string \<Rightarrow> string" where
  "toUpperCase = List.map upper"

fun str_lt :: "string \<Rightarrow> string \<Rightarrow> bool" where
  \<comment> \<open>the order of the operator \<open><\<close> on strings\<close>
  "str_lt _ [] = False"
| "str_lt [] (_ # _) = True"
| "str_lt (a # as) (b # bs) = ((of_char a :: int) < of_char b \<or> a = b \<and> str_lt as bs)"

fun join :: "string \<Rightarrow> string list \<Rightarrow> string" where
  "join sep [] = []"
| "join sep [x] = x"
| "join sep (x # y # ys) = x @ sep @ join sep (y # ys)"

lemma of_char_int_inj [simp]: "(of_char a :: int) = of_char b \<longleftrightarrow> a = b"
  by (metis char_of_char)

lemma str_lt_irrefl [simp]: "\<not> str_lt s s"
  by (induction s) auto

lemma str_lt_trans: "str_lt r s \<Longrightarrow> str_lt s t \<Longrightarrow> str_lt r t"
proof (induction r s arbitrary: t rule: str_lt.induct)
  case (2 b bs)
  then show ?case by (cases t) auto
next
  case (3 a as b bs)
  then show ?case by (cases t) auto
qed auto

lemma str_lt_linear: "s \<noteq> t \<Longrightarrow> str_lt s t \<or> str_lt t s"
proof (induction s t rule: str_lt.induct)
  case (1 s)
  then show ?case by (cases s) auto
next
  case (3 a as b bs)
  then show ?case by (metis linorder_neqE of_char_int_inj str_lt.simps(3))
qed auto

lemma dropWhile_trim_id: "(\<And>c. c \<in> set s \<Longrightarrow> \<not> is_space c) \<Longrightarrow> trim s = s"
  by (simp add: trim_def dropWhile_eq_self_iff last_rev) (metis dropWhile_eq_self_iff hd_in_set rev_rev_ident set_rev)

section \<open>Percent encoding\<close>

definition hex_digit :: "int \<Rightarrow> char" where
  "hex_digit d = ''0123456789ABCDEF'' ! nat d"

fun hex_value :: "char \<Rightarrow> int option" where
  "hex_value c =
     (let n = (of_char c :: int) in
      if 48 \<le> n \<and> n \<le> 57 then Some (n - 48)
      else if 65 \<le> n \<and> n \<le> 70 then Some (n - 55)
      else if 97 \<le> n \<and> n \<le> 102 then Some (n - 87)
      else None)"

definition percent :: "char \<Rightarrow> string" where
  "percent c = (let n = (of_char c :: int) in [CHR ''%'', hex_digit (n div 16), hex_digit (n mod 16)])"

definition alnum :: "char \<Rightarrow> bool" where
  "alnum c =
     (let n = (of_char c :: int)
      in 48 \<le> n \<and> n \<le> 57 \<or> 65 \<le> n \<and> n \<le> 90 \<or> 97 \<le> n \<and> n \<le> 122)"

definition component_char :: "char \<Rightarrow> string" where
  "component_char c =
     (if alnum c \<or> c \<in> set ''-_.!~*()'' \<or> c = CHR 0x27 then [c] else percent c)"

definition encodeURIComponent :: "string \<Rightarrow> string" where
  "encodeURIComponent s = concat (List.map component_char s)"

definition form_char :: "char \<Rightarrow> string" where
  "form_char c =
     (if alnum c \<or> c \<in> set ''*-._'' then [c] else if c = CHR '' '' then ''+'' else percent c)"

definition form_encode :: "string \<Rightarrow> string" where
  \<comment> \<open>the serializer of \<open>URLSearchParams\<close>\<close>
  "form_encode s = concat (List.map form_char s)"

fun form_decode :: "string \<Rightarrow> string" where
  \<comment> \<open>the parser of \<open>URLSearchParams\<close>: a percent sign without two hex digits stands for itself\<close>
  "form_decode [] = []"
| "form_decode (c # s) =
     (if c = CHR ''+'' then CHR '' '' # form_decode s
      else if c = CHR ''%'' then
        (case s of
           a # b # r \<Rightarrow>
             (case (hex_value a, hex_value b) of
                (Some x, Some y) \<Rightarrow> char_of (16 * x + y) # form_decode r
              | _ \<Rightarrow> c # form_decode s)
         | _ \<Rightarrow> c # form_decode s)
      else c # form_decode s)"

lemma hex_value_digit:
  assumes "0 \<le> d" "d < 16"
  shows "hex_value (hex_digit d) = Some d" "alnum (hex_digit d)"
proof -
  have "d = 0 \<or> d = 1 \<or> d = 2 \<or> d = 3 \<or> d = 4 \<or> d = 5 \<or> d = 6 \<or> d = 7 \<or> d = 8 \<or> d = 9
      \<or> d = 10 \<or> d = 11 \<or> d = 12 \<or> d = 13 \<or> d = 14 \<or> d = 15"
    using assms by arith
  then show "hex_value (hex_digit d) = Some d" "alnum (hex_digit d)"
    by (auto simp: hex_digit_def alnum_def)
qed

lemma of_char_bounds: "0 \<le> (of_char c :: int)" "(of_char c :: int) < 256"
proof -
  have "(of_char c :: int) mod 256 = of_char c" by (rule of_char_mod_256)
  then show "0 \<le> (of_char c :: int)" "(of_char c :: int) < 256"
    using pos_mod_sign [of 256 "of_char c :: int"] pos_mod_bound [of 256 "of_char c :: int"] by auto
qed

lemma form_decode_percent [simp]: "form_decode (percent c @ s) = c # form_decode s"
proof -
  let ?n = "of_char c :: int"
  have "0 \<le> ?n div 16" "?n div 16 < 16" "0 \<le> ?n mod 16" "?n mod 16 < 16"
    using of_char_bounds [of c] by auto
  then show ?thesis
    by (simp add: percent_def Let_def hex_value_digit del: hex_value.simps)
qed

lemma alnum_plain: "alnum c \<Longrightarrow> c \<noteq> CHR ''+'' \<and> c \<noteq> CHR ''%'' \<and> c \<noteq> CHR ''&'' \<and> c \<noteq> CHR ''='' \<and> c \<noteq> CHR ''?''"
  by (auto simp: alnum_def)

lemma form_decode_plain:
  "c \<noteq> CHR ''+'' \<Longrightarrow> c \<noteq> CHR ''%'' \<Longrightarrow> form_decode ([c] @ s) = c # form_decode s"
  by simp

lemma form_decode_plus: "form_decode (''+'' @ s) = CHR '' '' # form_decode s"
  by simp

declare form_decode.simps(2) [simp del]

lemma form_decode_component_char: "form_decode (component_char c @ s) = c # form_decode s"
  using alnum_plain [of c] unfolding component_char_def
  by (auto intro!: form_decode_plain [simplified append_Cons append_Nil])

lemma form_decode_form_char: "form_decode (form_char c @ s) = c # form_decode s"
  using alnum_plain [of c] form_decode_plus [of s] unfolding form_char_def
  by (auto intro!: form_decode_plain [simplified append_Cons append_Nil])

lemma form_decode_encodeURIComponent: "form_decode (encodeURIComponent s) = s"
  by (induction s) (simp_all add: encodeURIComponent_def form_decode_component_char)

lemma form_decode_form_encode: "form_decode (form_encode s) = s"
  by (induction s) (simp_all add: form_encode_def form_decode_form_char)

lemma percent_chars: "x \<in> set (percent c) \<Longrightarrow> x = CHR ''%'' \<or> alnum x"
  using of_char_bounds [of c] by (auto simp: percent_def Let_def hex_value_digit)

lemma encodeURIComponent_chars:
  "x \<in> set (encodeURIComponent s) \<Longrightarrow> x \<noteq> CHR ''&'' \<and> x \<noteq> CHR ''='' \<and> x \<noteq> CHR ''?''"
  by (auto simp: encodeURIComponent_def component_char_def split: if_splits dest!: percent_chars dest: alnum_plain)

lemma form_encode_chars: "x \<in> set (form_encode s) \<Longrightarrow> x \<noteq> CHR ''&'' \<and> x \<noteq> CHR ''='' \<and> x \<noteq> CHR ''?''"
  by (auto simp: form_encode_def form_char_def split: if_splits dest!: percent_chars dest: alnum_plain)

section \<open>Query strings\<close>

fun split_on :: "char \<Rightarrow> string \<Rightarrow> string list" where
  "split_on c [] = [[]]"
| "split_on c (x # xs) =
     (if x = c then [] # split_on c xs
      else case split_on c xs of [] \<Rightarrow> [[x]] | p # ps \<Rightarrow> (x # p) # ps)"

definition parse_pair :: "string \<Rightarrow> string \<times> string" where
  "parse_pair s =
     (form_decode (takeWhile (\<lambda>c. c \<noteq> CHR ''='') s),
      form_decode (drop 1 (dropWhile (\<lambda>c. c \<noteq> CHR ''='') s)))"

definition searchParams :: "string \<Rightarrow> (string \<times> string) list" where
  \<comment> \<open>\<open>new URLSearchParams(text)\<close>\<close>
  "searchParams s =
     (let t = (if startsWith s ''?'' then drop 1 s else s)
      in List.map parse_pair (filter (\<lambda>p. p \<noteq> []) (split_on CHR ''&'' t)))"

definition params_get :: "(string \<times> string) list \<Rightarrow> string \<Rightarrow> string option" where
  "params_get ps n = map_of ps n"

fun params_set :: "(string \<times> string) list \<Rightarrow> string \<Rightarrow> string \<Rightarrow> (string \<times> string) list" where
  "params_set [] n v = [(n, v)]"
| "params_set ((m, w) # ps) n v =
     (if m = n then (n, v) # filter (\<lambda>(k, _). k \<noteq> n) ps else (m, w) # params_set ps n v)"

definition params_string :: "(string \<times> string) list \<Rightarrow> string" where
  "params_string ps =
     join ''&'' (List.map (\<lambda>(n, v). form_encode n @ ''='' @ form_encode v) ps)"

lemma split_on_free:
  "c \<notin> set s \<Longrightarrow> split_on c s = [s]"
  by (induction s) auto

lemma split_on_sep:
  "c \<notin> set s \<Longrightarrow> split_on c (s @ [c] @ t) = s # split_on c t"
  by (induction s) auto

lemma split_on_join:
  assumes "\<forall>s \<in> set ss. c \<notin> set s" and "ss \<noteq> []"
  shows "split_on c (join [c] ss) = ss"
  using assms
proof (induction "[c]" ss rule: join.induct)
  case (3 x y ys)
  then show ?case using split_on_sep [of c x] by simp
qed (simp_all add: split_on_free)

lemma parse_pair_eq:
  assumes "CHR ''='' \<notin> set n"
  shows "parse_pair (n @ ''='' @ v) = (form_decode n, form_decode v)"
proof -
  have "takeWhile (\<lambda>c. c \<noteq> CHR ''='') (n @ ''='' @ v) = n"
    using assms by (intro takeWhile_append_stop) auto
  moreover have "dropWhile (\<lambda>c. c \<noteq> CHR ''='') (n @ ''='' @ v) = ''='' @ v"
    using assms by (intro dropWhile_append_stop) auto
  ultimately show ?thesis by (simp add: parse_pair_def)
qed

text \<open>
  An encoding of query components: decoding inverts it and its output is free of the
  characters that structure a query string. Any such encoding round-trips whole queries.
\<close>

locale query_codec =
  fixes enc :: "string \<Rightarrow> string"
  assumes dec: "form_decode (enc s) = s"
    and free: "x \<in> set (enc s) \<Longrightarrow> x \<noteq> CHR ''&'' \<and> x \<noteq> CHR ''='' \<and> x \<noteq> CHR ''?''"
begin

lemma pair_roundtrip: "parse_pair (enc n @ ''='' @ enc v) = (n, v)"
  using free by (subst parse_pair_eq) (auto simp: dec)

lemma query_roundtrip:
  "searchParams (join ''&'' (List.map (\<lambda>(n, v). enc n @ ''='' @ enc v) ps)) = ps"
proof (cases "ps = []")
  case False
  let ?ss = "List.map (\<lambda>(n, v). enc n @ ''='' @ enc v) ps"
  have s: "split_on CHR ''&'' (join ''&'' ?ss) = ?ss"
    using free False by (intro split_on_join) force+
  have "filter (\<lambda>p. p \<noteq> []) ?ss = ?ss" by (auto simp: filter_id_conv)
  moreover have "List.map parse_pair ?ss = ps" by (induction ps) (auto simp: pair_roundtrip [simplified])
  moreover have "\<not> startsWith (join ''&'' ?ss) ''?''"
  proof
    assume *: "startsWith (join ''&'' ?ss) ''?''"
    obtain n v r where ps: "ps = (n, v) # r" using False by (cases ps) auto
    obtain t where "join ''&'' ?ss = (enc n @ ''='') @ t" unfolding ps by (cases r) auto
    then have "CHR ''?'' \<in> set (enc n @ ''='')"
      using * by (cases "enc n") (auto simp: startsWith_def)
    then show False using free by auto
  qed
  ultimately show ?thesis by (simp only: searchParams_def Let_def s if_False)
qed (simp add: searchParams_def startsWith_def)

lemma single_param:
  "params_get (searchParams (''?'' @ n @ ''='' @ enc v)) n = Some v"
  if "form_decode n = n" "CHR ''='' \<notin> set n" "CHR ''&'' \<notin> set n"
proof -
  have "split_on CHR ''&'' (n @ ''='' @ enc v) = [n @ ''='' @ enc v]"
    using free that by (intro split_on_free) auto
  then show ?thesis
    using that by (simp add: searchParams_def startsWith_def params_get_def dec
        parse_pair_eq [simplified])
qed

end

interpretation component: query_codec encodeURIComponent
  by unfold_locales (auto simp: form_decode_encodeURIComponent dest: encodeURIComponent_chars)

interpretation form: query_codec form_encode
  by unfold_locales (auto simp: form_decode_form_encode dest: form_encode_chars)

lemma searchParams_params_string: "searchParams (params_string ps) = ps"
  unfolding params_string_def by (rule form.query_roundtrip)

section \<open>JSON\<close>

text \<open>
  The values the dashboard sends; \<open>JUndef\<close> is \<open>undefined\<close>, which \<open>JSON.stringify\<close> leaves
  out of objects. A number that is not finite is written \<open>null\<close>.
\<close>

datatype jsval =
    JUndef
  | JNull
  | JBool bool
  | JNum jsnum
  | JStr string
  | JArr "jsval list"
  | JObj "(string \<times> jsval) list"

definition escape_char :: "char \<Rightarrow> string" where
  "escape_char c =
     (let n = (of_char c :: int) in
      if c = CHR 0x22 then [CHR 0x5C, CHR 0x22]
      else if c = CHR 0x5C then [CHR 0x5C, CHR 0x5C]
      else if n = 8 then [CHR 0x5C] @ ''b''
      else if n = 12 then [CHR 0x5C] @ ''f''
      else if n = 10 then [CHR 0x5C] @ ''n''
      else if n = 13 then [CHR 0x5C] @ ''r''
      else if n = 9 then [CHR 0x5C] @ ''t''
      else if n < 32 then [CHR 0x5C] @ ''u00'' @ [''0123456789abcdef'' ! nat (n div 16), ''0123456789abcdef'' ! nat (n mod 16)]
      else [c])"

definition quote :: "string \<Rightarrow> string" where
  "quote s = [CHR 0x22] @ concat (List.map escape_char s) @ [CHR 0x22]"

fun stringify :: "jsval \<Rightarrow> string" where
  "stringify JUndef = ''null''"
| "stringify JNull = ''null''"
| "stringify (JBool b) = (if b then ''true'' else ''false'')"
| "stringify (JNum n) = (if js_isFinite n then js_String n else ''null'')"
| "stringify (JStr s) = quote s"
| "stringify (JArr vs) = ''['' @ join '','' (List.map stringify vs) @ '']''"
| "stringify (JObj ms) =
     ''{'' @ join '','' (List.map (\<lambda>(k, v). quote k @ '':'' @ stringify v)
                        (filter (\<lambda>(_, v). v \<noteq> JUndef) ms)) @ ''}''"

fun json_member :: "jsval \<Rightarrow> string \<Rightarrow> jsval" where
  \<comment> \<open>the member of an object as it is read back after transmission\<close>
  "json_member (JObj ms) k = (case map_of (rev ms) k of None \<Rightarrow> JUndef | Some v \<Rightarrow> v)"
| "json_member _ k = JUndef"

end
