(* ===== verification/Client.thy ===== *)
theory Client
  imports JsText
begin

text \<open>
  The API client, \<open>web/src/api/client.ts\<close>: the CSRF token it holds in memory, the request it
  builds for \<open>fetch\<close>, what it makes of the response, and the shapes of the data the server
  answers with. A call of \<open>request\<close> is split where it awaits: \<open>prepare_request\<close> is the part
  before \<open>fetch\<close>, \<open>settle_request\<close> the part after it. What \<open>fetch\<close> delivers is an input of
  the model.
\<close>

section \<open>Errors and the token\<close>

record api_error =
  err_status :: nat
  err_code :: string
  err_message :: string
  err_request_id :: string

text \<open>What a promise of the dashboard is rejected with: an \<open>ApiError\<close>, or another \<open>Error\<close>.\<close>

datatype failure = ApiFailure api_error | OtherError string

fun failure_message :: "failure \<Rightarrow> string" where
  "failure_message (ApiFailure e) = err_message e"
| "failure_message (OtherError m) = m"

definition api_failure :: "nat \<Rightarrow> string \<Rightarrow> string \<Rightarrow> string \<Rightarrow> failure" where
  "api_failure st code msg rid =
     ApiFailure \<lparr>err_status = st, err_code = code, err_message = msg, err_request_id = rid\<rparr>"

type_synonym csrf = "string option" \<comment> \<open>\<open>csrfToken\<close>, \<open>null\<close> until a login or session response\<close>

definition setCsrfToken :: "string \<Rightarrow> csrf" where
  "setCsrfToken token = Some token"

definition clearCsrfToken :: csrf where
  "clearCsrfToken = None"

section \<open>The request\<close>

record http_request =
  rq_method :: string
  rq_path :: string
  rq_headers :: "(string \<times> string) list"
  rq_credentials :: string
  rq_body :: "string option"

definition prepare_request :: "csrf \<Rightarrow> string \<Rightarrow> string \<Rightarrow> jsval option \<Rightarrow> http_request" where
  "prepare_request csrfToken meth path body =
     \<lparr>rq_method = meth, rq_path = path,
      rq_headers =
        (case body of None \<Rightarrow> [] | Some _ \<Rightarrow> [(''Content-Type'', ''application/json'')])
        @ (if meth \<noteq> ''GET'' \<and> meth \<noteq> ''HEAD'' \<and> csrfToken \<noteq> None \<and> csrfToken \<noteq> Some []
           then [(''X-CSRF-Token'', the csrfToken)] else []),
      rq_credentials = ''same-origin'',
      rq_body = map_option stringify body\<rparr>"

section \<open>The response\<close>

text \<open>
  A JSON document is read in two ways: as the value of the type the caller asks for (a cast
  in the source), and, on an error status, through the optional chain \<open>env?.error?.\<dots>\<close>.
\<close>

record 'a json_doc =
  doc_value :: 'a
  doc_code :: "string option"
  doc_message :: "string option"
  doc_request_id :: "string option"

datatype 'a body_text =
    Broken string \<comment> \<open>reading the body fails with this message\<close>
  | EmptyText
  | NotJson
  | Json "'a json_doc"

record 'a response =
  resp_status :: nat
  resp_body :: "'a body_text"
  resp_header_id :: "string option" \<comment> \<open>the header \<open>X-Request-ID\<close>\<close>

datatype 'a fetched = FetchFailed | Responded "'a response"

record location =
  loc_pathname :: string
  loc_search :: string

definition resp_ok :: "'a response \<Rightarrow> bool" where
  "resp_ok r = (200 \<le> resp_status r \<and> resp_status r \<le> 299)"

definition login_redirect :: "location \<Rightarrow> string option" where
  \<comment> \<open>the target of \<open>location.assign\<close>, if any\<close>
  "login_redirect loc =
     (if startsWith (loc_pathname loc) ''/login'' then None
      else Some (''/login?next='' @ encodeURIComponent (loc_pathname loc @ loc_search loc)))"

text \<open>A settled request: the token afterwards, the page it sends the browser to, the result.\<close>

record 'a settled =
  st_csrf :: csrf
  st_assign :: "string option"
  st_result :: "failure + 'a option" \<comment> \<open>\<open>None\<close> is \<open>undefined\<close> or \<open>null\<close>\<close>

definition error_result :: "'a response \<Rightarrow> 'a json_doc option \<Rightarrow> failure" where
  "error_result r doc =
     api_failure (resp_status r)
       (coalesce (Option.bind doc doc_code) ''UNKNOWN'')
       (coalesce (Option.bind doc doc_message)
          (''request failed ('' @ int_string (int (resp_status r)) @ '')''))
       (coalesce (Option.bind doc doc_request_id) (coalesce (resp_header_id r) []))"

definition read_payload :: "'a body_text \<Rightarrow> string + 'a json_doc option" where
  "read_payload b =
     (case b of Broken m \<Rightarrow> Inl m | EmptyText \<Rightarrow> Inr None | NotJson \<Rightarrow> Inr None
      | Json d \<Rightarrow> Inr (Some d))"

definition settle_request :: "csrf \<Rightarrow> location \<Rightarrow> 'a fetched \<Rightarrow> 'a settled" where
  "settle_request csrfToken loc f =
     (case f of
        FetchFailed \<Rightarrow>
          \<lparr>st_csrf = csrfToken, st_assign = None,
           st_result = Inl (api_failure 0 ''NETWORK'' ''network error'' [])\<rparr>
      | Responded resp \<Rightarrow>
          if resp_status resp = 401 then
            \<lparr>st_csrf = None, st_assign = login_redirect loc,
             st_result = Inl (api_failure 401 ''UNAUTHORIZED'' ''session expired'' [])\<rparr>
          else if resp_status resp = 204 then
            \<lparr>st_csrf = csrfToken, st_assign = None, st_result = Inr None\<rparr>
          else
            \<lparr>st_csrf = csrfToken, st_assign = None,
             st_result =
               (case read_payload (resp_body resp) of
                  Inl m \<Rightarrow> Inl (OtherError m)
                | Inr payload \<Rightarrow>
                    if \<not> resp_ok resp then Inl (error_result resp payload)
                    else Inr (map_option doc_value payload))\<rparr>)"

section \<open>The methods of \<open>api\<close>\<close>

record call =
  c_method :: string
  c_path :: string
  c_body :: "jsval option"

definition api_get :: "string \<Rightarrow> call" where
  "api_get path = \<lparr>c_method = ''GET'', c_path = path, c_body = None\<rparr>"

definition api_post :: "string \<Rightarrow> jsval option \<Rightarrow> call" where
  "api_post path body =
     \<lparr>c_method = ''POST'', c_path = path, c_body = Some (coalesce body (JObj []))\<rparr>"

definition api_patch :: "string \<Rightarrow> jsval \<Rightarrow> call" where
  "api_patch path body = \<lparr>c_method = ''PATCH'', c_path = path, c_body = Some body\<rparr>"

definition api_del :: "string \<Rightarrow> jsval option \<Rightarrow> call" where
  "api_del path body = \<lparr>c_method = ''DELETE'', c_path = path, c_body = body\<rparr>"

definition send_call :: "csrf \<Rightarrow> call \<Rightarrow> http_request" where
  "send_call csrfToken c = prepare_request csrfToken (c_method c) (c_path c) (c_body c)"

lemmas api_defs = api_get_def api_post_def api_patch_def api_del_def

section \<open>Data shapes\<close>

text \<open>
  Integers of the Go server are integers here; they become JavaScript numbers through
  \<open>jint\<close>, the number \<open>JSON.parse\<close> makes of the literal. Times are ISO 8601 strings.
\<close>

datatype user_status = Active | Disabled | Expired

record proxy_user =
  u_id :: int
  u_username :: string
  u_status :: user_status
  u_allowed_protocols :: "string list"
  u_download_limit_bps :: int
  u_upload_limit_bps :: int
  u_max_connections :: int
  u_quota_bytes_daily :: int
  u_quota_bytes_monthly :: int
  u_expires_at :: "string option"
  u_version :: int
  u_created_at :: string
  u_updated_at :: string
  u_last_seen_at :: "string option"

record new_credential = proxy_user +
  n_password :: string

record usage_period =
  up_period_start :: string
  up_granularity :: string
  up_bytes_in :: int
  up_bytes_out :: int
  up_connections :: int

record destination_stat =
  ds_username :: string
  ds_host :: string
  ds_port :: int
  ds_protocol :: string
  ds_requests :: int
  ds_blocked :: int
  ds_bytes_in :: int
  ds_bytes_out :: int
  ds_last_seen :: string

record live_connection =
  lc_time :: string
  lc_username :: string
  lc_protocol :: string
  lc_host :: string
  lc_port :: int
  lc_client_ip :: string
  lc_blocked :: bool
  lc_bytes_in :: int
  lc_bytes_out :: int

record audit_entry =
  ae_id :: int
  ae_timestamp :: string
  ae_actor :: string
  ae_action :: string
  ae_target :: string
  ae_request_id :: string
  ae_source_ip :: string
  ae_result :: string
  ae_detail :: string

record config_version =
  cv_revision :: int
  cv_generated_at :: string
  cv_generated_by :: string
  cv_reason :: string
  cv_validation_status :: string
  cv_deployment_status :: string
  cv_checksum :: string

record live_snapshot =
  ls_day :: string
  ls_bytes_in :: int
  ls_bytes_out :: int
  ls_requests :: int
  ls_blocked :: int
  ls_ingested :: int
  ls_overflowed :: int
  ls_dropped :: int
  ls_log_offset :: int
  ls_malformed_lines :: int
  ls_ring_enabled :: bool

text \<open>Members that may be absent are options; fractions are the numbers of the literal.\<close>

record stream_tick =
  tk_analytics :: live_snapshot
  tk_cpu_percent :: "jsnum option"
  tk_ram_used :: "int option"
  tk_ram_total :: "int option"

record system_status =
  ss_hostname :: string
  ss_os :: string
  ss_platform :: string
  ss_kernel :: string
  ss_arch :: string
  ss_uptime_seconds :: int
  ss_public_ip :: string
  ss_engine_running :: bool
  ss_last_deploy :: "config_version option"
  ss_port_http :: int
  ss_port_socks5 :: int
  ss_tls_enabled :: bool
  ss_version :: string

record system_resources =
  sr_cpu_percent :: jsnum
  sr_cores :: int
  sr_load1 :: jsnum
  sr_load5 :: jsnum
  sr_load15 :: jsnum
  sr_mem_total :: int
  sr_mem_used :: int
  sr_swap_total :: int
  sr_swap_used :: int
  sr_disk_total :: int
  sr_disk_used :: int
  sr_net_rx_bytes :: int
  sr_net_tx_bytes :: int

section \<open>Lemmas\<close>

lemma settle_401:
  "resp_status r = 401 \<Longrightarrow>
     settle_request csrf loc (Responded r) =
       \<lparr>st_csrf = None, st_assign = login_redirect loc,
        st_result = Inl (api_failure 401 ''UNAUTHORIZED'' ''session expired'' [])\<rparr>"
  by (simp add: settle_request_def)

lemma settle_unauthorized_iff:
  "st_result (settle_request csrf loc f)
     = Inl (api_failure 401 ''UNAUTHORIZED'' ''session expired'' [])
   \<longleftrightarrow> (\<exists>r. f = Responded r \<and> resp_status r = 401)"
  by (cases f) (auto simp: settle_request_def error_result_def api_failure_def
      split: sum.splits if_splits)

section \<open>Properties\<close>

text \<open>
  The CSRF token travels exactly with the requests that change state: the header is set
  if and only if the method is neither GET nor HEAD and a non-empty token is held, and its
  value is that token.
\<close>

theorem csrf_header_iff:
  "(''X-CSRF-Token'', t) \<in> set (rq_headers (prepare_request csrf meth path body))
     \<longleftrightarrow> meth \<noteq> ''GET'' \<and> meth \<noteq> ''HEAD'' \<and> csrf = Some t \<and> t \<noteq> []"
  by (auto simp: prepare_request_def split: option.splits)

text \<open>
  A session ends on status 401 and on nothing else: the token is dropped, the browser is
  sent to the login page and the caller gets the error UNAUTHORIZED exactly when the server
  answered 401; every other outcome, a network failure included, keeps the token and the page.
\<close>

theorem session_lost_iff_401:
  "settle_request csrf loc f =
     (if \<exists>r. f = Responded r \<and> resp_status r = 401
      then \<lparr>st_csrf = None, st_assign = login_redirect loc,
            st_result = Inl (api_failure 401 ''UNAUTHORIZED'' ''session expired'' [])\<rparr>
      else \<lparr>st_csrf = csrf, st_assign = None, st_result = st_result (settle_request csrf loc f)\<rparr>)
   \<and> (st_result (settle_request csrf loc f)
        = Inl (api_failure 401 ''UNAUTHORIZED'' ''session expired'' [])
      \<longleftrightarrow> (\<exists>r. f = Responded r \<and> resp_status r = 401))"
  using settle_unauthorized_iff [of csrf loc f] by (cases f) (auto simp: settle_request_def)

text \<open>
  A request succeeds exactly when the server answered with a status from 200 to 299 and,
  unless the status is 204, the body could be read; a body that is not JSON does not fail it.
\<close>

theorem settle_ok_iff:
  "(\<exists>p. st_result (settle_request csrf loc f) = Inr p) \<longleftrightarrow>
     (\<exists>r. f = Responded r \<and> resp_ok r \<and>
       (resp_status r = 204 \<or> (\<exists>d. resp_body r \<in> {EmptyText, NotJson, Json d})))"
  by (cases f) (auto simp: settle_request_def resp_ok_def read_payload_def
      split: body_text.splits if_splits)

end
