(* ===== verification/Dom.thy ===== *)
theory Dom
  imports Client
begin

text \<open>
  What a component renders: a tree of elements, text and fragments. An element carries its
  tag, the attributes the code computes or that a user can perceive, and its handlers; a
  handler names the message it sends to the component. Class names are kept where the code
  chooses between them and left out where they are constant. \<open>click\<close> is event dispatch: the
  messages sent when the element at a path is clicked, the event bubbling to the root until
  a handler stops it.
\<close>

section \<open>Trees\<close>

datatype 'm attr =
    Attr string string
  | Flag string bool
  | OnClick bool "'m option" \<comment> \<open>whether propagation is stopped, and the message if any\<close>
  | OnInput "string \<Rightarrow> 'm" \<comment> \<open>a change event with the new text\<close>
  | OnCheck "bool \<Rightarrow> 'm" \<comment> \<open>a change event of a checkbox\<close>
  | OnSubmit 'm

datatype 'm node =
    Text string
  | Elem string "'m attr list" "'m node list"
  | Frag "'m node list"

abbreviation nothing :: "'m node" where
  "nothing \<equiv> Frag []"

definition show_if :: "bool \<Rightarrow> 'm node \<Rightarrow> 'm node" where
  \<comment> \<open>\<open>{cond && \<dots>}\<close>\<close>
  "show_if c n = (if c then n else nothing)"

definition on_click :: "'m \<Rightarrow> 'm attr" where
  "on_click m = OnClick False (Some m)"

definition cls :: "string \<Rightarrow> 'm attr" where
  "cls s = Attr ''class'' s"

fun text_of :: "'m node \<Rightarrow> string" where
  \<comment> \<open>\<open>textContent\<close>\<close>
  "text_of (Text s) = s"
| "text_of (Elem t as cs) = concat (List.map text_of cs)"
| "text_of (Frag cs) = concat (List.map text_of cs)"

definition own_clicks :: "'m attr list \<Rightarrow> 'm list" where
  "own_clicks as = concat (List.map (\<lambda>a. case a of OnClick _ (Some m) \<Rightarrow> [m] | _ \<Rightarrow> []) as)"

definition stops :: "'m attr list \<Rightarrow> bool" where
  "stops as = list_ex (\<lambda>a. case a of OnClick b _ \<Rightarrow> b | _ \<Rightarrow> False) as"

definition disabled :: "'m attr list \<Rightarrow> bool" where
  "disabled as = list_ex (\<lambda>a. case a of Flag n b \<Rightarrow> n = ''disabled'' \<and> b | _ \<Rightarrow> False) as"

fun clicks :: "'m node \<Rightarrow> 'm list" where
  \<comment> \<open>the messages of all click handlers of the tree, in document order\<close>
  "clicks (Text s) = []"
| "clicks (Elem t as cs) = own_clicks as @ concat (List.map clicks cs)"
| "clicks (Frag cs) = concat (List.map clicks cs)"

fun attr_values :: "string \<Rightarrow> 'm node \<Rightarrow> string list" where
  "attr_values k (Text s) = []"
| "attr_values k (Elem t as cs) =
     concat (List.map (\<lambda>a. case a of Attr n v \<Rightarrow> if n = k then [v] else [] | _ \<Rightarrow> []) as)
     @ concat (List.map (attr_values k) cs)"
| "attr_values k (Frag cs) = concat (List.map (attr_values k) cs)"

section \<open>Effects\<close>

text \<open>What a step asks the browser for.\<close>

datatype effect =
    Send call
  | Navigate string bool \<comment> \<open>client-side navigation, and whether it replaces the entry\<close>
  | Assign string \<comment> \<open>\<open>location.assign\<close>: a full page load\<close>
  | WriteClipboard string
  | StoreItem string string \<comment> \<open>\<open>localStorage.setItem\<close>\<close>
  | DarkClass bool \<comment> \<open>the class \<open>dark\<close> of the document element\<close>

definition sent :: "effect list \<Rightarrow> call list" where
  "sent es = concat (List.map (\<lambda>e. case e of Send c \<Rightarrow> [c] | _ \<Rightarrow> []) es)"

definition assigns :: "string option \<Rightarrow> effect list" where
  "assigns target = (case target of None \<Rightarrow> [] | Some u \<Rightarrow> [Assign u])"

section \<open>Dispatch\<close>

text \<open>
  The result is the messages sent so far and whether propagation has stopped; \<open>None\<close> when the
  path leads nowhere. A disabled button swallows the click.
\<close>

fun click :: "'m node \<Rightarrow> nat list \<Rightarrow> ('m list \<times> bool) option" where
  "click (Text s) [] = Some ([], False)"
| "click (Text s) (i # p) = None"
| "click (Elem t as cs) [] =
     (if disabled as then Some ([], True) else Some (own_clicks as, stops as))"
| "click (Elem t as cs) (i # p) =
     (if i < length cs then
        (case click (cs ! i) p of
           None \<Rightarrow> None
         | Some (ms, stopped) \<Rightarrow>
             if stopped then Some (ms, True)
             else if disabled as then Some ([], True)
             else Some (ms @ own_clicks as, stops as))
      else None)"
| "click (Frag cs) [] = None"
| "click (Frag cs) (i # p) = (if i < length cs then click (cs ! i) p else None)"

definition click_at :: "'m node \<Rightarrow> nat list \<Rightarrow> 'm list option" where
  "click_at n p = map_option fst (click n p)"

lemma text_of_map [simp]: "text_of (map_node f n) = text_of n"
  by (induction n) (simp_all add: o_def cong: map_cong)

lemma own_clicks_map: "own_clicks (List.map (map_attr f) as) = List.map f (own_clicks as)"
  by (induction as) (auto simp: own_clicks_def split: attr.splits option.splits)

lemma stops_map: "stops (List.map (map_attr f) as) = stops as"
proof -
  have "(case map_attr f a of OnClick b x \<Rightarrow> b | _ \<Rightarrow> False) = (case a of OnClick b x \<Rightarrow> b | _ \<Rightarrow> False)" for a
    by (cases a) auto
  then show ?thesis by (simp add: stops_def list_ex_iff)
qed

lemma disabled_map: "disabled (List.map (map_attr f) as) = disabled as"
proof -
  have "(case map_attr f a of Flag n b \<Rightarrow> n = ''disabled'' \<and> b | _ \<Rightarrow> False)
      = (case a of Flag n b \<Rightarrow> n = ''disabled'' \<and> b | _ \<Rightarrow> False)" for a
    by (cases a) auto
  then show ?thesis by (simp add: disabled_def list_ex_iff)
qed

lemma click_map_node:
  "click (map_node f n) p = map_option (map_prod (List.map f) id) (click n p)"
  by (induction n p rule: click.induct)
    (auto simp: own_clicks_map stops_map disabled_map split: option.splits)

lemma click_at_map_node: "click_at (map_node f n) p = map_option (List.map f) (click_at n p)"
  by (simp add: click_at_def click_map_node option.map_comp o_def)

lemma clicks_map: "clicks (map_node f n) = List.map f (clicks n)"
proof (induction n)
  case (Elem t as cs)
  then show ?case by (simp add: own_clicks_map map_concat o_def cong: map_cong)
qed (simp_all add: map_concat o_def cong: map_cong)

lemma click_sends_clicks:
  "click n p = Some (ms, b) \<Longrightarrow> set ms \<subseteq> set (clicks n)"
proof (induction n p arbitrary: ms b rule: click.induct)
  case (4 t as cs i p)
  then show ?case by (fastforce split: if_splits option.splits)
next
  case (6 cs i p)
  then show ?case by (fastforce split: if_splits)
qed (auto split: if_splits)

lemma show_if_simps [view_simps]:
  "show_if True n = n" "show_if False n = nothing"
  by (simp_all add: show_if_def)

end
