(* ===== verification/JsDate.thy ===== *)
theory JsDate
  imports JsText
begin

text \<open>
  Time values and ISO 8601 text, after the date functions of ECMA-262: a time value is a
  number of milliseconds since 1970, and \<open>None\<close> is the invalid date. The formats are the ones
  the dashboard meets: a date, or a date and time with \<open>Z\<close> or a numeric offset, with a
  four-digit year. A date followed by a time and back is the identity on the calendar.
\<close>

section \<open>Calendar\<close>

definition leap :: "int \<Rightarrow> bool" where
  "leap y = (4 dvd y \<and> \<not> 100 dvd y \<or> 400 dvd y)"

definition day_from_year :: "int \<Rightarrow> int" where
  "day_from_year y =
     365 * (y - 1970) + (y - 1969) div 4 - (y - 1901) div 100 + (y - 1601) div 400"

definition year_from_day :: "int \<Rightarrow> int" where
  \<comment> \<open>the year with \<open>day_from_year y \<le> z < day_from_year (y + 1)\<close>, from an estimate off by at most one\<close>
  "year_from_day z =
     (let y = 400 * z div 146097 + 1970
      in if z < day_from_year y then y - 1
         else if day_from_year (y + 1) \<le> z then y + 1 else y)"

definition month_lengths :: "bool \<Rightarrow> int list" where
  "month_lengths l = [31, if l then 29 else 28, 31, 30, 31, 30, 31, 31, 30, 31, 30, 31]"

definition days_in_month :: "int \<Rightarrow> int \<Rightarrow> int" where
  "days_in_month y m = month_lengths (leap y) ! nat (m - 1)"

definition days_before_month :: "int \<Rightarrow> int \<Rightarrow> int" where
  "days_before_month y m = sum_list (take (nat (m - 1)) (month_lengths (leap y)))"

fun month_from :: "int list \<Rightarrow> int \<Rightarrow> int \<Rightarrow> int \<times> int" where
  \<comment> \<open>month and day of month of a day of the year, walking the month lengths\<close>
  "month_from [] m d = (m, d + 1)"
| "month_from (l # ls) m d = (if d < l then (m, d + 1) else month_from ls (m + 1) (d - l))"

definition valid_date :: "int \<Rightarrow> int \<Rightarrow> int \<Rightarrow> bool" where
  "valid_date y m d \<longleftrightarrow>
     0 \<le> y \<and> y \<le> 9999 \<and> 1 \<le> m \<and> m \<le> 12 \<and> 1 \<le> d \<and> d \<le> days_in_month y m"

definition day_number :: "int \<Rightarrow> int \<Rightarrow> int \<Rightarrow> int" where
  "day_number y m d = day_from_year y + days_before_month y m + d - 1"

definition civil :: "int \<Rightarrow> int \<times> int \<times> int" where
  "civil z =
     (let y = year_from_day z; (m, d) = month_from (month_lengths (leap y)) 1 (z - day_from_year y)
      in (y, m, d))"

lemma div_step_aux:
  fixes r q k :: int
  assumes k: "0 < k" and r: "0 \<le> r" "r < k"
  shows "(r + 1 + q * k) div k = q + (if k dvd r + 1 + q * k then 1 else 0)"
proof (cases "r + 1 = k")
  case True
  have "(k + q * k) div k = q + 1" using k by simp
  moreover have "k dvd k + q * k" by simp
  ultimately show ?thesis by (simp only: True if_True)
next
  case False
  then have "(r + 1) div k = 0" using r by simp
  moreover have "\<not> k dvd r + 1" using False r zdvd_not_zless [of "r + 1" k] by simp
  ultimately show ?thesis using k by simp
qed

lemma div_step:
  fixes a k :: int
  assumes k: "0 < k"
  shows "(a + 1) div k = a div k + (if k dvd a + 1 then 1 else 0)"
proof -
  have "a mod k + 1 + a div k * k = a + 1" by (metis add.assoc add.commute div_mult_mod_eq)
  then show ?thesis
    using div_step_aux [OF k pos_mod_sign [OF k] pos_mod_bound [OF k], of a "a div k"] by (simp only:)
qed

lemma leap_sum:
  "c \<longrightarrow> b \<Longrightarrow> b \<longrightarrow> a \<Longrightarrow>
     (if a then 1 else 0) - (if b then 1 else 0) + (if c then 1 else 0)
       = (if a \<and> \<not> b \<or> c then 1 else (0::int))"
  by auto

lemma year_sum:
  "a - b + c = d \<Longrightarrow>
     365 * (y + 1 - 1970) + (p + a) - (q + b) + (r + c)
       = 365 * (y - 1970) + p - q + r + 365 + (d :: int)"
  by simp

lemma day_from_year_Suc: "day_from_year (y + 1) = day_from_year y + (if leap y then 366 else 365)"
proof -
  have "4 dvd (y - 1969) + 1 \<longleftrightarrow> 4 dvd y" "100 dvd (y - 1901) + 1 \<longleftrightarrow> 100 dvd y"
    "400 dvd (y - 1601) + 1 \<longleftrightarrow> 400 dvd y"
    using dvd_diff_left_iff [of 4 1968 y] dvd_diff_left_iff [of 100 1900 y]
      dvd_diff_left_iff [of 400 1600 y] by simp_all
  then have "(y + 1 - 1969) div 4 = (y - 1969) div 4 + (if 4 dvd y then 1 else 0)"
    "(y + 1 - 1901) div 100 = (y - 1901) div 100 + (if 100 dvd y then 1 else 0)"
    "(y + 1 - 1601) div 400 = (y - 1601) div 400 + (if 400 dvd y then 1 else 0)"
    using div_step [of 4 "y - 1969"] div_step [of 100 "y - 1901"] div_step [of 400 "y - 1601"]
    by (simp_all add: diff_add_eq)
  note d = this
  have i: "400 dvd y \<longrightarrow> 100 dvd y" by (rule impI, erule dvd_trans [rotated]) simp
  have j: "100 dvd y \<longrightarrow> 4 dvd y" by (rule impI, erule dvd_trans [rotated]) simp
  have "day_from_year (y + 1) = day_from_year y + 365 + (if leap y then 1 else 0)"
    unfolding day_from_year_def d leap_def by (rule year_sum [OF leap_sum [OF i j]])
  then show ?thesis by simp
qed

lemma div_bounds:
  fixes a b :: int
  assumes "0 < b"
  shows "b * (a div b) \<le> a" "a < b * (a div b) + b"
  using assms mult_div_mod_eq [of b a] pos_mod_sign [of b a] pos_mod_bound [of b a] by linarith+

lemma year_estimate:
  fixes y z e :: int
  assumes "4 * a \<le> y - 1969" "y - 1969 < 4 * a + 4" "100 * b \<le> y - 1901" "y - 1901 < 100 * b + 100"
    and "400 * c \<le> y - 1601" "y - 1601 < 400 * c + 400" "146097 * e \<le> 400 * z" "400 * z < 146097 * e + 146097"
    and "365 * (y - 1970) + a - b + c \<le> z" "z < 365 * (y - 1970) + a - b + c + 366"
  shows "y - 1 \<le> e + 1970" and "e + 1970 \<le> y + 1"
proof -
  have a: "y - 1972 \<le> 4 * a" "4 * a \<le> y - 1969" and b: "y - 2000 \<le> 100 * b" "100 * b \<le> y - 1901"
    and c: "y - 2000 \<le> 400 * c" "400 * c \<le> y - 1601"
    using assms(1-6) by simp_all
  have "400 * (365 * (y - 1970) + a - b + c) \<ge> 146097 * (y - 1970) - 506" using a b c by simp
  moreover have "400 * (365 * (y - 1970) + a - b + c + 366) \<le> 146097 * (y - 1970) + 147000" using a b c by simp
  ultimately have z: "146097 * (y - 1970) - 506 \<le> 400 * z" "400 * z < 146097 * (y - 1970) + 147000"
    using assms(9,10) by simp_all
  show "y - 1 \<le> e + 1970" using z assms(7,8) by simp
  show "e + 1970 \<le> y + 1" using z assms(7,8) by simp
qed

lemma year_from_day:
  assumes "day_from_year y \<le> z" "z < day_from_year (y + 1)"
  shows "year_from_day z = y"
proof -
  define e where "e = 400 * z div 146097 + 1970"
  have u: "z < day_from_year y + 366"
    using assms(2) by (simp add: day_from_year_Suc split: if_splits)
  note b = div_bounds [of 4 "y - 1969", OF zero_less_numeral]
    div_bounds [of 100 "y - 1901", OF zero_less_numeral]
    div_bounds [of 400 "y - 1601", OF zero_less_numeral]
    div_bounds [of 146097 "400 * z", OF zero_less_numeral]
  have "y - 1 \<le> e" "e \<le> y + 1"
    unfolding e_def using year_estimate [OF b] u assms(1) unfolding day_from_year_def by blast+
  then consider "e = y - 1" | "e = y" | "e = y + 1" by linarith
  then show ?thesis
  proof cases
    case 1
    have "day_from_year (y - 1) \<le> z"
      using assms(1) day_from_year_Suc [of "y - 1"] by (simp split: if_splits)
    with 1 assms show ?thesis by (simp add: year_from_day_def Let_def flip: e_def)
  qed (use assms in \<open>simp_all add: year_from_day_def Let_def flip: e_def\<close>)
qed

lemma month_range:
  assumes "1 \<le> (m::int)" "m \<le> 12"
  shows "m = 1 \<or> m = 2 \<or> m = 3 \<or> m = 4 \<or> m = 5 \<or> m = 6 \<or> m = 7 \<or> m = 8 \<or> m = 9 \<or> m = 10 \<or> m = 11 \<or> m = 12"
  using assms by arith

lemma month_from_days_before:
  assumes m: "1 \<le> m" "m \<le> 12" and d: "1 \<le> d" "d \<le> month_lengths l ! nat (m - 1)"
  shows "month_from (month_lengths l) 1 (sum_list (take (nat (m - 1)) (month_lengths l)) + d - 1) = (m, d)"
  using month_range [OF m] d by (elim disjE) (cases l; simp add: month_lengths_def)+

lemma days_before_month_bounds:
  assumes m: "1 \<le> m" "m \<le> 12" and d: "1 \<le> d" "d \<le> days_in_month y m"
  shows "0 \<le> days_before_month y m + d - 1"
    and "days_before_month y m + d - 1 < (if leap y then 366 else 365)"
  using month_range [OF m] d
  by (elim disjE; simp add: days_before_month_def days_in_month_def month_lengths_def split: if_splits)+

theorem civil_day_number:
  assumes "valid_date y m d"
  shows "civil (day_number y m d) = (y, m, d)"
proof -
  have m: "1 \<le> m" "m \<le> 12" and d: "1 \<le> d" "d \<le> days_in_month y m"
    using assms by (auto simp: valid_date_def)
  note b = days_before_month_bounds [OF m d]
  have "year_from_day (day_number y m d) = y"
    using b by (intro year_from_day) (auto simp: day_number_def day_from_year_Suc split: if_splits)
  then show ?thesis
    using month_from_days_before [OF m d(1), of "leap y"] d(2)
    by (simp add: civil_def Let_def day_number_def days_before_month_def days_in_month_def
        add_diff_eq)
qed

section \<open>Reading and writing\<close>

definition pad :: "nat \<Rightarrow> int \<Rightarrow> string" where
  "pad k n = (let ds = digits n in replicate (k - length ds) CHR ''0'' @ ds)"

definition date_text :: "int \<Rightarrow> int \<Rightarrow> int \<Rightarrow> string" where
  "date_text y m d = pad 4 y @ ''-'' @ pad 2 m @ ''-'' @ pad 2 d"

definition toISOString :: "int \<Rightarrow> string" where
  \<comment> \<open>for years 0 to 9999\<close>
  "toISOString t =
     (let (y, m, d) = civil (t div 86400000); r = t mod 86400000
      in date_text y m d @ ''T'' @ pad 2 (r div 3600000) @ '':'' @ pad 2 (r div 60000 mod 60)
         @ '':'' @ pad 2 (r div 1000 mod 60) @ ''.'' @ pad 3 (r mod 1000) @ ''Z'')"

definition number_at :: "nat \<Rightarrow> string \<Rightarrow> int option" where
  \<comment> \<open>exactly \<open>k\<close> digits at the head\<close>
  "number_at k s =
     (let ds = take k s
      in if length ds = k \<and> list_all is_digit ds then Some (digits_val ds) else None)"

definition char_at :: "string \<Rightarrow> nat \<Rightarrow> char option" where
  "char_at s i = (if i < length s then Some (s ! i) else None)"

definition parse_date :: "string \<Rightarrow> int option" where
  \<comment> \<open>the day number of \<open>YYYY-MM-DD\<close> at the head\<close>
  "parse_date s =
     (case (number_at 4 s, number_at 2 (drop 5 s), number_at 2 (drop 8 s)) of
        (Some y, Some m, Some d) \<Rightarrow>
          if char_at s 4 = Some CHR ''-'' \<and> char_at s 7 = Some CHR ''-'' \<and> valid_date y m d
          then Some (day_number y m d) else None
      | _ \<Rightarrow> None)"

definition parse_offset :: "string \<Rightarrow> int option" where
  \<comment> \<open>the milliseconds ahead of UTC of \<open>Z\<close> or \<open>+HH:MM\<close>\<close>
  "parse_offset s =
     (if s = ''Z'' then Some 0
      else if length s = 6 \<and> char_at s 3 = Some CHR '':'' then
        (case (number_at 2 (drop 1 s), number_at 2 (drop 4 s)) of
           (Some h, Some m) \<Rightarrow>
             if 23 < h \<or> 59 < m then None
             else if hd s = CHR ''+'' then Some (3600000 * h + 60000 * m)
             else if hd s = CHR ''-'' then Some (- (3600000 * h + 60000 * m))
             else None
         | _ \<Rightarrow> None)
      else None)"

definition parse_seconds :: "string \<Rightarrow> (int \<times> string) option" where
  \<comment> \<open>an optional \<open>:SS\<close> with an optional fraction, in milliseconds, and the rest\<close>
  "parse_seconds s =
     (if char_at s 0 \<noteq> Some CHR '':'' then Some (0, s)
      else case number_at 2 (drop 1 s) of
        None \<Rightarrow> None
      | Some sec \<Rightarrow>
          if 59 < sec then None
          else let r = drop 3 s in
            if char_at r 0 = Some CHR ''.'' then
              let (fs, q) = span_digits (drop 1 r)
              in if fs = [] then None
                 else Some (1000 * sec + digits_val (take 3 (fs @ ''000'')), q)
            else Some (1000 * sec, r))"

definition parse_clock :: "string \<Rightarrow> int option" where
  \<comment> \<open>\<open>HH:MM[:SS[.f]]\<close> and the offset, in milliseconds of the day\<close>
  "parse_clock s =
     (case (number_at 2 s, number_at 2 (drop 3 s)) of
        (Some h, Some m) \<Rightarrow>
          if 23 < h \<or> 59 < m \<or> char_at s 2 \<noteq> Some CHR '':'' then None
          else (case parse_seconds (drop 5 s) of
                  None \<Rightarrow> None
                | Some (ms, r) \<Rightarrow>
                    (case parse_offset r of None \<Rightarrow> None
                     | Some off \<Rightarrow> Some (3600000 * h + 60000 * m + ms - off)))
      | _ \<Rightarrow> None)"

definition date_value :: "string \<Rightarrow> int option" where
  \<comment> \<open>\<open>new Date(text).getTime()\<close>, \<open>None\<close> for \<open>NaN\<close>\<close>
  "date_value s =
     (case parse_date s of
        None \<Rightarrow> None
      | Some z \<Rightarrow>
          if length s = 10 then Some (86400000 * z)
          else if char_at s 10 = Some CHR ''T''
               then map_option (\<lambda>c. 86400000 * z + c) (parse_clock (drop 11 s))
               else None)"

lemma pad_props:
  assumes "0 \<le> n" "n < 10 ^ k" "1 \<le> k"
  shows "length (pad k n) = k" "list_all is_digit (pad k n)" "digits_val (pad k n) = n"
  using length_digits_le [OF assms] digits_are_digits [OF assms(1)] assms(1)
  by (auto simp: pad_def Let_def list_all_iff)

lemma number_at_pad:
  assumes "0 \<le> n" "n < 10 ^ k" "1 \<le> k"
  shows "number_at k (pad k n @ s) = Some n"
  using pad_props [OF assms] by (simp add: number_at_def Let_def)

lemma days_in_month_le: "1 \<le> m \<Longrightarrow> m \<le> 12 \<Longrightarrow> days_in_month y m \<le> 31"
  by (drule (1) month_range) (elim disjE; simp add: days_in_month_def month_lengths_def)

lemma valid_date_bounds:
  assumes "valid_date y m d"
  shows "0 \<le> y" "y < 10 ^ 4" "0 \<le> m" "m < 10 ^ 2" "0 \<le> d" "d < 10 ^ 2"
  using assms days_in_month_le [of m y] by (auto simp: valid_date_def)

lemma length_date_text: "valid_date y m d \<Longrightarrow> length (date_text y m d) = 10"
  using valid_date_bounds [of y m d] by (simp add: date_text_def pad_props)

lemma parse_date_text:
  assumes "valid_date y m d"
  shows "parse_date (date_text y m d @ s) = Some (day_number y m d)"
proof -
  note b = valid_date_bounds [OF assms]
  have l: "length (pad 4 y) = 4" "length (pad 2 m) = 2" "length (pad 2 d) = 2"
    using b pad_props(1) by simp_all
  have "drop 5 (date_text y m d @ s) = pad 2 m @ ''-'' @ pad 2 d @ s"
    "drop 8 (date_text y m d @ s) = pad 2 d @ s"
    by (simp_all add: date_text_def l)
  moreover have "char_at (date_text y m d @ s) 4 = Some CHR ''-''"
    "char_at (date_text y m d @ s) 7 = Some CHR ''-''"
    by (simp_all add: char_at_def date_text_def nth_append l)
  moreover have "number_at 4 (date_text y m d @ s) = Some y"
    "number_at 2 (pad 2 m @ ''-'' @ pad 2 d @ s) = Some m" "number_at 2 (pad 2 d @ s) = Some d"
    unfolding date_text_def append_assoc using b by (auto intro!: number_at_pad)
  ultimately show ?thesis using assms by (simp add: parse_date_def)
qed

text \<open>The last second of a day, written and read by the user form.\<close>

theorem end_of_day_roundtrip:
  assumes "valid_date y m d"
  shows "map_option toISOString (date_value (date_text y m d @ ''T23:59:59Z''))
       = Some (date_text y m d @ ''T23:59:59.000Z'')"
proof -
  let ?s = "date_text y m d @ ''T23:59:59Z''"
  have c: "parse_clock ''23:59:59Z'' = Some 86399000" by code_simp
  have "char_at ?s 10 = Some CHR ''T''" "drop 11 ?s = ''23:59:59Z''" "length ?s = 20"
    using length_date_text [OF assms] by (simp_all add: char_at_def nth_append)
  then have "date_value ?s = Some (86400000 * day_number y m d + 86399000)"
    by (simp add: date_value_def parse_date_text [OF assms] c)
  moreover have "toISOString (86400000 * day_number y m d + 86399000)
      = date_text y m d @ ''T23:59:59.000Z''"
  proof -
    have "(86400000 * day_number y m d + 86399000) div 86400000 = day_number y m d"
      "(86400000 * day_number y m d + 86399000) mod 86400000 = 86399000"
      by simp_all
    moreover have "pad 2 23 = ''23''" "pad 2 59 = ''59''" "pad 3 0 = ''000''" by code_simp+
    ultimately show ?thesis by (simp add: toISOString_def Let_def civil_day_number [OF assms])
  qed
  ultimately show ?thesis by simp
qed

end
