(* ===== verification/Format.thy ===== *)
theory Format
  imports Dom JsDate
begin

text \<open>
  The display formatters, \<open>web/src/lib/format.ts\<close>. The browser facts they read are gathered
  in an environment: the clock, the locale-dependent formatters of \<open>Intl\<close> and \<open>Date\<close>, and
  the tier computed by \<open>Math.floor(Math.log(x) / Math.log(base))\<close>, because ECMA-262 leaves
  the value of \<open>Math.log\<close> implementation-approximated. \<open>exact_tier\<close> is the tier that exact
  logarithms give.
\<close>

section \<open>The environment\<close>

record env =
  now :: int \<comment> \<open>\<open>Date.now()\<close>\<close>
  log_tier :: "int \<Rightarrow> jsnum \<Rightarrow> int" \<comment> \<open>base and value\<close>
  compact :: "jsnum \<Rightarrow> string" \<comment> \<open>\<open>Intl.NumberFormat\<close>, compact notation\<close>
  locale_datetime :: "int \<Rightarrow> string" \<comment> \<open>month, day, hour, minute\<close>
  locale_date :: "int \<Rightarrow> string" \<comment> \<open>year, month, day\<close>
  locale_day :: "int option \<Rightarrow> string" \<comment> \<open>month and day; the text of an invalid date for \<open>None\<close>\<close>
  locale_plain :: "int option \<Rightarrow> string" \<comment> \<open>\<open>toLocaleDateString()\<close>\<close>
  hostname :: string \<comment> \<open>\<open>location.hostname\<close>\<close>
  app_version :: string \<comment> \<open>\<open>__APP_VERSION__\<close>\<close>

definition exact_tier :: "int \<Rightarrow> jsnum \<Rightarrow> int" where
  "exact_tier b n = (case n of Fin x \<Rightarrow> ilog b x | _ \<Rightarrow> 0)"

text \<open>A concrete environment for the examples: exact logarithms and ISO dates.\<close>

definition plain_env :: env where
  "plain_env =
     \<lparr>now = 1740787200000, log_tier = exact_tier, compact = js_String,
      locale_datetime = toISOString, locale_date = (\<lambda>t. take 10 (toISOString t)),
      locale_day = (\<lambda>t. case t of None \<Rightarrow> ''Invalid Date'' | Some t \<Rightarrow> take 10 (toISOString t)),
      locale_plain = (\<lambda>t. case t of None \<Rightarrow> ''Invalid Date'' | Some t \<Rightarrow> take 10 (toISOString t)),
      hostname = ''proxy.example'', app_version = ''1.0.0''\<rparr>"

section \<open>Symbols\<close>

text \<open>The UTF-8 bytes of the symbols the views print.\<close>

definition mdash :: string where
  "mdash = [CHR 0xE2, CHR 0x80, CHR 0x94]"

definition middot :: string where
  "middot = '' '' @ [CHR 0xC2, CHR 0xB7] @ '' ''"

definition infinity :: string where
  "infinity = [CHR 0xE2, CHR 0x88, CHR 0x9E]"

definition down_arrow :: string where
  "down_arrow = [CHR 0xE2, CHR 0x86, CHR 0x93]"

definition up_arrow :: string where
  "up_arrow = [CHR 0xE2, CHR 0x86, CHR 0x91]"

definition left_arrow :: string where
  "left_arrow = [CHR 0xE2, CHR 0x86, CHR 0x90]"

definition right_arrow :: string where
  "right_arrow = [CHR 0xE2, CHR 0x86, CHR 0x92]"

definition ellipsis :: string where
  "ellipsis = [CHR 0xE2, CHR 0x80, CHR 0xA6]"

section \<open>Formatters\<close>

definition unit_at :: "string list \<Rightarrow> int \<Rightarrow> string" where
  "unit_at us i = (if 0 \<le> i \<and> i < int (length us) then us ! nat i else ''undefined'')"

definition format_scaled :: "int \<Rightarrow> string list \<Rightarrow> int \<Rightarrow> jsnum \<Rightarrow> string" where
  \<comment> \<open>the value at tier \<open>i\<close> and its unit, the last lines shared by the two formatters below\<close>
  "format_scaled base units i n =
     (let v = js_div n (num (of_int base powi i))
      in (if js_le (Fin 100) v \<or> i = 0 then js_String (math_round v) else toFixed 1 v)
         @ '' '' @ unit_at units i)"

definition formatBytes :: "env \<Rightarrow> jsnum \<Rightarrow> string" where
  "formatBytes e bytes =
     (if \<not> js_isFinite bytes \<or> js_le bytes (Fin 0) then ''0 B''
      else let units = [''B'', ''KB'', ''MB'', ''GB'', ''TB'', ''PB''];
               i = min (int (length units) - 1) (log_tier e 1024 bytes)
           in format_scaled 1024 units i bytes)"

definition formatBitrate :: "env \<Rightarrow> jsnum \<Rightarrow> string" where
  "formatBitrate e bitsPerSec =
     (if \<not> js_isFinite bitsPerSec \<or> js_le bitsPerSec (Fin 0) then ''0 bps''
      else let units = [''bps'', ''Kbps'', ''Mbps'', ''Gbps''];
               i = min (int (length units) - 1) (log_tier e 1000 bitsPerSec)
           in format_scaled 1000 units i bitsPerSec)"

fun js_mod :: "jsnum \<Rightarrow> jsnum \<Rightarrow> jsnum" where
  \<comment> \<open>the operator \<open>%\<close>, with the sign of the dividend; exact on doubles\<close>
  "js_mod (Fin a) (Fin b) =
     (if b = 0 then NaN
      else Fin (sgn a * (\<bar>a\<bar> - \<bar>b\<bar> * of_int \<lfloor>\<bar>a\<bar> / \<bar>b\<bar>\<rfloor>)))"
| "js_mod (Fin a) (Inf s) = Fin a"
| "js_mod _ _ = NaN"

definition formatUptime :: "jsnum \<Rightarrow> string" where
  "formatUptime seconds =
     (if \<not> js_isFinite seconds \<or> js_le seconds (Fin 0) then mdash
      else let d = math_floor (js_div seconds (Fin 86400));
               h = math_floor (js_div (js_mod seconds (Fin 86400)) (Fin 3600));
               m = math_floor (js_div (js_mod seconds (Fin 3600)) (Fin 60))
           in if js_lt (Fin 0) d then js_String d @ ''d '' @ js_String h @ ''h''
              else if js_lt (Fin 0) h then js_String h @ ''h '' @ js_String m @ ''m''
              else js_String m @ ''m'')"

definition formatNumber :: "env \<Rightarrow> jsnum \<Rightarrow> string" where
  "formatNumber e n = compact e n"

definition absent :: "string option \<Rightarrow> bool" where
  \<comment> \<open>\<open>!iso\<close>: null or the empty string\<close>
  "absent stamp = (stamp = None \<or> stamp = Some [])"

definition formatDateTime :: "env \<Rightarrow> string option \<Rightarrow> string" where
  "formatDateTime e stamp =
     (if absent stamp then mdash
      else case date_value (the stamp) of None \<Rightarrow> mdash | Some t \<Rightarrow> locale_datetime e t)"

definition formatDate :: "env \<Rightarrow> string option \<Rightarrow> string" where
  "formatDate e stamp =
     (if absent stamp then mdash
      else case date_value (the stamp) of None \<Rightarrow> mdash | Some t \<Rightarrow> locale_date e t)"

definition whole :: "int \<Rightarrow> int \<Rightarrow> string" where
  \<comment> \<open>\<open>Math.floor(diff / unit)\<close> as text\<close>
  "whole diff unit = js_String (math_floor (js_div (jint diff) (jint unit)))"

definition formatRelative :: "env \<Rightarrow> string option \<Rightarrow> string" where
  "formatRelative e stamp =
     (if absent stamp then ''never''
      else case date_value (the stamp) of
        None \<Rightarrow> mdash
      | Some t \<Rightarrow>
          let diff = now e - t
          in if diff < 60000 then ''just now''
             else if diff < 3600000 then whole diff 60000 @ ''m ago''
             else if diff < 86400000 then whole diff 3600000 @ ''h ago''
             else if diff < 30 * 86400000 then whole diff 86400000 @ ''d ago''
             else formatDate e stamp)"

definition expiryDays :: "env \<Rightarrow> string option \<Rightarrow> jsnum option" where
  "expiryDays e stamp =
     (if absent stamp then None
      else case date_value (the stamp) of
        None \<Rightarrow> None
      | Some t \<Rightarrow> Some (math_ceil (js_div (jint (t - now e)) (jint 86400000))))"

section \<open>Lemmas\<close>

text \<open>Flooring a rounded quotient of integers below 2^53 is integer division.\<close>

lemma floor_fl_div:
  assumes "0 \<le> s" "s < 2 ^ 53" "0 < k" "k \<le> 2 ^ 40"
  shows "\<lfloor>fl (of_int s / of_int k)\<rfloor> = s div k"
proof (cases "s = 0")
  case False
  let ?x = "of_int s / of_int k :: rat"
  define q where "q = s div k"
  have k: "0 < (of_int k :: rat)" and s: "1 \<le> (of_int s :: rat)" using assms False by simp_all
  have qk: "q * k \<le> s" "s + 1 \<le> (q + 1) * k"
    using assms(3) pos_mod_bound [of k s] pos_mod_sign [of k s] div_mult_mod_eq [of s k]
    unfolding q_def distrib_right by linarith+
  have q: "0 \<le> q" "q \<le> 2 ^ 53" using assms by (simp_all add: q_def pos_imp_zdiv_nonneg_iff, smt (verit) div_by_1 zdiv_mono2)
  have "(of_int (q * k) :: rat) \<le> of_int s" "(of_int (s + 1) :: rat) \<le> of_int ((q + 1) * k)"
    using qk by (simp_all only: of_int_le_iff)
  then have lo: "of_int q \<le> ?x" and hi: "?x + 1 / of_int k \<le> of_int q + 1"
    using k by (simp_all add: le_divide_eq divide_le_eq flip: add_divide_distrib)
  have "of_int q \<le> fl ?x" using fl_mono [of "of_int q" ?x] lo q by simp
  moreover have "fl ?x < of_int q + 1"
  proof -
    have "of_int k \<le> (of_int (2 ^ 40) :: rat)" using assms(4) by (simp only: of_int_le_iff)
    have "min_normal \<le> 1 / 2 ^ 40" using min_normal_le by (rule order_trans) simp
    also have "\<dots> \<le> 1 / (of_int k :: rat)" using \<open>of_int k \<le> of_int (2 ^ 40)\<close> k by (intro divide_left_mono) simp_all
    also have "\<dots> \<le> ?x" using s k by (intro divide_right_mono) simp_all
    finally have "min_normal \<le> \<bar>?x\<bar>" using s k by simp
    then have "fl ?x - ?x \<le> ?x * 2 powi (- 53)" using fl_rel_error [of ?x] s k by simp
    also have "\<dots> < 1 / of_int k"
    proof -
      have "(of_int s :: rat) < of_int (2 ^ 53)" using assms(2) by (simp only: of_int_less_iff)
      then have "(of_int s :: rat) * 2 powi (- 53) < 1" by (simp add: power_int_minus divide_less_eq)
      then have "of_int s * 2 powi (- 53) / of_int k < 1 / (of_int k :: rat)" using k by (intro divide_strict_right_mono)
      then show ?thesis by simp
    qed
    finally show ?thesis using hi by linarith
  qed
  ultimately show ?thesis by (simp add: floor_eq_iff q_def)
qed simp

lemma js_floor_div:
  assumes "0 \<le> s" "s < 2 ^ 53" "0 < k" "k \<le> 2 ^ 40"
  shows "math_floor (js_div (Fin (of_int s)) (Fin (of_int k))) = Fin (of_int (s div k))"
proof -
  have "(of_int s :: rat) \<le> of_int (2 ^ 53)" using assms(2) by (simp only: of_int_le_iff)
  then have "of_int s / of_int k \<le> (of_int (2 ^ 53) :: rat)" using assms(1,3)
    by (simp add: divide_le_eq)
  moreover have "0 \<le> of_int s / (of_int k :: rat)" using assms(1,3) by simp
  ultimately have "num (of_int s / of_int k) = Fin (fl (of_int s / of_int k))"
    using num_between [of 0 "of_int s / of_int k" "2 ^ 53"] by simp
  then show ?thesis using floor_fl_div [OF assms] assms(3) by simp
qed

lemma js_mod_int:
  "0 \<le> s \<Longrightarrow> 0 < k \<Longrightarrow> js_mod (Fin (of_int s)) (Fin (of_int k)) = Fin (of_int (s mod k))"
  by (simp add: floor_divide_of_int_eq minus_div_mult_eq_mod [symmetric] mult.commute sgn_if)

lemma parts_account:
  fixes s :: int
  assumes "s mod 86400 mod 3600 = s mod 3600"
  shows "s div 86400 * 86400 + s mod 86400 div 3600 * 3600 + s mod 3600 div 60 * 60 \<le> s
    \<and> s < s div 86400 * 86400 + s mod 86400 div 3600 * 3600 + s mod 3600 div 60 * 60 + 60"
proof -
  have "d * 86400 + h * 3600 + m * 60 \<le> s \<and> s < d * 86400 + h * 3600 + m * 60 + 60"
    if "d * 86400 + r = s" "h * 3600 + q = r" "m * 60 + p = q" "0 \<le> p" "p < 60" for d h m r q p :: int
    using that by linarith
  from this [OF div_mult_mod_eq div_mult_mod_eq div_mult_mod_eq pos_mod_sign pos_mod_bound]
  show ?thesis using assms by (simp only: zero_less_numeral)
qed

lemma whole_text: "0 \<le> n \<Longrightarrow> n < 10 ^ 15 \<Longrightarrow> js_String (Fin (of_int n)) = int_string n"
  by (rule js_String_int) simp

lemma formatUptime_parts:
  assumes "0 < x" and "math_floor (js_div (Fin x) (Fin 86400)) = Fin (of_int d)"
    and "math_floor (js_div (js_mod (Fin x) (Fin 86400)) (Fin 3600)) = Fin (of_int h)"
    and "math_floor (js_div (js_mod (Fin x) (Fin 3600)) (Fin 60)) = Fin (of_int m)"
  shows "formatUptime (Fin x) =
      (if 0 < d then js_String (Fin (of_int d)) @ ''d '' @ js_String (Fin (of_int h)) @ ''h''
       else if 0 < h then js_String (Fin (of_int h)) @ ''h '' @ js_String (Fin (of_int m)) @ ''m''
       else js_String (Fin (of_int m)) @ ''m'')"
  unfolding formatUptime_def Let_def assms(2-4) using assms(1) by (simp add: js_le_def)

section \<open>Properties\<close>

text \<open>
  An uptime is shown exactly: for any whole number of seconds below 10^15 the divisions and
  floors in binary64 give the days, hours and minutes of integer division, hours below 24 and
  minutes below 60, and the parts account for the uptime up to the seconds left out.
\<close>

theorem uptime_is_exact:
  assumes "0 < s" and "s < 10 ^ 15"
  shows "\<exists>d h m. formatUptime (jint s) =
      (if 0 < d then int_string d @ ''d '' @ int_string h @ ''h''
       else if 0 < h then int_string h @ ''h '' @ int_string m @ ''m'' else int_string m @ ''m'')
    \<and> 0 \<le> d \<and> 0 \<le> h \<and> h < 24 \<and> 0 \<le> m \<and> m < 60
    \<and> d * 86400 + h * 3600 + m * 60 \<le> s \<and> s < d * 86400 + h * 3600 + m * 60 + 60"
proof -
  let ?d = "s div 86400" and ?h = "s mod 86400 div 3600" and ?m = "s mod 3600 div 60"
  have b: "s < 2 ^ 53" "s \<le> 2 ^ 53" "0 \<le> s" using assms by simp_all
  have mods: "0 \<le> s mod 86400" "s mod 86400 < 86400" "0 \<le> s mod 3600" "s mod 3600 < 3600" by simp_all
  have floors: "math_floor (js_div (Fin (of_int s)) (Fin 86400)) = Fin (of_int ?d)"
    "math_floor (js_div (js_mod (Fin (of_int s)) (Fin 86400)) (Fin 3600)) = Fin (of_int ?h)"
    "math_floor (js_div (js_mod (Fin (of_int s)) (Fin 3600)) (Fin 60)) = Fin (of_int ?m)"
    using js_floor_div [of s 86400] js_floor_div [of "s mod 86400" 3600] js_floor_div [of "s mod 3600" 60]
      js_mod_int [of s 86400] js_mod_int [of s 3600] b mods by simp_all
  have small: "0 \<le> ?d" "?d < 10 ^ 15" "0 \<le> ?h" "?h < 24" "0 \<le> ?m" "?m < 60"
    using assms mods by (simp_all add: pos_imp_zdiv_nonneg_iff div_less_iff_less_mult_int)
  have texts: "js_String (Fin (of_int ?d)) = int_string ?d" "js_String (Fin (of_int ?h)) = int_string ?h"
    "js_String (Fin (of_int ?m)) = int_string ?m"
    by (rule whole_text [OF small(1,2)], rule whole_text [OF small(3) less_trans [OF small(4)]], simp,
        rule whole_text [OF small(5) less_trans [OF small(6)]], simp)
  have j: "jint s = Fin (of_int s)" and pos: "0 < (of_int s :: rat)" using b assms by (simp_all add: jint_small)
  have "formatUptime (jint s) =
      (if 0 < ?d then int_string ?d @ ''d '' @ int_string ?h @ ''h''
       else if 0 < ?h then int_string ?h @ ''h '' @ int_string ?m @ ''m'' else int_string ?m @ ''m'')"
    using formatUptime_parts [OF pos floors] unfolding j texts .
  moreover have "s mod 86400 mod 3600 = s mod 3600" by (rule mod_mod_cancel) simp
  then have "?d * 86400 + ?h * 3600 + ?m * 60 \<le> s \<and> s < ?d * 86400 + ?h * 3600 + ?m * 60 + 60"
    by (rule parts_account)
  ultimately show ?thesis using small by blast
qed

theorem uptime_is_exact_witness: "formatUptime (jint 90061) = ''1d 1h''"
proof -
  obtain d h m where f: "formatUptime (jint 90061) =
      (if 0 < d then int_string d @ ''d '' @ int_string h @ ''h''
       else if 0 < h then int_string h @ ''h '' @ int_string m @ ''m'' else int_string m @ ''m'')"
    "0 \<le> h" "h < 24" "0 \<le> m" "m < 60" "d * 86400 + h * 3600 + m * 60 \<le> 90061" "90061 < d * 86400 + h * 3600 + m * 60 + 60"
    using uptime_is_exact [of 90061] by auto
  have "d \<le> 1" "1 \<le> d" using f(2-7) by linarith+
  then have "d = 1" by simp
  moreover have "h \<le> 1" "1 \<le> h" using f(2-7) \<open>d = 1\<close> by linarith+
  then have "h = 1" by simp
  moreover have "int_string 1 = ''1''" by code_simp
  ultimately show ?thesis using f(1) by simp
qed

text \<open>
  At the edge of a tier the rounding comes after the choice of the unit: one byte less than a
  megabyte is shown as 1024 KB.
\<close>

lemma tier_edge: "formatBytes plain_env (jint 1048575) = ''1024 KB''"
  by code_simp

end
