(* ===== verification/Hooks.thy ===== *)
theory Hooks
  imports Format
begin

text \<open>
  The hooks of \<open>web/src/lib/hooks.ts\<close> as state machines, with \<open>subscribeStream\<close> of
  \<open>web/src/api/client.ts\<close>. A run of the effect of \<open>useApi\<close> is a flight: the request it sent
  and the variable \<open>alive\<close> its closures share. Flights settle in any order, at most once each.
\<close>

section \<open>The hook useApi\<close>

record flight =
  f_path :: string
  f_alive :: bool
  f_open :: bool \<comment> \<open>the promise is pending\<close>

record 'p api_state =
  ap_path :: "string option"
  ap_data :: "'p option"
  ap_error :: "string option"
  ap_loading :: bool
  ap_nonce :: nat
  ap_flights :: "flight list"
  ap_cleanup :: "nat option" \<comment> \<open>the flight the cleanup of the last effect belongs to\<close>
  ap_mounted :: bool

datatype 'p api_event =
    Rerender "string option" \<comment> \<open>the component renders with this path\<close>
  | Reload
  | Settled nat "failure + 'p option"
  | Unmount

definition flight_call :: "flight \<Rightarrow> call" where
  "flight_call f = api_get (f_path f)"

definition cleanup_effect :: "'p api_state \<Rightarrow> 'p api_state" where
  "cleanup_effect s =
     (case ap_cleanup s of
        None \<Rightarrow> s
      | Some i \<Rightarrow> s\<lparr>ap_flights := (ap_flights s)[i := (ap_flights s ! i)\<lparr>f_alive := False\<rparr>],
                   ap_cleanup := None\<rparr>)"

definition run_effect :: "'p api_state \<Rightarrow> 'p api_state" where
  "run_effect s =
     (case ap_path s of
        None \<Rightarrow> s
      | Some p \<Rightarrow> s\<lparr>ap_loading := True,
                   ap_flights := ap_flights s @ [\<lparr>f_path = p, f_alive = True, f_open = True\<rparr>],
                   ap_cleanup := Some (length (ap_flights s))\<rparr>)"

definition useApi :: "string option \<Rightarrow> 'p api_state" where
  \<comment> \<open>the state after the first render and its effect\<close>
  "useApi path =
     run_effect \<lparr>ap_path = path, ap_data = None, ap_error = None, ap_loading = (path \<noteq> None),
                 ap_nonce = 0, ap_flights = [], ap_cleanup = None, ap_mounted = True\<rparr>"

definition api_error_text :: "failure \<Rightarrow> string" where
  "api_error_text err =
     (case err of ApiFailure e \<Rightarrow> err_message e | OtherError _ \<Rightarrow> ''request failed'')"

definition deliver :: "failure + 'p option \<Rightarrow> 'p api_state \<Rightarrow> 'p api_state" where
  \<comment> \<open>the two callbacks, when \<open>alive\<close>\<close>
  "deliver r s =
     (case r of
        Inr d \<Rightarrow> s\<lparr>ap_data := d, ap_error := None, ap_loading := False\<rparr>
      | Inl err \<Rightarrow> s\<lparr>ap_error := Some (api_error_text err), ap_loading := False\<rparr>)"

fun api_step :: "'p api_state \<Rightarrow> 'p api_event \<Rightarrow> 'p api_state" where
  "api_step s (Rerender path) =
     (if ap_mounted s \<and> path \<noteq> ap_path s
      then run_effect ((cleanup_effect s)\<lparr>ap_path := path\<rparr>) else s)"
| "api_step s Reload =
     (if ap_mounted s then run_effect ((cleanup_effect s)\<lparr>ap_nonce := ap_nonce s + 1\<rparr>) else s)"
| "api_step s (Settled i r) =
     (if i < length (ap_flights s) \<and> f_open (ap_flights s ! i) then
        let s' = s\<lparr>ap_flights := (ap_flights s)[i := (ap_flights s ! i)\<lparr>f_open := False\<rparr>]\<rparr>
        in if f_alive (ap_flights s ! i) then deliver r s' else s'
      else s)"
| "api_step s Unmount = (cleanup_effect s)\<lparr>ap_mounted := False\<rparr>"

definition reload :: "'p api_state \<Rightarrow> 'p api_state" where
  "reload s = api_step s Reload"

subsection \<open>The invariant\<close>

text \<open>
  The only live flight is the newest one, it belongs to the current path, and the spinner is
  on exactly while it is pending.
\<close>

definition api_inv :: "'p api_state \<Rightarrow> bool" where
  "api_inv s =
     ((case ap_cleanup s of
         None \<Rightarrow> True
       | Some i \<Rightarrow> length (ap_flights s) = Suc i \<and> f_alive (ap_flights s ! i)
                  \<and> ap_path s = Some (f_path (ap_flights s ! i))
                  \<and> ap_loading s = f_open (ap_flights s ! i) \<and> ap_mounted s)
      \<and> (\<forall>j < length (ap_flights s). f_alive (ap_flights s ! j) \<longrightarrow> ap_cleanup s = Some j)
      \<and> (ap_mounted s \<and> ap_path s \<noteq> None \<longrightarrow> ap_cleanup s \<noteq> None))"

lemma api_inv_cleanup:
  "api_inv s \<Longrightarrow> ap_cleanup (cleanup_effect s) = None
     \<and> (\<forall>j < length (ap_flights s). \<not> f_alive (ap_flights (cleanup_effect s) ! j))
     \<and> length (ap_flights (cleanup_effect s)) = length (ap_flights s)
     \<and> ap_mounted (cleanup_effect s) = ap_mounted s \<and> ap_path (cleanup_effect s) = ap_path s"
  by (cases "ap_cleanup s") (auto simp: api_inv_def cleanup_effect_def nth_list_update)

lemma api_inv_run_effect:
  assumes "ap_cleanup s = None" "\<forall>j < length (ap_flights s). \<not> f_alive (ap_flights s ! j)"
    "ap_mounted s"
  shows "api_inv (run_effect s)"
  using assms by (auto simp: api_inv_def run_effect_def nth_append less_Suc_eq split: option.splits)

lemma api_inv_useApi: "api_inv (useApi p)"
  unfolding useApi_def by (rule api_inv_run_effect) simp_all

lemma api_inv_step: "api_inv s \<Longrightarrow> api_inv (api_step s e)"
proof (cases e)
  case (Rerender p)
  then show "api_inv s \<Longrightarrow> ?thesis" using api_inv_cleanup [of s] by (auto intro: api_inv_run_effect)
next
  case Reload
  then show "api_inv s \<Longrightarrow> ?thesis" using api_inv_cleanup [of s] by (auto intro: api_inv_run_effect)
next
  case (Settled i r)
  then show "api_inv s \<Longrightarrow> ?thesis"
    by (auto simp: api_inv_def Let_def deliver_def nth_list_update split: option.splits sum.splits)
next
  case Unmount
  then show "api_inv s \<Longrightarrow> ?thesis"
    using api_inv_cleanup [of s] by (auto simp: api_inv_def)
qed

interpretation fetching: machine api_step api_inv
  by unfold_locales (rule api_inv_step)

lemma api_reachable_inv: "api_inv (foldl api_step (useApi p) es)"
  by (rule fetching.inv_run) (rule api_inv_useApi)

text \<open>After an unmount the same law holds of a stronger invariant: nothing visible changes.\<close>

definition api_view :: "'p api_state \<Rightarrow> 'p option \<times> string option \<times> bool \<times> nat" where
  "api_view s = (ap_data s, ap_error s, ap_loading s, length (ap_flights s))"

lemma unmounted_step:
  "api_inv s \<Longrightarrow> \<not> ap_mounted s \<Longrightarrow>
     \<not> ap_mounted (api_step s e) \<and> api_view (api_step s e) = api_view s"
  by (cases e) (auto simp: api_inv_def api_view_def cleanup_effect_def Let_def split: option.splits)

interpretation unmounted: machine api_step "\<lambda>s. (api_inv s \<and> \<not> ap_mounted s) \<and> api_view s = v" for v
  by unfold_locales (simp add: unmounted_step api_inv_step)

lemma api_fields [simp]:
  "ap_path (api_step h (Settled i r)) = ap_path h" "ap_mounted (api_step h (Settled i r)) = ap_mounted h"
  "ap_path (reload h) = ap_path h" "ap_mounted (reload h) = ap_mounted h"
  "ap_mounted (api_step h (Rerender q)) = ap_mounted h"
  "ap_mounted h \<Longrightarrow> ap_path (api_step h (Rerender q)) = q"
  "ap_path (useApi q) = q" "ap_mounted (useApi q)"
  by (auto simp: useApi_def Let_def deliver_def reload_def run_effect_def cleanup_effect_def split: sum.splits option.splits)

subsection \<open>Which answers are shown\<close>

lemma settled_stale:
  "api_inv s \<Longrightarrow> ap_cleanup s \<noteq> Some i \<Longrightarrow>
     ap_data (api_step s (Settled i r)) = ap_data s
     \<and> ap_error (api_step s (Settled i r)) = ap_error s
     \<and> ap_loading (api_step s (Settled i r)) = ap_loading s
     \<and> ap_cleanup (api_step s (Settled i r)) = ap_cleanup s"
  by (auto simp: api_inv_def Let_def)

lemma settled_current:
  "api_inv s \<Longrightarrow> ap_cleanup s = Some i \<Longrightarrow> ap_loading s \<Longrightarrow>
     api_step s (Settled i r) =
       deliver r (s\<lparr>ap_flights := (ap_flights s)[i := (ap_flights s ! i)\<lparr>f_open := False\<rparr>]\<rparr>)"
  by (auto simp: api_inv_def Let_def)

lemma settled_again:
  "api_inv s \<Longrightarrow> ap_cleanup s = Some i \<Longrightarrow> \<not> ap_loading s \<Longrightarrow> api_step s (Settled i r) = s"
  by (auto simp: api_inv_def)

definition answers :: "(nat \<times> (failure + 'p option)) list \<Rightarrow> 'p api_event list" where
  "answers rs = List.map (\<lambda>(i, r). Settled i r) rs"

lemma answers_simps [simp]: "answers [] = []" "answers ((i, r) # rs) = Settled i r # answers rs"
  by (simp_all add: answers_def)

lemma answers_done:
  "api_inv s \<Longrightarrow> ap_cleanup s = Some i \<Longrightarrow> \<not> ap_loading s \<Longrightarrow>
     ap_data (foldl api_step s (answers rs)) = ap_data s
     \<and> ap_error (foldl api_step s (answers rs)) = ap_error s
     \<and> \<not> ap_loading (foldl api_step s (answers rs))"
proof (induction rs arbitrary: s)
  case (Cons a rs)
  obtain j r where a: "a = (j, r)" by fastforce
  show ?case
  proof (cases "j = i")
    case True
    then show ?thesis using Cons a settled_again [of s i r] by simp
  next
    case False
    then show ?thesis
      using Cons a settled_stale [of s j r] api_inv_step [of s "Settled j r"] by auto
  qed
qed simp

lemma answers_in_any_order:
  "api_inv s \<Longrightarrow> ap_cleanup s = Some i \<Longrightarrow> ap_loading s \<Longrightarrow> distinct (List.map fst rs) \<Longrightarrow>
     (i, r) \<in> set rs \<Longrightarrow>
     ap_data (foldl api_step s (answers rs)) = ap_data (deliver r s)
     \<and> ap_error (foldl api_step s (answers rs)) = ap_error (deliver r s)
     \<and> \<not> ap_loading (foldl api_step s (answers rs))"
proof (induction rs arbitrary: s)
  case (Cons a rs)
  obtain j q where a: "a = (j, q)" by fastforce
  let ?s = "api_step s (Settled j q)"
  have inv: "api_inv ?s" using Cons.prems api_inv_step by blast
  show ?case
  proof (cases "j = i")
    case True
    then have "q = r" using Cons.prems a by force
    with True have "?s = deliver r (s\<lparr>ap_flights := (ap_flights s)[i := (ap_flights s ! i)\<lparr>f_open := False\<rparr>]\<rparr>)"
      using Cons.prems settled_current by blast
    then have "ap_cleanup ?s = Some i" "\<not> ap_loading ?s" "ap_data ?s = ap_data (deliver r s)"
      "ap_error ?s = ap_error (deliver r s)"
      using Cons.prems by (auto simp: deliver_def split: sum.splits)
    then show ?thesis using answers_done [OF inv, of i rs] a by simp
  next
    case False
    then have st: "ap_data ?s = ap_data s" "ap_error ?s = ap_error s" "ap_loading ?s" "ap_cleanup ?s = Some i"
      using settled_stale [of s j q] Cons.prems by auto
    have "ap_data (deliver r ?s) = ap_data (deliver r s)" "ap_error (deliver r ?s) = ap_error (deliver r s)"
      using st by (auto simp: deliver_def split: sum.splits)
    then show ?thesis using Cons.IH [OF inv] Cons.prems False a st by auto
  qed
qed simp

section \<open>The hook useLiveStream\<close>

text \<open>
  A message of the stream is the text \<open>JSON.parse\<close> accepts, or not. \<open>subscribeStream\<close> skips a
  malformed one; the function it returns closes the source.
\<close>

record live_stream =
  sm_tick :: "stream_tick option"
  sm_connected :: bool
  sm_open :: bool

datatype stream_event =
    TickEvent "stream_tick option" \<comment> \<open>\<open>None\<close>: the data is not JSON\<close>
  | StreamError \<comment> \<open>the browser lost the connection and will reconnect\<close>
  | StreamUnmount

definition useLiveStream :: live_stream where
  "useLiveStream = \<lparr>sm_tick = None, sm_connected = False, sm_open = True\<rparr>"

definition subscribeStream :: "(stream_tick \<Rightarrow> 's \<Rightarrow> 's) \<Rightarrow> stream_tick option \<Rightarrow> 's \<Rightarrow> 's" where
  \<comment> \<open>the listener of the event \<open>tick\<close>\<close>
  "subscribeStream onTick ev s = (case ev of None \<Rightarrow> s | Some data \<Rightarrow> onTick data s)"

fun stream_step :: "live_stream \<Rightarrow> stream_event \<Rightarrow> live_stream" where
  "stream_step s (TickEvent ev) =
     (if sm_open s
      then subscribeStream (\<lambda>data s. s\<lparr>sm_connected := True, sm_tick := Some data\<rparr>) ev s else s)"
| "stream_step s StreamError = s"
| "stream_step s StreamUnmount = s\<lparr>sm_open := False\<rparr>"

definition stream_inv :: "live_stream \<Rightarrow> bool" where
  "stream_inv s = (sm_connected s = (sm_tick s \<noteq> None))"

interpretation streaming: machine stream_step stream_inv
proof
  show "stream_inv s \<Longrightarrow> stream_inv (stream_step s e)" for s e
    by (cases e) (auto simp: stream_inv_def subscribeStream_def split: option.splits)
qed

section \<open>The hook useInterval\<close>

definition useInterval :: "('s \<Rightarrow> 's) \<Rightarrow> bool \<Rightarrow> 's \<Rightarrow> 's" where
  \<comment> \<open>one tick of the timer, with \<open>document.hidden\<close>; the callback is the one of the last render\<close>
  "useInterval cb hidden s = (if \<not> hidden then cb s else s)"

section \<open>Properties\<close>

text \<open>
  C21. Whatever happened before, and in whatever order the pending requests of a \<open>useApi\<close> hook
  settle, the screen ends with the outcome of the newest request for the current path: its
  data, or its error message, and no spinner. Answers to superseded requests leave no trace.
\<close>

theorem latest_request_wins:
  assumes "s = foldl api_step (useApi p) es" and "ap_cleanup s = Some i" and "ap_loading s"
    and "distinct (List.map fst rs)" and "(i, r) \<in> set rs"
  shows "\<not> ap_loading (foldl api_step s (answers rs))
    \<and> (\<forall>d. r = Inr d \<longrightarrow> ap_data (foldl api_step s (answers rs)) = d
                 \<and> ap_error (foldl api_step s (answers rs)) = None)
    \<and> (\<forall>err. r = Inl err \<longrightarrow> ap_data (foldl api_step s (answers rs)) = ap_data s
                 \<and> ap_error (foldl api_step s (answers rs)) = Some (api_error_text err))"
  using answers_in_any_order [OF _ assms(2-5)] api_reachable_inv [of p es]
  by (auto simp: assms(1) deliver_def)

theorem latest_request_wins_witness:
  "ap_data (foldl api_step (foldl api_step (useApi (Some ''/a'')) [Rerender (Some ''/b'')])
     (answers [(1, Inr (Some (7::int))), (0, Inr (Some 3))])) = Some 7"
  using latest_request_wins [of _ "Some ''/a''" "[Rerender (Some ''/b'')]" 1
      "[(1, Inr (Some (7::int))), (0, Inr (Some 3))]" "Inr (Some 7)", OF refl]
  by (simp add: useApi_def run_effect_def cleanup_effect_def)

text \<open>
  The spinner of a mounted \<open>useApi\<close> hook with a path is on exactly while the newest request
  is pending, and that request is the one for the current path.
\<close>

theorem spinner_means_pending:
  assumes "s = foldl api_step (useApi p) es" and "ap_mounted s" and "ap_path s = Some path"
  shows "\<exists>i. Suc i = length (ap_flights s) \<and> flight_call (ap_flights s ! i) = api_get path
    \<and> (ap_loading s \<longleftrightarrow> f_open (ap_flights s ! i))"
  using api_reachable_inv [of p es] assms
  by (auto simp: api_inv_def flight_call_def split: option.splits)

theorem spinner_means_pending_witness:
  "\<exists>i. Suc i = length (ap_flights (foldl api_step (useApi (Some ''/a'') :: int api_state) [Reload]))"
  using spinner_means_pending [of _ "Some ''/a''" "[Reload]", OF refl]
  by (simp add: useApi_def run_effect_def cleanup_effect_def)

text \<open>
  After its component unmounts a \<open>useApi\<close> hook is inert: no answer, reload or rerender
  changes what it shows or starts a request.
\<close>

theorem unmounted_is_inert:
  fixes es :: "'p api_event list" and p :: "string option"
  defines "s \<equiv> api_step (foldl api_step (useApi p) es) Unmount"
  shows "ap_data (foldl api_step s fs) = ap_data s \<and> ap_error (foldl api_step s fs) = ap_error s
    \<and> ap_loading (foldl api_step s fs) = ap_loading s
    \<and> length (ap_flights (foldl api_step s fs)) = length (ap_flights s)"
proof -
  have "api_inv s" "\<not> ap_mounted s"
    using api_inv_step [OF api_reachable_inv [of p es], of Unmount] by (simp_all add: s_def)
  then have "(api_inv s \<and> \<not> ap_mounted s) \<and> api_view s = api_view s" by simp
  from unmounted.inv_run [OF this, of fs] show ?thesis by (simp add: api_view_def)
qed

text \<open>
  The live stream shows the last well-formed tick; malformed ones are skipped.
\<close>

theorem last_tick_is_shown:
  "sm_tick (foldl stream_step useLiveStream (List.map TickEvent evs)) =
     (if [d. Some d \<leftarrow> evs] = [] then None else Some (last [d. Some d \<leftarrow> evs]))"
proof (induction evs rule: rev_induct)
  case (snoc ev evs)
  have "sm_open (foldl stream_step useLiveStream (List.map TickEvent evs))"
    by (induction evs rule: rev_induct)
      (auto simp: useLiveStream_def subscribeStream_def split: option.splits)
  then show ?case
    using snoc by (simp add: subscribeStream_def split: option.splits)
qed (simp add: useLiveStream_def)

text \<open>
  Once a tick has arrived the hook reports the stream as connected for good: no loss of the
  connection, however long, is surfaced, so no view can show that the data is stale.
\<close>

theorem stream_never_disconnects:
  "sm_connected s \<Longrightarrow> sm_connected (foldl stream_step s es)"
proof (induction es arbitrary: s)
  case (Cons e es)
  have "sm_connected (stream_step s e)"
    using Cons.prems by (cases e) (auto simp: subscribeStream_def split: option.splits)
  then show ?case using Cons.IH by simp
qed simp

theorem stream_never_disconnects_witness:
  "sm_connected (foldl stream_step (useLiveStream\<lparr>sm_connected := True\<rparr>) [StreamError, StreamError])"
  by (rule stream_never_disconnects) simp

end
