(* ===== verification/HookSpec.thy ===== *)
theory HookSpec
  imports Hooks
begin

text \<open>
  What \<open>useApi\<close> of \<open>web/src/lib/hooks.ts\<close> promises, without flights and shared variables: one
  request slot. Asking fills the slot, an answer empties it and is shown, leaving empties it
  for good. The hook refines this machine.
\<close>

section \<open>The single-slot machine\<close>

record 'p query =
  q_path :: "string option"
  q_data :: "'p option"
  q_error :: "string option"
  q_loading :: bool
  q_waiting :: bool
  q_mounted :: bool

datatype 'p query_event =
    Ask "string option"
  | Show "failure + 'p option"
  | Leave
  | Ignore

fun query_step :: "'p query \<Rightarrow> 'p query_event \<Rightarrow> 'p query" where
  "query_step q (Ask p) =
     q\<lparr>q_path := p, q_waiting := (p \<noteq> None), q_loading := (if p = None then q_loading q else True)\<rparr>"
| "query_step q (Show (Inr d)) = q\<lparr>q_data := d, q_error := None, q_loading := False, q_waiting := False\<rparr>"
| "query_step q (Show (Inl err)) =
     q\<lparr>q_error := Some (api_error_text err), q_loading := False, q_waiting := False\<rparr>"
| "query_step q Leave = q\<lparr>q_mounted := False, q_waiting := False\<rparr>"
| "query_step q Ignore = q"

definition query_init :: "string option \<Rightarrow> 'p query" where
  "query_init p =
     \<lparr>q_path = p, q_data = None, q_error = None, q_loading = (p \<noteq> None), q_waiting = (p \<noteq> None),
      q_mounted = True\<rparr>"

section \<open>The abstraction\<close>

definition waiting :: "'p api_state \<Rightarrow> bool" where
  "waiting s = (case ap_cleanup s of None \<Rightarrow> False | Some i \<Rightarrow> f_open (ap_flights s ! i))"

definition abs_query :: "'p api_state \<Rightarrow> 'p query" where
  "abs_query s =
     \<lparr>q_path = ap_path s, q_data = ap_data s, q_error = ap_error s, q_loading = ap_loading s,
      q_waiting = waiting s, q_mounted = ap_mounted s\<rparr>"

fun abs_event :: "'p api_state \<Rightarrow> 'p api_event \<Rightarrow> 'p query_event" where
  "abs_event s (Rerender p) = (if ap_mounted s \<and> p \<noteq> ap_path s then Ask p else Ignore)"
| "abs_event s Reload = (if ap_mounted s then Ask (ap_path s) else Ignore)"
| "abs_event s (Settled i r) = (if ap_cleanup s = Some i \<and> waiting s then Show r else Ignore)"
| "abs_event s Unmount = Leave"

fun abs_events :: "'p api_state \<Rightarrow> 'p api_event list \<Rightarrow> 'p query_event list" where
  "abs_events s [] = []"
| "abs_events s (e # es) = abs_event s e # abs_events (api_step s e) es"

section \<open>Lemmas\<close>

lemma abs_ask:
  "ap_cleanup s = None \<Longrightarrow>
     abs_query (run_effect s) = query_step (abs_query s) (Ask (ap_path s))"
  by (cases "ap_path s") (auto simp: run_effect_def abs_query_def waiting_def)

lemma abs_cleanup:
  "abs_query (cleanup_effect s) = (abs_query s)\<lparr>q_waiting := False\<rparr>" "ap_cleanup (cleanup_effect s) = None"
  by (auto simp: cleanup_effect_def abs_query_def waiting_def split: option.splits)

lemma abs_settled:
  assumes "api_inv s"
  shows "abs_query (api_step s (Settled i r)) = query_step (abs_query s) (abs_event s (Settled i r))"
proof (cases "ap_cleanup s = Some i \<and> waiting s")
  case True
  then have "api_step s (Settled i r)
      = deliver r (s\<lparr>ap_flights := (ap_flights s)[i := (ap_flights s ! i)\<lparr>f_open := False\<rparr>]\<rparr>)"
    using assms by (auto simp: api_inv_def waiting_def Let_def)
  moreover have "i < length (ap_flights s)" using assms True by (auto simp: api_inv_def)
  ultimately show ?thesis
    using True by (cases r) (auto simp: deliver_def abs_query_def waiting_def simp del: api_step.simps)
next
  case False
  show ?thesis
  proof (cases "ap_cleanup s = Some i")
    case True
    then have "api_step s (Settled i r) = s" using False by (auto simp: waiting_def)
    then show ?thesis using True False by (simp del: api_step.simps)
  next
    case other: False
    then have "i < length (ap_flights s) \<Longrightarrow> \<not> f_alive (ap_flights s ! i)" using assms by (auto simp: api_inv_def)
    then show ?thesis
      using other by (auto simp: abs_query_def waiting_def Let_def nth_list_update split: option.splits)
  qed
qed

lemma abs_step:
  assumes "api_inv s"
  shows "abs_query (api_step s e) = query_step (abs_query s) (abs_event s e)"
proof (cases e)
  case (Settled i r)
  then show ?thesis using abs_settled [OF assms] by blast
next
  case (Rerender p)
  have "ap_cleanup ((cleanup_effect s)\<lparr>ap_path := p\<rparr>) = None" by (simp add: abs_cleanup)
  moreover have "abs_query ((cleanup_effect s)\<lparr>ap_path := p\<rparr>) = (abs_query s)\<lparr>q_waiting := False, q_path := p\<rparr>"
    using abs_cleanup(1) [of s] by (simp add: abs_query_def waiting_def abs_cleanup(2))
  ultimately show ?thesis using Rerender by (simp add: abs_ask)
next
  case Reload
  have "ap_path (cleanup_effect s) = ap_path s" by (simp add: cleanup_effect_def split: option.splits)
  moreover have "abs_query ((cleanup_effect s)\<lparr>ap_nonce := n\<rparr>) = (abs_query s)\<lparr>q_waiting := False\<rparr>" for n
    using abs_cleanup(1) [of s] by (simp add: abs_query_def waiting_def abs_cleanup(2))
  ultimately show ?thesis using Reload by (simp add: abs_ask abs_cleanup(2))
next
  case Unmount
  then show ?thesis using abs_cleanup [of s] by (simp add: abs_query_def waiting_def)
qed

lemma abs_run:
  "api_inv s \<Longrightarrow> abs_query (foldl api_step s es) = foldl query_step (abs_query s) (abs_events s es)"
proof (induction es arbitrary: s)
  case (Cons e es)
  then show ?case using Cons.IH [OF api_inv_step [OF Cons.prems]] by (simp add: abs_step del: api_step.simps)
qed simp

lemma abs_init: "abs_query (useApi p) = query_init p"
  by (cases p) (simp_all add: useApi_def run_effect_def abs_query_def query_init_def waiting_def)

section \<open>Properties\<close>

text \<open>
  C22. \<open>useApi\<close> refines the single-slot machine: every run of the hook, with its growing collection
  of requests, each with the variable its closures share, shows at each moment what the machine
  with one slot shows, an answer being shown exactly if it fills the slot that waits for it.
\<close>

theorem useApi_refines_query:
  "abs_query (foldl api_step (useApi p) es) = foldl query_step (query_init p) (abs_events (useApi p) es)"
  by (simp add: abs_run api_inv_useApi abs_init)

end
