(* ===== verification/Ui.thy ===== *)
theory Ui
  imports Hooks
begin

text \<open>
  The shared primitives, \<open>web/src/components/ui.tsx\<close>: one view function per component. A
  handler the caller passes is the message it sends.
\<close>

section \<open>Buttons\<close>

datatype button_variant = Primary | Elevated | Ghost | Danger

datatype button_size = SizeS | SizeM

fun variant_class :: "button_variant \<Rightarrow> string" where
  "variant_class Primary =
     ''bg-[var(--button-primary)] text-on-brand hover:bg-[var(--button-primary-hover)]''"
| "variant_class Elevated =
     ''bg-[var(--button-elevated)] text-primary border border-line-2 hover:bg-[var(--button-elevated-hover)]''"
| "variant_class Ghost =
     ''bg-[var(--button-ghost-fill)] text-brand-text border border-[var(--button-ghost-border)] hover:bg-[var(--button-ghost-hover)]''"
| "variant_class Danger = ''bg-error text-white hover:opacity-90''"

fun size_class :: "button_size \<Rightarrow> string" where
  "size_class SizeS = ''h-[var(--control-s)] px-3 text-[length:var(--font-s)]''"
| "size_class SizeM = ''h-[var(--control-m)] px-4 text-[length:var(--font-sp)]''"

definition Button :: "button_variant \<Rightarrow> button_size \<Rightarrow> 'm attr list \<Rightarrow> 'm node list \<Rightarrow> 'm node" where
  "Button variant sz props children =
     Elem ''button'' ([cls (join '' '' [variant_class variant, size_class sz])] @ props) children"

definition IconButton :: "string \<Rightarrow> string \<Rightarrow> 'm attr list \<Rightarrow> 'm node list \<Rightarrow> 'm node" where
  "IconButton label className props children =
     Elem ''button''
       ([Attr ''aria-label'' label, Attr ''title'' label, cls className] @ props) children"

definition svg :: "string \<Rightarrow> 'm node" where
  "svg d = Elem ''svg'' [Attr ''aria-hidden'' ''true''] [Elem ''path'' [Attr ''d'' d] []]"

section \<open>Badges and dots\<close>

datatype tone = Success | Warning | Failing | Info | Neutral

fun tone_class :: "tone \<Rightarrow> string" where
  "tone_class Success = ''bg-success-soft text-success''"
| "tone_class Warning = ''bg-warning-soft text-warning''"
| "tone_class Failing = ''bg-error-soft text-error''"
| "tone_class Info = ''bg-info-soft text-info''"
| "tone_class Neutral = ''bg-[var(--interactive-hover)] text-secondary''"

fun dot_class :: "tone \<Rightarrow> string" where
  "dot_class Success = ''bg-success''"
| "dot_class Warning = ''bg-warning''"
| "dot_class Failing = ''bg-error''"
| "dot_class Info = ''bg-info''"
| "dot_class Neutral = ''bg-caption''"

definition Badge :: "tone \<Rightarrow> 'm node list \<Rightarrow> 'm node" where
  "Badge t children = Elem ''span'' [cls (tone_class t)] children"

definition StatusDot :: "tone \<Rightarrow> 'm node" where
  "StatusDot t = Elem ''span'' [] [Elem ''span'' [cls (''block h-full w-full '' @ dot_class t)] []]"

section \<open>Page furniture\<close>

definition PageHeader :: "string \<Rightarrow> 'm node option \<Rightarrow> 'm node" where
  "PageHeader title actions =
     Elem ''div'' []
       [Elem ''h1'' [] [Text title],
        (case actions of None \<Rightarrow> nothing | Some a \<Rightarrow> Elem ''div'' [] [a])]"

definition StatCard :: "string \<Rightarrow> 'm node \<Rightarrow> string option \<Rightarrow> tone option \<Rightarrow> 'm node" where
  \<comment> \<open>a hint that is the empty string renders nothing\<close>
  "StatCard label v hint t =
     Elem ''div'' []
       [Elem ''div'' [] [(case t of None \<Rightarrow> nothing | Some t \<Rightarrow> StatusDot t), Text label],
        Elem ''div'' [] [v],
        (case hint of None \<Rightarrow> nothing
         | Some h \<Rightarrow> show_if (h \<noteq> []) (Elem ''div'' [] [Text h]))]"

definition Modal :: "bool \<Rightarrow> string \<Rightarrow> 'm \<Rightarrow> bool \<Rightarrow> 'm node list \<Rightarrow> 'm node" where
  "Modal is_open title onClose wide children =
     (if \<not> is_open then nothing
      else Elem ''div''
        [Attr ''role'' ''dialog'', Attr ''aria-modal'' ''true'', Attr ''aria-label'' title]
        [Elem ''div'' [on_click onClose, Attr ''aria-hidden'' ''true''] [],
         Elem ''div'' [cls (if wide then ''max-w-[560px]'' else ''max-w-[420px]'')]
           ([Elem ''div'' []
               [Elem ''h2'' [] [Text title],
                IconButton ''Close'' [] [on_click onClose] [svg ''M6 6l12 12M18 6 6 18'']]]
            @ children)])"

definition Tabs :: "('k \<times> string) list \<Rightarrow> 'k \<Rightarrow> ('k \<Rightarrow> 'm) \<Rightarrow> 'm node" where
  "Tabs tabs v onChange =
     Elem ''div'' [Attr ''role'' ''tablist'']
       (List.map (\<lambda>(k, label).
          Elem ''button''
            [Attr ''role'' ''tab'',
             Attr ''aria-selected'' (if v = k then ''true'' else ''false''),
             on_click (onChange k),
             cls (if v = k then ''bg-surface-1 text-primary shadow-card''
                  else ''text-secondary hover:text-primary'')]
            [Text label]) tabs)"

definition Toggle :: "bool \<Rightarrow> (bool \<Rightarrow> 'm) \<Rightarrow> string \<Rightarrow> 'm node" where
  "Toggle checked onChange label =
     Elem ''button''
       [Attr ''type'' ''button'', Attr ''role'' ''switch'',
        Attr ''aria-checked'' (if checked then ''true'' else ''false''),
        Attr ''aria-label'' label, on_click (onChange (\<not> checked)),
        cls (if checked then ''bg-brand'' else ''bg-line-3'')]
       [Elem ''span'' [cls (if checked then ''translate-x-4'' else ''translate-x-0'')] []]"

definition FormInput :: "string \<Rightarrow> string option \<Rightarrow> 'm attr list \<Rightarrow> 'm node" where
  "FormInput label hint props =
     Elem ''label'' []
       [Elem ''span'' [] [Text label], Elem ''input'' props [],
        (case hint of None \<Rightarrow> nothing
         | Some h \<Rightarrow> show_if (h \<noteq> []) (Elem ''span'' [] [Text h]))]"

definition EmptyState :: "string \<Rightarrow> 'm node" where
  "EmptyState label =
     Elem ''div'' []
       [Elem ''div'' [] [svg ''M4 7h16M4 12h16M4 17h10''], Elem ''p'' [] [Text label]]"

definition Spinner :: "string option \<Rightarrow> 'm node" where
  "Spinner label =
     Elem ''div'' []
       [Elem ''div'' [] [],
        (case label of None \<Rightarrow> nothing
         | Some l \<Rightarrow> show_if (l \<noteq> []) (Elem ''span'' [] [Text l]))]"

definition ErrorNote :: "string \<Rightarrow> 'm node" where
  "ErrorNote message = Elem ''p'' [Attr ''role'' ''alert''] [Text message]"

definition alert_line :: "string option \<Rightarrow> 'm node" where
  \<comment> \<open>\<open>{error && <p role="alert">{error}</p>}\<close>, as the pages write it\<close>
  "alert_line err =
     (case err of None \<Rightarrow> nothing
      | Some e \<Rightarrow> show_if (e \<noteq> []) (Elem ''p'' [Attr ''role'' ''alert''] [Text e]))"

section \<open>Lemmas\<close>

lemmas ui_defs = Button_def IconButton_def Badge_def StatusDot_def PageHeader_def StatCard_def
  Toggle_def FormInput_def EmptyState_def Spinner_def svg_def alert_line_def cls_def on_click_def

lemma own_clicks_simps [simp]:
  "own_clicks [] = []"
  "own_clicks (OnClick b (Some m) # as) = m # own_clicks as"
  "own_clicks (OnClick b None # as) = own_clicks as"
  "own_clicks (Attr n v # as) = own_clicks as"
  "own_clicks (Flag n c # as) = own_clicks as"
  "own_clicks (OnInput g # as) = own_clicks as"
  "own_clicks (OnCheck h # as) = own_clicks as"
  "own_clicks (OnSubmit m # as) = own_clicks as"
  by (simp_all add: own_clicks_def)

lemma clicks_show_if [simp]: "clicks (show_if c n) = (if c then clicks n else [])"
  by (simp add: show_if_def)

lemma clicks_Modal [simp]:
  "clicks (Modal is_open title onClose wide children) =
     (if is_open then onClose # onClose # concat (List.map clicks children) else [])"
  by (simp add: Modal_def ui_defs)

lemma clicks_Tabs [simp]: "clicks (Tabs tabs v onChange) = List.map (onChange \<circ> fst) tabs"
proof -
  have "concat (List.map (\<lambda>x. case x of (k, label) \<Rightarrow> [onChange k]) tabs) = List.map (onChange \<circ> fst) tabs"
    by (induction tabs) auto
  then show ?thesis by (simp add: Tabs_def ui_defs o_def split_def)
qed

lemma Tabs_selected:
  "distinct (List.map fst tabs) \<Longrightarrow> v \<in> fst ` set tabs \<Longrightarrow>
     count_list (attr_values ''aria-selected'' (Tabs tabs v onChange)) ''true'' = 1"
proof -
  have "attr_values ''aria-selected'' (Tabs tabs v onChange) =
          List.map (\<lambda>t. if v = fst t then ''true'' else ''false'') tabs"
    by (simp add: Tabs_def ui_defs o_def split_def)
  moreover have "distinct (List.map fst tabs) \<Longrightarrow>
      count_list (List.map (\<lambda>t. if v = fst t then ''true'' else ''false'') tabs) ''true''
        = (if v \<in> fst ` set tabs then 1 else 0)"
    by (induction tabs) auto
  ultimately show "distinct (List.map fst tabs) \<Longrightarrow> v \<in> fst ` set tabs \<Longrightarrow> ?thesis" by simp
qed

end
