(* ===== verification/DataTable.thy ===== *)
theory DataTable
  imports Ui
begin

text \<open>
  The sortable table, \<open>web/src/components/DataTable.tsx\<close>: its sort state, the comparison it
  sorts with, and its view. A column sorts by a string or a number, or not at all. The sort is
  stable, as ECMA-262 requires of \<open>Array.prototype.sort\<close>. Strings compare bytewise.
\<close>

section \<open>Columns and the comparison\<close>

datatype sort_value = SNum jsnum | SStr string

record ('r, 'm) column =
  col_key :: string
  col_header :: string
  col_render :: "'r \<Rightarrow> 'm node"
  col_sort :: "('r \<Rightarrow> sort_value) option"
  col_right :: bool \<comment> \<open>\<open>align === "right"\<close>\<close>

definition column :: "string \<Rightarrow> string \<Rightarrow> ('r \<Rightarrow> 'm node) \<Rightarrow> ('r, 'm) column" where
  \<comment> \<open>a column with the mandatory members only\<close>
  "column key header render =
     \<lparr>col_key = key, col_header = header, col_render = render, col_sort = None, col_right = False\<rparr>"

fun value_eq :: "sort_value \<Rightarrow> sort_value \<Rightarrow> bool" where
  \<comment> \<open>\<open>===\<close>\<close>
  "value_eq (SNum a) (SNum b) = (a = b \<and> a \<noteq> NaN)"
| "value_eq (SStr a) (SStr b) = (a = b)"
| "value_eq _ _ = False"

fun value_lt :: "sort_value \<Rightarrow> sort_value \<Rightarrow> bool" where
  \<comment> \<open>\<open><\<close> on two values of one column\<close>
  "value_lt (SNum a) (SNum b) = js_lt a b"
| "value_lt (SStr a) (SStr b) = str_lt a b"
| "value_lt _ _ = False"

datatype direction = Asc | Desc

fun dir_sign :: "direction \<Rightarrow> int" where
  "dir_sign Asc = 1"
| "dir_sign Desc = -1"

definition compare_rows :: "('r \<Rightarrow> sort_value) \<Rightarrow> direction \<Rightarrow> 'r \<Rightarrow> 'r \<Rightarrow> int" where
  "compare_rows val dir a b =
     (let av = val a; bv = val b
      in if value_eq av bv then 0 else (if value_lt av bv then - 1 else 1) * dir_sign dir)"

section \<open>The stable sort\<close>

primrec insert_row :: "('r \<Rightarrow> 'r \<Rightarrow> int) \<Rightarrow> 'r \<Rightarrow> 'r list \<Rightarrow> 'r list" where
  "insert_row cmp x [] = [x]"
| "insert_row cmp x (y # ys) = (if cmp x y \<le> 0 then x # y # ys else y # insert_row cmp x ys)"

definition js_sort :: "('r \<Rightarrow> 'r \<Rightarrow> int) \<Rightarrow> 'r list \<Rightarrow> 'r list" where
  "js_sort cmp xs = foldr (insert_row cmp) xs []"

lemma insert_row_mset: "mset (insert_row cmp x xs) = add_mset x (mset xs)"
  by (induction xs) auto

lemma insert_row_set: "set (insert_row cmp x xs) = insert x (set xs)"
  by (induction xs) auto

lemma js_sort_mset: "mset (js_sort cmp xs) = mset xs"
  by (induction xs) (simp_all add: js_sort_def insert_row_mset)

text \<open>
  What a comparison promises: it is a consistent comparator in the sense of ECMA-262, so the
  sorted order and the order among equals are determined.
\<close>

locale comparator =
  fixes cmp :: "'r \<Rightarrow> 'r \<Rightarrow> int"
  assumes cmp_flip: "cmp x y < 0 \<longleftrightarrow> 0 < cmp y x"
    and cmp_trans: "cmp x y \<le> 0 \<Longrightarrow> cmp y z \<le> 0 \<Longrightarrow> cmp x z \<le> 0"
begin

lemma cmp_total: "cmp x y \<le> 0 \<or> cmp y x \<le> 0"
  using cmp_flip [of x y] cmp_flip [of y x] by linarith

lemma cmp_refl: "cmp x x = 0"
  using cmp_flip [of x x] by linarith

lemma cmp_zero_flip: "cmp x y = 0 \<longleftrightarrow> cmp y x = 0"
  using cmp_flip [of x y] cmp_flip [of y x] by linarith

lemma sorted_insert_row:
  "sorted_wrt (\<lambda>a b. cmp a b \<le> 0) xs \<Longrightarrow> sorted_wrt (\<lambda>a b. cmp a b \<le> 0) (insert_row cmp x xs)"
proof (induction xs)
  case (Cons y ys)
  then show ?case using cmp_total [of x y] cmp_trans [of x y] by (auto simp: insert_row_set)
qed simp

lemma sorted_js_sort: "sorted_wrt (\<lambda>a b. cmp a b \<le> 0) (js_sort cmp xs)"
  by (induction xs) (simp_all add: js_sort_def sorted_insert_row)

lemma filter_insert_row:
  "List.filter (\<lambda>y. cmp a y = 0) (insert_row cmp x xs) = List.filter (\<lambda>y. cmp a y = 0) (x # xs)"
proof (induction xs)
  case (Cons y ys)
  show ?case
  proof (cases "cmp x y \<le> 0")
    case False
    have "\<not> (cmp a x = 0 \<and> cmp a y = 0)"
    proof
      assume a: "cmp a x = 0 \<and> cmp a y = 0"
      then have "cmp x a = 0" using cmp_zero_flip by blast
      then show False using cmp_trans [of x a y] a False by simp
    qed
    then show ?thesis using False Cons by auto
  qed simp
qed simp

lemma stable_js_sort: "List.filter (\<lambda>y. cmp a y = 0) (js_sort cmp xs) = List.filter (\<lambda>y. cmp a y = 0) xs"
proof (induction xs)
  case (Cons x xs)
  have "js_sort cmp (x # xs) = insert_row cmp x (js_sort cmp xs)" by (simp add: js_sort_def)
  then show ?case using filter_insert_row Cons by simp
qed (simp add: js_sort_def)

lemma js_sort_sorted_id: "sorted_wrt (\<lambda>a b. cmp a b \<le> 0) xs \<Longrightarrow> js_sort cmp xs = xs"
proof (induction xs)
  case (Cons x xs)
  then show ?case by (cases xs) (simp_all add: js_sort_def)
qed (simp add: js_sort_def)

end

text \<open>
  The comparison of a text column, and of a column of numbers none of which is \<open>NaN\<close>, keeps
  the promise.
\<close>

lemma js_lt_linear: "a \<noteq> NaN \<Longrightarrow> b \<noteq> NaN \<Longrightarrow> js_lt a b \<or> a = b \<or> js_lt b a"
  by (cases a; cases b) auto

lemma js_lt_irrefl: "\<not> js_lt a a"
  by (cases a) auto

lemma js_lt_trans: "js_lt a b \<Longrightarrow> js_lt b c \<Longrightarrow> js_lt a c"
  by (cases a; cases b; cases c) auto

lemma comparatorI:
  assumes eq: "\<And>x y. value_eq (val x) (val y) \<longleftrightarrow> val x = val y"
    and linear: "\<And>x y. value_lt (val x) (val y) \<or> val x = val y \<or> value_lt (val y) (val x)"
    and irrefl: "\<And>x. \<not> value_lt (val x) (val x)"
    and trans: "\<And>x y z. value_lt (val x) (val y) \<Longrightarrow> value_lt (val y) (val z) \<Longrightarrow> value_lt (val x) (val z)"
  shows "comparator (compare_rows val dir)"
proof
  have asym: "value_lt (val x) (val y) \<Longrightarrow> \<not> value_lt (val y) (val x)" for x y
    using trans [of x y x] irrefl [of x] by blast
  have c: "compare_rows val dir x y =
      (if val x = val y then 0 else (if value_lt (val x) (val y) then - 1 else 1) * dir_sign dir)" for x y
    by (simp add: compare_rows_def Let_def eq)
  have le: "compare_rows val dir x y \<le> 0 \<longleftrightarrow>
      (if dir = Asc then \<not> value_lt (val y) (val x) else \<not> value_lt (val x) (val y))" for x y
    unfolding c using linear [of x y] irrefl [of x] asym [of x y]
    by (cases dir; cases "val x = val y") auto
  show "compare_rows val dir x y < 0 \<longleftrightarrow> 0 < compare_rows val dir y x" for x y
    unfolding c using linear [of x y] asym [of x y] by (cases dir; cases "val x = val y") auto
  have up: "\<not> value_lt (val y) (val x) \<Longrightarrow> \<not> value_lt (val z) (val y) \<Longrightarrow> \<not> value_lt (val z) (val x)" for x y z
    using linear [of x y] trans [of z x y] by metis
  show "compare_rows val dir x z \<le> 0"
    if "compare_rows val dir x y \<le> 0" "compare_rows val dir y z \<le> 0" for x y z
    using that up [of y x z] up [of y z x] unfolding le by (simp split: if_splits)
qed

lemma text_comparator: "comparator (compare_rows (\<lambda>r. SStr (f r)) dir)"
  by (rule comparatorI) (auto simp: str_lt_irrefl dest: str_lt_linear intro: str_lt_trans)

lemma number_comparator: "(\<And>r. f r \<noteq> NaN) \<Longrightarrow> comparator (compare_rows (\<lambda>r. SNum (f r)) dir)"
  by (rule comparatorI) (auto simp: js_lt_irrefl js_lt_linear intro: js_lt_trans)

text \<open>What such a comparison decides, whichever of the two kinds the column has.\<close>

abbreviation sortable :: "('r \<Rightarrow> sort_value) \<Rightarrow> bool" where
  "sortable val \<equiv> (\<forall>r. \<exists>s. val r = SStr s) \<or> (\<forall>r. \<exists>n. val r = SNum n \<and> n \<noteq> NaN)"

lemma column_comparator: "sortable val \<Longrightarrow> comparator (compare_rows val dir)"
proof (elim disjE)
  assume "\<forall>r. \<exists>s. val r = SStr s"
  then obtain f where "val = (\<lambda>r. SStr (f r))" by metis
  then show ?thesis using text_comparator by simp
next
  assume "\<forall>r. \<exists>n. val r = SNum n \<and> n \<noteq> NaN"
  then obtain f where f: "val = (\<lambda>r. SNum (f r))" "\<And>r. f r \<noteq> NaN" by metis
  show ?thesis unfolding f(1) by (rule number_comparator) (rule f(2))
qed

lemma compare_cases:
  assumes "sortable val"
  shows "value_eq (val x) (val y) \<longleftrightarrow> val x = val y"
    "value_lt (val x) (val y) \<or> val x = val y \<or> value_lt (val y) (val x)"
    "value_lt (val x) (val y) \<Longrightarrow> \<not> value_lt (val y) (val x)"
  using assms js_lt_linear str_lt_linear js_lt_trans js_lt_irrefl str_lt_trans str_lt_irrefl
  by (elim disjE; metis value_eq.simps(1,2) value_lt.simps(1,2) sort_value.inject)+

lemma compare_le:
  "sortable val \<Longrightarrow> compare_rows val dir x y \<le> 0 \<longleftrightarrow>
     (if dir = Asc then \<not> value_lt (val y) (val x) else \<not> value_lt (val x) (val y))"
  using compare_cases [of val x y] by (cases dir; cases "val x = val y") (auto simp: compare_rows_def Let_def)

lemma compare_zero: "sortable val \<Longrightarrow> compare_rows val dir x y = 0 \<longleftrightarrow> val x = val y"
  using compare_cases [of val x y] by (cases dir) (auto simp: compare_rows_def Let_def)

interpretation text_column: comparator "compare_rows (\<lambda>r. SStr (f r)) dir" for f dir
  by (rule text_comparator)

interpretation int_column: comparator "compare_rows (\<lambda>r. SNum (jint (g r))) dir" for g dir
  by (rule number_comparator) (simp add: jint_def num_def Let_def)

section \<open>The component\<close>

type_synonym sort_state = "(string \<times> direction) option"

definition toggleSort :: "string \<Rightarrow> sort_state \<Rightarrow> sort_state" where
  "toggleSort key s =
     (case s of
        Some (k, d) \<Rightarrow>
          if k = key then (if d = Asc then Some (key, Desc) else None) else Some (key, Asc)
      | None \<Rightarrow> Some (key, Asc))"

definition sorted_rows :: "('r, 'm) column list \<Rightarrow> 'r list \<Rightarrow> sort_state \<Rightarrow> 'r list" where
  "sorted_rows columns rows sorting =
     (case sorting of
        None \<Rightarrow> rows
      | Some (key, dir) \<Rightarrow>
          (case Option.bind (List.find (\<lambda>c. col_key c = key) columns) col_sort of
             None \<Rightarrow> rows
           | Some val \<Rightarrow> js_sort (compare_rows val dir) rows))"

datatype 'm table_msg = SortBy string | FromTable 'm

definition sorted_by :: "sort_state \<Rightarrow> string \<Rightarrow> direction option" where
  "sorted_by sorting key =
     (case sorting of Some (k, d) \<Rightarrow> if k = key then Some d else None | None \<Rightarrow> None)"

definition header_cell :: "sort_state \<Rightarrow> ('r, 'm) column \<Rightarrow> 'm table_msg node" where
  "header_cell sorting col =
     Elem ''th''
       ([cls (join '' '' [if col_right col then ''text-right'' else ''text-left'',
                          if col_sort col \<noteq> None
                          then ''cursor-pointer select-none hover:text-secondary'' else []])]
        @ (if col_sort col \<noteq> None then [on_click (SortBy (col_key col))] else [])
        @ (case sorted_by sorting (col_key col) of
             None \<Rightarrow> []
           | Some d \<Rightarrow> [Attr ''aria-sort'' (if d = Asc then ''ascending'' else ''descending'')]))
       [Text (col_header col),
        (case sorted_by sorting (col_key col) of
           None \<Rightarrow> nothing
         | Some d \<Rightarrow> Elem ''span'' [Attr ''aria-hidden'' ''true'']
                      [Text (if d = Asc then up_arrow else down_arrow)])]"

definition body_row ::
  "('r, 'm) column list \<Rightarrow> ('r \<Rightarrow> 'm) option \<Rightarrow> 'r \<Rightarrow> 'm table_msg node" where
  "body_row columns onRowClick row =
     Elem ''tr''
       ((case onRowClick of None \<Rightarrow> [] | Some f \<Rightarrow> [on_click (FromTable (f row))])
        @ [cls (if onRowClick \<noteq> None
                then ''cursor-pointer hover:bg-[var(--interactive-hover)]'' else [])])
       (List.map (\<lambda>col.
          Elem ''td'' [cls (if col_right col then ''text-right'' else ''text-left'')]
            [map_node FromTable (col_render col row)]) columns)"

definition DataTable ::
  "('r, 'm) column list \<Rightarrow> 'r list \<Rightarrow> bool \<Rightarrow> string \<Rightarrow> ('r \<Rightarrow> 'm) option \<Rightarrow> sort_state
     \<Rightarrow> 'm table_msg node" where
  "DataTable columns rows loading emptyLabel onRowClick sorting =
     (if loading then Spinner None
      else if rows = [] then EmptyState emptyLabel
      else Elem ''div'' []
        [Elem ''table'' []
          [Elem ''thead'' [] [Elem ''tr'' [] (List.map (header_cell sorting) columns)],
           Elem ''tbody'' []
             (List.map (body_row columns onRowClick) (sorted_rows columns rows sorting))]])"

text \<open>How a page embeds a table: sort messages are tagged, the others are the page's own.\<close>

definition table_msg :: "(string \<Rightarrow> 'm) \<Rightarrow> 'm table_msg \<Rightarrow> 'm" where
  "table_msg onSort m = (case m of SortBy k \<Rightarrow> onSort k | FromTable x \<Rightarrow> x)"

lemma sorted_rows_mset: "mset (sorted_rows columns rows sorting) = mset rows"
  by (simp add: sorted_rows_def js_sort_mset split: option.splits)

lemma toggle_three: "toggleSort k (toggleSort k (toggleSort k None)) = None"
  by (simp add: toggleSort_def)

section \<open>Properties\<close>

text \<open>
  C27. Sorting by a column of texts or of numbers shows exactly the given rows, in the order the
  header announces, and rows with equal values keep their relative order.
\<close>

theorem table_sort_correct:
  assumes "List.find (\<lambda>c. col_key c = k) columns = Some c" and "col_sort c = Some val"
    and "(\<forall>r. \<exists>s. val r = SStr s) \<or> (\<forall>r. \<exists>n. val r = SNum n \<and> n \<noteq> NaN)"
  shows "mset (sorted_rows columns rows (Some (k, dir))) = mset rows
    \<and> sorted_wrt (\<lambda>a b. if dir = Asc then \<not> value_lt (val b) (val a) else \<not> value_lt (val a) (val b))
           (sorted_rows columns rows (Some (k, dir)))
    \<and> List.filter (\<lambda>r. val r = val q) (sorted_rows columns rows (Some (k, dir)))
        = List.filter (\<lambda>r. val r = val q) rows"
proof -
  have s: "sorted_rows columns rows (Some (k, dir)) = js_sort (compare_rows val dir) rows"
    using assms(1,2) by (simp add: sorted_rows_def)
  note c = column_comparator [OF assms(3), of dir]
  show ?thesis
    using comparator.sorted_js_sort [OF c, of rows] comparator.stable_js_sort [OF c, of q rows]
    unfolding s compare_le [OF assms(3)] compare_zero [OF assms(3)]
    by (simp add: js_sort_mset eq_commute)
qed

theorem table_sort_correct_witness:
  "List.filter (\<lambda>r. SNum (Fin (fst r)) = SNum (Fin (fst (1, ''q''))))
     (sorted_rows [\<lparr>col_key = ''n'', col_header = ''N'', col_render = (\<lambda>r. Text (snd r) :: unit node),
                    col_sort = Some (\<lambda>r. SNum (Fin (fst r))), col_right = False\<rparr>]
        [(2, ''x''), (1, ''y''), (1, ''z'')] (Some (''n'', Desc))) = [(1, ''y''), (1, ''z'')]"
proof -
  let ?c = "\<lparr>col_key = ''n'', col_header = ''N'', col_render = (\<lambda>r. Text (snd r) :: unit node),
      col_sort = Some (\<lambda>r. SNum (Fin (fst r))), col_right = False\<rparr>"
  have "List.find (\<lambda>c. col_key c = ''n'') [?c] = Some ?c" "col_sort ?c = Some (\<lambda>r. SNum (Fin (fst r)))" by simp_all
  from table_sort_correct [OF this, of "[(2, ''x''), (1, ''y''), (1, ''z'')]" Desc "(1, ''q'')"]
  show ?thesis by simp
qed

text \<open>
  Clicking the header of a sortable column asks to sort by that column, three such clicks
  go through ascending and descending order back to the order the rows were given in, and a
  header without a sort value does nothing.
\<close>

theorem header_click_cycle:
  assumes "rows \<noteq> []" and "i < length columns" and "col_sort (columns ! i) = Some val"
  shows "click_at (DataTable columns rows False label onRow sorting) [0, 0, 0, i]
       = Some [SortBy (col_key (columns ! i))]
    \<and> toggleSort k (toggleSort k (toggleSort k None)) = None
    \<and> sorted_rows columns rows None = rows"
proof -
  have "Ex Not" by auto
  then show ?thesis
    using assms by (simp add: click_at_def DataTable_def header_cell_def ui_defs disabled_def stops_def
        toggleSort_def sorted_rows_def split: option.splits)
qed

theorem header_click_cycle_witness:
  "click_at (DataTable [(column ''name'' ''Name'' Text :: (string, unit) column)\<lparr>col_sort := Some SStr\<rparr>] [''b'', ''a''] False []
     None None) [0, 0, 0, 0] = Some [SortBy ''name'']"
  using header_click_cycle [of "[''b'', ''a'']" 0 "[(column ''name'' ''Name'' Text :: (string, unit) column)\<lparr>col_sort := Some SStr\<rparr>]"
      SStr "[]" None None "[]"]
  by (simp add: column_def)

text \<open>
  A click on a row acts on the row that is displayed there, whatever the table is sorted
  by: the message sent is the one of the row at that position of the sorted list.
\<close>

theorem row_click_hits_shown_row:
  assumes "rows \<noteq> []" and "j < length (sorted_rows columns rows sorting)"
  shows "click_at (DataTable columns rows False label (Some onRow) sorting) [0, 1, j]
       = Some [FromTable (onRow (sorted_rows columns rows sorting ! j))]"
proof -
  have "Ex Not" by auto
  then show ?thesis
    using assms by (simp add: click_at_def DataTable_def body_row_def ui_defs disabled_def stops_def)
qed

theorem row_click_hits_shown_row_witness:
  "click_at (DataTable [(column ''name'' ''Name'' Text :: (string, string) column)\<lparr>col_sort := Some SStr\<rparr>] [''b'', ''a''] False []
     (Some (\<lambda>r. r)) (Some (''name'', Asc))) [0, 1, 0] = Some [FromTable ''a'']"
proof -
  have s: "sorted_rows [(column ''name'' ''Name'' Text :: (string, string) column)\<lparr>col_sort := Some SStr\<rparr>] [''b'', ''a''] (Some (''name'', Asc))
      = [''a'', ''b'']" by code_simp
  show ?thesis
    using row_click_hits_shown_row [of "[''b'', ''a'']" 0 "[(column ''name'' ''Name'' Text :: (string, string) column)\<lparr>col_sort := Some SStr\<rparr>]"
        "Some (''name'', Asc)" "[]" "\<lambda>r. r"] by (simp add: s)
qed

end
