(* ===== verification/LogsPage.thy ===== *)
theory LogsPage
  imports DataTable
begin

text \<open>
  The logs page, \<open>web/src/pages/Logs.tsx\<close>: the audit trail with its action filter and cursor,
  and the tail of the engine log. The two \<open>useApi\<close> hooks get their paths from the page state at
  every render. The handler that serves the trail, \<open>internal/api/audit_handlers.go\<close>, and its
  query, \<open>internal/store/sqlite/audit.go\<close>, are modelled on a table of entries, so that walking
  through the pages can be compared with the whole trail.
\<close>

section \<open>State and operations\<close>

datatype logs_tab = AuditTab | EngineTab

definition AUDIT_PAGE :: nat where
  "AUDIT_PAGE = 50"

record logs_page =
  lo_tab :: logs_tab
  lo_action :: string
  lo_beforeId :: "int option"
  lo_autoRefresh :: bool
  lo_audit :: "audit_entry list api_state"
  lo_engine :: "string list api_state"
  lo_sort :: sort_state \<comment> \<open>of the audit table while it is mounted\<close>

definition audit_query :: "string \<Rightarrow> int option \<Rightarrow> string" where
  "audit_query action beforeId =
     (let p0 = [(''limit'', js_String (jint (int AUDIT_PAGE)))];
          p1 = (if action \<noteq> [] then params_set p0 ''action'' action else p0);
          p2 = (case beforeId of None \<Rightarrow> p1 | Some i \<Rightarrow> params_set p1 ''before_id'' (js_String (jint i)))
      in params_string p2)"

definition audit_path :: "logs_page \<Rightarrow> string option" where
  "audit_path s =
     (if lo_tab s = AuditTab
      then Some (''/api/v1/audit-logs?'' @ audit_query (lo_action s) (lo_beforeId s)) else None)"

definition engine_path :: "logs_page \<Rightarrow> string option" where
  "engine_path s = (if lo_tab s = EngineTab then Some ''/api/v1/logs/engine?limit=200'' else None)"

definition rerender_logs :: "logs_page \<Rightarrow> logs_page" where
  \<comment> \<open>a render after a state change: the hooks see their new paths, an unmounted table forgets its sort\<close>
  "rerender_logs s =
     s\<lparr>lo_audit := api_step (lo_audit s) (Rerender (audit_path s)),
       lo_engine := api_step (lo_engine s) (Rerender (engine_path s)),
       lo_sort := (if lo_tab s = AuditTab then lo_sort s else None)\<rparr>"

definition Logs_init :: logs_page where
  "Logs_init =
     \<lparr>lo_tab = AuditTab, lo_action = [], lo_beforeId = None, lo_autoRefresh = True,
      lo_audit = useApi (Some (''/api/v1/audit-logs?'' @ audit_query [] None)),
      lo_engine = useApi None, lo_sort = None\<rparr>"

definition entries_of :: "logs_page \<Rightarrow> audit_entry list" where
  "entries_of s = coalesce (ap_data (lo_audit s)) []"

definition olderAvailable :: "logs_page \<Rightarrow> bool" where
  "olderAvailable s = (length (entries_of s) = AUDIT_PAGE)"

datatype logs_msg =
    SetTab logs_tab
  | SetAction string
  | Latest
  | SetAutoRefresh bool
  | Older
  | SortLogs string

fun logs_update :: "logs_msg \<Rightarrow> logs_page \<Rightarrow> logs_page" where
  "logs_update (SetTab t) s = rerender_logs (s\<lparr>lo_tab := t\<rparr>)"
| "logs_update (SetAction a) s = rerender_logs (s\<lparr>lo_action := a, lo_beforeId := None\<rparr>)"
| "logs_update Latest s = rerender_logs (s\<lparr>lo_beforeId := None\<rparr>)"
| "logs_update (SetAutoRefresh b) s = s\<lparr>lo_autoRefresh := b\<rparr>"
| "logs_update Older s =
     (if olderAvailable s
      then rerender_logs (s\<lparr>lo_beforeId := Some (ae_id (last (entries_of s)))\<rparr>) else s)"
| "logs_update (SortLogs k) s = s\<lparr>lo_sort := toggleSort k (lo_sort s)\<rparr>"

definition logs_refresh :: "logs_page \<Rightarrow> logs_page" where
  \<comment> \<open>the callback of the ten-second interval\<close>
  "logs_refresh s =
     (if lo_autoRefresh s then
        let s1 = (if lo_tab s = AuditTab \<and> lo_beforeId s = None then s\<lparr>lo_audit := reload (lo_audit s)\<rparr> else s)
        in if lo_tab s = EngineTab then s1\<lparr>lo_engine := reload (lo_engine s1)\<rparr> else s1
      else s)"

datatype logs_event =
    LogsMsg logs_msg
  | LogsTimer bool \<comment> \<open>with \<open>document.hidden\<close>\<close>
  | AuditSettled nat "failure + audit_entry list option"
  | EngineSettled nat "failure + string list option"

fun logs_step :: "logs_page \<Rightarrow> logs_event \<Rightarrow> logs_page" where
  "logs_step s (LogsMsg m) = logs_update m s"
| "logs_step s (LogsTimer hidden) = useInterval logs_refresh hidden s"
| "logs_step s (AuditSettled i r) = s\<lparr>lo_audit := api_step (lo_audit s) (Settled i r)\<rparr>"
| "logs_step s (EngineSettled i r) = s\<lparr>lo_engine := api_step (lo_engine s) (Settled i r)\<rparr>"

section \<open>The view\<close>

definition auditColumns :: "env \<Rightarrow> (audit_entry, logs_msg) column list" where
  "auditColumns e =
     [(column ''time'' ''Time'' (\<lambda>r. Elem ''span'' [] [Text (formatDateTime e (Some (ae_timestamp r)))]))
        \<lparr>col_sort := Some (\<lambda>r. SStr (ae_timestamp r))\<rparr>,
      column ''actor'' ''Actor'' (\<lambda>r. Text (ae_actor r)),
      (column ''action'' ''Action'' (\<lambda>r. Elem ''span'' [] [Text (ae_action r)]))
        \<lparr>col_sort := Some (\<lambda>r. SStr (ae_action r))\<rparr>,
      column ''target'' ''Target''
        (\<lambda>r. if ae_target r \<noteq> [] then Text (ae_target r) else Elem ''span'' [] [Text mdash]),
      column ''result'' ''Result''
        (\<lambda>r. if ae_result r = ''success'' then Badge Success [Text ''ok''] else Badge Failing [Text ''failure'']),
      column ''source'' ''Source'' (\<lambda>r. Elem ''span'' [] [Text (ae_source_ip r)]),
      column ''detail'' ''Detail''
        (\<lambda>r. Elem ''span'' [] [Text (if ae_detail r \<noteq> [] then ae_detail r else mdash)])]"

definition Logs :: "env \<Rightarrow> logs_page \<Rightarrow> logs_msg node" where
  "Logs e s = Frag
     [PageHeader ''Logs''
        (Some (Tabs [(AuditTab, ''Audit trail''), (EngineTab, ''Proxy log'')] (lo_tab s) SetTab)),
      show_if (lo_tab s = AuditTab) (Frag
        [Elem ''div'' []
          [Elem ''input''
             [Attr ''type'' ''search'',
              Attr ''placeholder'' (''Filter by action '' @ mdash @ '' e.g. user.create''),
              Attr ''value'' (lo_action s), OnInput SetAction] [],
           show_if (lo_beforeId s \<noteq> None)
             (Button Elevated SizeS [on_click Latest] [Text (left_arrow @ '' Latest'')]),
           Elem ''label'' []
             [Elem ''input'' [Attr ''type'' ''checkbox'', Flag ''checked'' (lo_autoRefresh s), OnCheck SetAutoRefresh] [],
              Text ''Auto-refresh'']],
         map_node (table_msg SortLogs)
           (DataTable (auditColumns e) (entries_of s) (ap_loading (lo_audit s))
              (if lo_action s \<noteq> [] then ''No entries for '' @ lo_action s else ''No audit entries'')
              None (lo_sort s)),
         show_if (olderAvailable s)
           (Elem ''div'' [] [Button Elevated SizeS [on_click Older] [Text (''Older '' @ right_arrow)]])]),
      show_if (lo_tab s = EngineTab)
        (let ls = coalesce (ap_data (lo_engine s)) [] in
         Elem ''div'' []
          [if ap_loading (lo_engine s) then Elem ''p'' [] [Text (''Loading'' @ ellipsis)]
           else if ls = [] then
             Elem ''p'' [] [Text ''No traffic log available (engine not running or logging disabled).'']
           else Elem ''pre'' [] [Text (join ''\<newline>'' ls)]])]"

section \<open>The server side of the trail\<close>

definition atoi :: "string \<Rightarrow> int option" where
  \<comment> \<open>\<open>strconv.Atoi\<close> and \<open>ParseInt\<close> on 64 bits\<close>
  "atoi s =
     (let (neg, ds) = (case s of c # r \<Rightarrow> if c = CHR ''-'' then (True, r) else if c = CHR ''+'' then (False, r) else (False, s)
                       | [] \<Rightarrow> (False, s));
          n = (if neg then - digits_val ds else digits_val ds)
      in if ds \<noteq> [] \<and> list_all is_digit ds \<and> - (2 ^ 63) \<le> n \<and> n < 2 ^ 63 then Some n else None)"

definition audit_rows :: "audit_entry list \<Rightarrow> string \<Rightarrow> int \<Rightarrow> audit_entry list" where
  \<comment> \<open>\<open>WHERE action = ? AND id < ? ORDER BY id DESC\<close>, each condition only when given\<close>
  "audit_rows table action beforeId =
     rev (sort_key ae_id
       (filter (\<lambda>r. (action = [] \<or> ae_action r = action) \<and> (beforeId \<le> 0 \<or> ae_id r < beforeId)) table))"

definition audit_list :: "audit_entry list \<Rightarrow> string \<Rightarrow> int \<Rightarrow> int \<Rightarrow> audit_entry list" where
  "audit_list table action beforeId limit =
     take (nat (if limit \<le> 0 \<or> 500 < limit then 100 else limit)) (audit_rows table action beforeId)"

definition optional_param :: "(string \<times> string) list \<Rightarrow> string \<Rightarrow> int \<Rightarrow> (int \<Rightarrow> bool) \<Rightarrow> int option" where
  "optional_param ps name def ok =
     (let v = coalesce (params_get ps name) []
      in if v = [] then Some def
         else case atoi v of None \<Rightarrow> None | Some n \<Rightarrow> if ok n then Some n else None)"

definition handleAuditList :: "audit_entry list \<Rightarrow> (string \<times> string) list \<Rightarrow> (nat \<times> string) + audit_entry list" where
  \<comment> \<open>an error status with its message, or the entries\<close>
  "handleAuditList table ps =
     (case optional_param ps ''limit'' 100 (\<lambda>n. 1 \<le> n \<and> n \<le> 200) of
        None \<Rightarrow> Inl (400, ''limit must be an integer between 1 and 200'')
      | Some limit \<Rightarrow>
          (case optional_param ps ''before_id'' 0 (\<lambda>n. 1 \<le> n) of
             None \<Rightarrow> Inl (400, ''before_id must be a positive integer'')
           | Some beforeId \<Rightarrow> Inr (audit_list table (coalesce (params_get ps ''action'') []) beforeId limit)))"

text \<open>Walking from one page to the next older one, as far as the page offers it.\<close>

definition audit_page :: "audit_entry list \<Rightarrow> string \<Rightarrow> int option \<Rightarrow> audit_entry list" where
  "audit_page table action beforeId =
     (case handleAuditList table (searchParams (audit_query action beforeId)) of
        Inl _ \<Rightarrow> [] | Inr rs \<Rightarrow> rs)"

fun walk_older :: "nat \<Rightarrow> audit_entry list \<Rightarrow> string \<Rightarrow> int option \<Rightarrow> audit_entry list list" where
  "walk_older 0 table action b = []"
| "walk_older (Suc n) table action b =
     (let rs = audit_page table action b
      in rs # (if length rs = AUDIT_PAGE then walk_older n table action (Some (ae_id (last rs))) else []))"

section \<open>Lemmas\<close>

lemma query_params:
  "searchParams (audit_query action b) =
     (''limit'', js_String (jint (int AUDIT_PAGE)))
     # (if action \<noteq> [] then [(''action'', action)] else [])
     @ (case b of None \<Rightarrow> [] | Some i \<Rightarrow> [(''before_id'', js_String (jint i))])"
  by (simp add: audit_query_def searchParams_params_string Let_def split: option.splits)

lemma page_size_text: "js_String (jint (int AUDIT_PAGE)) = ''50''"
  unfolding AUDIT_PAGE_def by code_simp

lemma atoi_digits:
  assumes "0 \<le> n" "n < 2 ^ 63"
  shows "atoi (digits n) = Some n"
proof -
  obtain c r where cr: "digits n = c # r" using digits_nonempty [of n] by (cases "digits n") auto
  have d: "list_all is_digit (digits n)" using digits_are_digits [OF assms(1)] by (simp add: list_all_iff)
  then have "c \<noteq> CHR ''-''" "c \<noteq> CHR ''+''" by (auto simp: cr is_digit_def)
  then have "atoi (digits n) = (let n' = digits_val (digits n) in
      if digits n \<noteq> [] \<and> list_all is_digit (digits n) \<and> - (2 ^ 63) \<le> n' \<and> n' < 2 ^ 63 then Some n' else None)"
    by (simp add: atoi_def cr Let_def)
  then show ?thesis using assms d by (simp add: digits_val_digits)
qed

lemma audit_page_rows:
  assumes "case b of None \<Rightarrow> True | Some i \<Rightarrow> 0 < i \<and> i < 10 ^ 15"
  shows "audit_page table action b = take 50 (audit_rows table action (coalesce b 0))"
proof -
  have l: "atoi ''50'' = Some 50" by code_simp
  have i: "js_String (jint i) \<noteq> [] \<and> atoi (js_String (jint i)) = Some i" if "0 < i" "i < 10 ^ 15" for i
    using that js_String_int [of i] atoi_digits [of i] digits_nonempty [of i]
    by (simp add: jint_small int_string_def)
  show ?thesis
  proof (cases b)
    case None
    then show ?thesis
      by (simp add: audit_page_def handleAuditList_def query_params page_size_text optional_param_def
          params_get_def l audit_list_def)
  next
    case (Some k)
    then have "js_String (jint k) \<noteq> []" "atoi (js_String (jint k)) = Some k" "1 \<le> k" using assms i by auto
    with Some show ?thesis
      by (simp add: audit_page_def handleAuditList_def query_params page_size_text optional_param_def
          params_get_def l audit_list_def)
  qed
qed

lemma audit_rows_filter:
  "audit_rows table action b = filter (\<lambda>r. b \<le> 0 \<or> ae_id r < b) (audit_rows table action 0)"
  by (simp add: audit_rows_def filter_sort rev_filter [symmetric] conj_commute)

lemma audit_rows_descending:
  assumes "distinct (List.map ae_id table)"
  shows "sorted_wrt (\<lambda>a b. ae_id b < ae_id a) (audit_rows table action 0)"
proof -
  let ?xs = "sort_key ae_id (filter (\<lambda>r. action = [] \<or> ae_action r = action) table)"
  have "distinct (List.map ae_id (filter P table))" for P using assms by (rule distinct_map_filter)
  then have "distinct (List.map ae_id ?xs)"
    by (simp add: distinct_map inj_on_def)
  then have "sorted_wrt (<) (List.map ae_id ?xs)" by (simp add: strict_sorted_iff)
  then show ?thesis by (simp add: audit_rows_def sorted_wrt_rev sorted_wrt_map)
qed

lemma rows_below_last:
  assumes "sorted_wrt (\<lambda>a b. ae_id b < ae_id a) (xs @ ys)" "xs \<noteq> []"
  shows "filter (\<lambda>r. ae_id r < ae_id (last xs)) (xs @ ys) = ys"
proof -
  have "\<forall>y \<in> set ys. ae_id y < ae_id (last xs)"
    using assms by (auto simp: sorted_wrt_append)
  moreover have "\<forall>x \<in> set xs. \<not> ae_id x < ae_id (last xs)"
  proof -
    obtain zs z where "xs = zs @ [z]" using assms(2) by (cases xs rule: rev_cases) auto
    then show ?thesis using assms(1) by (auto simp: sorted_wrt_append)
  qed
  ultimately show ?thesis by (simp add: filter_empty_conv)
qed

lemma walk_older_rest:
  assumes "distinct (List.map ae_id table)" and "\<forall>r \<in> set table. 0 < ae_id r \<and> ae_id r < 10 ^ 15"
  shows "audit_rows table action 0 = xs @ ys \<Longrightarrow> length ys < n \<Longrightarrow>
     (b = None \<and> xs = [] \<or> xs \<noteq> [] \<and> b = Some (ae_id (last xs))) \<Longrightarrow>
     concat (walk_older n table action b) = ys"
proof (induction n arbitrary: xs ys b)
  case (Suc n)
  have sub: "set (xs @ ys) \<subseteq> set table" unfolding Suc.prems(1) [symmetric] by (auto simp: audit_rows_def)
  have "case b of None \<Rightarrow> True | Some i \<Rightarrow> 0 < i \<and> i < 10 ^ 15"
    using Suc.prems(3) assms(2) sub by (auto dest: last_in_set)
  then have "audit_page table action b = take 50 (audit_rows table action (coalesce b 0))"
    by (rule audit_page_rows)
  moreover have "audit_rows table action (coalesce b 0) = ys"
  proof (cases b)
    case (Some i)
    then have i: "xs \<noteq> []" "i = ae_id (last xs)" using Suc.prems(3) by auto
    then have "0 < i" using assms(2) sub by (auto dest: last_in_set)
    then show ?thesis
      using rows_below_last [of xs ys] audit_rows_descending [OF assms(1), of action] Some i Suc.prems(1)
        audit_rows_filter [of table action i] by simp
  qed (use Suc.prems in simp)
  ultimately have p: "audit_page table action b = take 50 ys" by simp
  show ?case
  proof (cases "length (take 50 ys) = AUDIT_PAGE")
    case True
    then have l: "50 \<le> length ys" "take 50 ys \<noteq> []" by (auto simp: AUDIT_PAGE_def)
    have "concat (walk_older n table action (Some (ae_id (last (take 50 ys))))) = drop 50 ys"
      using Suc.prems l by (intro Suc.IH [of "xs @ take 50 ys"]) (auto simp: last_append)
    then show ?thesis using True by (simp add: p Let_def)
  next
    case False
    then have "length ys < 50" by (simp add: AUDIT_PAGE_def)
    then show ?thesis using False by (simp add: p Let_def)
  qed
qed simp

text \<open>The audit hook is mounted, follows its law, and always has the path of the page state.\<close>

definition logs_inv :: "logs_page \<Rightarrow> bool" where
  "logs_inv s =
     (api_inv (lo_audit s) \<and> ap_mounted (lo_audit s) \<and> ap_path (lo_audit s) = audit_path s
      \<and> api_inv (lo_engine s) \<and> ap_mounted (lo_engine s) \<and> ap_path (lo_engine s) = engine_path s)"

lemma logs_inv_rerender:
  "api_inv (lo_audit s) \<Longrightarrow> ap_mounted (lo_audit s) \<Longrightarrow> api_inv (lo_engine s) \<Longrightarrow> ap_mounted (lo_engine s)
     \<Longrightarrow> logs_inv (rerender_logs s)"
  by (simp add: logs_inv_def rerender_logs_def api_inv_step audit_path_def engine_path_def del: api_step.simps)

lemma logs_inv_other:
  "logs_inv (s\<lparr>lo_autoRefresh := b\<rparr>) = logs_inv s" "logs_inv (s\<lparr>lo_sort := x\<rparr>) = logs_inv s"
  by (simp_all add: logs_inv_def audit_path_def engine_path_def)

lemma logs_inv_refresh: "logs_inv s \<Longrightarrow> logs_inv (logs_refresh s)"
  using api_inv_step [of "lo_audit s" Reload] api_inv_step [of "lo_engine s" Reload]
  by (auto simp: logs_inv_def logs_refresh_def audit_path_def engine_path_def reload_def [symmetric] Let_def
      simp del: api_step.simps)

lemma logs_inv_step: "logs_inv s \<Longrightarrow> logs_inv (logs_step s e)"
proof (cases e)
  case (LogsMsg m)
  assume inv: "logs_inv s"
  then have "api_inv (lo_audit s)" "ap_mounted (lo_audit s)" "api_inv (lo_engine s)" "ap_mounted (lo_engine s)"
    by (simp_all add: logs_inv_def)
  then show ?thesis using LogsMsg inv
    by (cases m) (simp_all add: logs_inv_rerender logs_inv_other)
next
  case (LogsTimer hidden)
  assume "logs_inv s"
  then show ?thesis using LogsTimer logs_inv_refresh by (simp add: useInterval_def)
next
  case (AuditSettled i r)
  assume "logs_inv s"
  then show ?thesis using AuditSettled
    by (simp add: logs_inv_def audit_path_def engine_path_def api_inv_step del: api_step.simps)
next
  case (EngineSettled i r)
  assume "logs_inv s"
  then show ?thesis using EngineSettled
    by (simp add: logs_inv_def audit_path_def engine_path_def api_inv_step del: api_step.simps)
qed

interpretation logs: machine logs_step logs_inv
  by unfold_locales (rule logs_inv_step)

lemma logs_inv_init: "logs_inv Logs_init"
  by (simp add: logs_inv_def Logs_init_def api_inv_useApi audit_path_def engine_path_def)

section \<open>Properties\<close>

text \<open>
  C23. Following "Older" from the latest page to the last one shows every audit entry that
  matches the action filter exactly once, newest first: no entry is skipped or repeated at a
  page boundary, and the walk ends. The pages are what the server's handler and query answer
  to the query string the page builds.
\<close>

theorem older_pages_cover_trail:
  assumes "distinct (List.map ae_id table)" and "\<forall>r \<in> set table. 0 < ae_id r \<and> ae_id r < 10 ^ 15"
    and "length table < n"
  shows "concat (walk_older n table action None)
       = rev (sort_key ae_id (filter (\<lambda>r. action = [] \<or> ae_action r = action) table))"
proof -
  have "length (audit_rows table action 0) \<le> length table" by (simp add: audit_rows_def)
  then have "concat (walk_older n table action None) = audit_rows table action 0"
    using assms(3) by (intro walk_older_rest [OF assms(1,2), where xs = "[]"]) auto
  then show ?thesis by (simp add: audit_rows_def)
qed

definition sample_entry :: "int \<Rightarrow> string \<Rightarrow> audit_entry" where
  "sample_entry i action =
     \<lparr>ae_id = i, ae_timestamp = ''2025-03-01T00:00:00Z'', ae_actor = ''admin'', ae_action = action,
      ae_target = ''alice'', ae_request_id = [], ae_source_ip = ''10.0.0.1'', ae_result = ''success'',
      ae_detail = []\<rparr>"

theorem older_pages_cover_trail_witness:
  "concat (walk_older 9 [sample_entry 1 ''user.create'', sample_entry 2 ''user.delete'', sample_entry 3 ''user.create'']
     ''user.create'' None) = [sample_entry 3 ''user.create'', sample_entry 1 ''user.create'']"
  using older_pages_cover_trail [of "[sample_entry 1 ''user.create'', sample_entry 2 ''user.delete'', sample_entry 3 ''user.create'']" 9]
  by (simp add: sample_entry_def)

text \<open>
  In every reachable state of the audit tab the newest request is the one for the current
  filter and cursor, and the table is shown exactly when that request has been answered.
\<close>

theorem audit_table_matches_query:
  assumes "s = foldl logs_step Logs_init es" and "lo_tab s = AuditTab"
  shows "\<exists>i. Suc i = length (ap_flights (lo_audit s))
    \<and> f_path (ap_flights (lo_audit s) ! i) = ''/api/v1/audit-logs?'' @ audit_query (lo_action s) (lo_beforeId s)
    \<and> (ap_loading (lo_audit s) \<longleftrightarrow> f_open (ap_flights (lo_audit s) ! i))"
  using logs.inv_run [OF logs_inv_init, of es] assms
  by (auto simp: logs_inv_def api_inv_def audit_path_def split: option.splits)

theorem audit_table_matches_query_witness:
  "\<exists>i. Suc i = length (ap_flights (lo_audit (foldl logs_step Logs_init [LogsMsg (SetAction ''user.create'')])))"
proof -
  have "lo_tab (foldl logs_step Logs_init [LogsMsg (SetAction ''user.create'')]) = AuditTab"
    by (simp add: Logs_init_def rerender_logs_def)
  then show ?thesis using audit_table_matches_query [OF refl] by blast
qed

text \<open>
  The ten-second refresh never moves the reader: it reloads the audit trail only on the
  visible audit tab, at the latest page, with auto-refresh on, and it changes neither filter,
  cursor, tab nor the rows on screen until an answer arrives.
\<close>

theorem refresh_keeps_place:
  "lo_tab (logs_step s (LogsTimer hidden)) = lo_tab s
    \<and> lo_action (logs_step s (LogsTimer hidden)) = lo_action s
    \<and> lo_beforeId (logs_step s (LogsTimer hidden)) = lo_beforeId s
    \<and> entries_of (logs_step s (LogsTimer hidden)) = entries_of s
    \<and> lo_audit (logs_step s (LogsTimer hidden)) =
        (if \<not> hidden \<and> lo_autoRefresh s \<and> lo_tab s = AuditTab \<and> lo_beforeId s = None
         then reload (lo_audit s) else lo_audit s)"
proof -
  have "ap_data (reload h) = ap_data h" for h :: "audit_entry list api_state"
    by (simp add: reload_def run_effect_def cleanup_effect_def split: option.splits)
  then show ?thesis by (simp add: useInterval_def logs_refresh_def entries_of_def Let_def)
qed

text \<open>
  A failed request leaves the rows of the previous query on screen: when the answer to a
  new filter fails, the table is shown again with the old rows and the page shows no error,
  because it never reads the error of its hook.
\<close>

theorem failed_query_keeps_old_rows:
  assumes "logs_inv s" and "ap_cleanup (lo_audit s) = Some i" and "ap_loading (lo_audit s)"
  shows "entries_of (logs_step s (AuditSettled i (Inl err))) = entries_of s
    \<and> \<not> ap_loading (lo_audit (logs_step s (AuditSettled i (Inl err))))
    \<and> Logs e (logs_step s (AuditSettled i (Inl err))) = Logs e (s\<lparr>lo_audit := (lo_audit s)\<lparr>ap_loading := False\<rparr>\<rparr>)"
proof -
  have "api_step (lo_audit s) (Settled i (Inl err)) = deliver (Inl err)
      ((lo_audit s)\<lparr>ap_flights := (ap_flights (lo_audit s))[i := (ap_flights (lo_audit s) ! i)\<lparr>f_open := False\<rparr>]\<rparr>)"
    using assms by (intro settled_current) (simp_all add: logs_inv_def)
  then show ?thesis by (simp add: entries_of_def deliver_def Logs_def olderAvailable_def del: api_step.simps)
qed

theorem failed_query_keeps_old_rows_witness:
  "entries_of (logs_step (foldl logs_step Logs_init [AuditSettled 0 (Inr (Some [sample_entry 1 ''user.create''])),
       LogsMsg (SetAction ''user.delete'')]) (AuditSettled 1 (Inl (OtherError ''x''))))
     = [sample_entry 1 ''user.create'']"
proof -
  let ?s = "foldl logs_step Logs_init [AuditSettled 0 (Inr (Some [sample_entry 1 ''user.create''])),
       LogsMsg (SetAction ''user.delete'')]"
  have q: "audit_query ''user.delete'' None \<noteq> audit_query [] None"
    using query_params [of "''user.delete''" None] query_params [of "[]" None] by auto
  have "logs_inv ?s" by (rule logs.inv_run [OF logs_inv_init])
  moreover have "ap_cleanup (lo_audit ?s) = Some 1" "ap_loading (lo_audit ?s)"
      "entries_of ?s = [sample_entry 1 ''user.create'']"
    using q by (simp_all add: Logs_init_def useApi_def run_effect_def cleanup_effect_def deliver_def rerender_logs_def
        audit_path_def engine_path_def entries_of_def)
  ultimately show ?thesis using failed_query_keeps_old_rows by metis
qed

end
