(* ===== verification/Auth.thy ===== *)
theory Auth
  imports Ui
begin

text \<open>
  Sessions: \<open>web/src/auth/AuthContext.tsx\<close>, the login page \<open>web/src/pages/Login.tsx\<close>, and the
  routes and the guard of \<open>web/src/App.tsx\<close>. The CSRF token is the module variable of the API
  client, so each step takes it and returns it. An answer to a request is one step: the part
  of \<open>request\<close> after \<open>fetch\<close> and the code that awaited it.
\<close>

section \<open>AuthProvider\<close>

record session_info =
  si_username :: string
  si_csrf_token :: string
  si_expires_at :: string

datatype auth_op = RefreshOp | LogoutOp

record auth =
  au_csrf :: csrf
  au_username :: "string option"
  au_loading :: bool
  au_pending :: "auth_op list" \<comment> \<open>the requests in flight\<close>

datatype auth_event =
    StartRefresh
  | StartLogout
  | AuthAnswer nat "session_info fetched"

definition auth_call :: "auth_op \<Rightarrow> call" where
  "auth_call op =
     (case op of
        RefreshOp \<Rightarrow> api_get ''/api/v1/auth/session''
      | LogoutOp \<Rightarrow> api_post ''/api/v1/auth/logout'' None)"

definition start_auth :: "auth_op \<Rightarrow> auth \<Rightarrow> auth \<times> effect list" where
  "start_auth op s = (s\<lparr>au_pending := au_pending s @ [op]\<rparr>, [Send (auth_call op)])"

definition after_refresh :: "session_info settled \<Rightarrow> auth \<Rightarrow> auth" where
  \<comment> \<open>an absent payload throws where its members are read\<close>
  "after_refresh r s =
     (case st_result r of
        Inr (Some i) \<Rightarrow>
          s\<lparr>au_csrf := setCsrfToken (si_csrf_token i), au_username := Some (si_username i),
            au_loading := False\<rparr>
      | _ \<Rightarrow> s\<lparr>au_csrf := st_csrf r, au_username := None, au_loading := False\<rparr>)"

definition after_logout :: "auth \<Rightarrow> auth" where
  "after_logout s = s\<lparr>au_csrf := clearCsrfToken, au_username := None\<rparr>"

fun auth_step :: "location \<Rightarrow> auth \<Rightarrow> auth_event \<Rightarrow> auth \<times> effect list" where
  "auth_step loc s StartRefresh = start_auth RefreshOp s"
| "auth_step loc s StartLogout = start_auth LogoutOp s"
| "auth_step loc s (AuthAnswer i f) =
     (if i < length (au_pending s) then
        let r = settle_request (au_csrf s) loc f;
            s' = s\<lparr>au_pending := remove_nth i (au_pending s)\<rparr>
        in (case au_pending s ! i of
              RefreshOp \<Rightarrow> (after_refresh r s', assigns (st_assign r))
            | LogoutOp \<Rightarrow> (after_logout s', assigns (st_assign r)))
      else (s, []))"

definition AuthProvider :: auth where
  \<comment> \<open>at mount, with the refresh its effect starts\<close>
  "AuthProvider =
     fst (start_auth RefreshOp
       \<lparr>au_csrf = None, au_username = None, au_loading = True, au_pending = []\<rparr>)"

text \<open>
  A shown username comes with a CSRF token of the same session, and the loading screen ends
  only when a refresh has settled.
\<close>

definition auth_inv :: "auth \<Rightarrow> bool" where
  "auth_inv s =
     ((au_loading s \<longrightarrow> au_username s = None \<and> RefreshOp \<in> set (au_pending s))
      \<and> (au_username s \<noteq> None \<longrightarrow> au_csrf s \<noteq> None))"

lemma auth_inv_step: "auth_inv s \<Longrightarrow> auth_inv (fst (auth_step loc s e))"
proof (cases e)
  case (AuthAnswer i f)
  assume inv: "auth_inv s"
  show ?thesis
  proof (cases "i < length (au_pending s)")
    case True
    then show ?thesis
      using inv AuthAnswer remove_nth_other [of RefreshOp "au_pending s" i]
      by (auto simp: auth_inv_def after_refresh_def after_logout_def setCsrfToken_def Let_def
          split: auth_op.splits sum.splits option.splits)
  qed (use inv AuthAnswer in simp)
qed (auto simp: auth_inv_def start_auth_def)

interpretation session: machine "\<lambda>s e. fst (auth_step loc s e)" auth_inv for loc
  by unfold_locales (rule auth_inv_step)

lemma auth_inv_init: "auth_inv AuthProvider"
  by (simp add: AuthProvider_def start_auth_def auth_inv_def)

section \<open>The login page\<close>

record login =
  lg_username :: string
  lg_password :: string
  lg_error :: "string option"
  lg_busy :: bool
  lg_instance :: nat \<comment> \<open>which mount of the page this state belongs to\<close>
  lg_pending :: "(string \<times> nat) list"
    \<comment> \<open>of each submission in flight, \<open>location.search\<close> and the mount that sent it\<close>

datatype login_msg = TypeUsername string | TypePassword string | SubmitLogin

definition Login_init :: login where
  "Login_init =
     \<lparr>lg_username = [], lg_password = [], lg_error = None, lg_busy = False, lg_instance = 0,
      lg_pending = []\<rparr>"

definition Login_remount :: "login \<Rightarrow> login" where
  \<comment> \<open>a fresh mount; submissions of earlier mounts stay in flight\<close>
  "Login_remount s =
     Login_init\<lparr>lg_instance := lg_instance s + 1, lg_pending := lg_pending s\<rparr>"

fun login_update :: "location \<Rightarrow> login_msg \<Rightarrow> login \<Rightarrow> login \<times> effect list" where
  "login_update loc (TypeUsername t) s = (s\<lparr>lg_username := t\<rparr>, [])"
| "login_update loc (TypePassword t) s = (s\<lparr>lg_password := t\<rparr>, [])"
| "login_update loc SubmitLogin s =
     (s\<lparr>lg_busy := True, lg_error := None, lg_pending := lg_pending s @ [(loc_search loc, lg_instance s)]\<rparr>,
      [Send (api_post ''/api/v1/auth/login''
         (Some (JObj [(''username'', JStr (lg_username s)), (''password'', JStr (lg_password s))])))])"

definition next_page :: "string \<Rightarrow> string" where
  "next_page search =
     (case params_get (searchParams search) ''next'' of
        Some n \<Rightarrow> if n \<noteq> [] \<and> startsWith n ''/'' then n else ''/''
      | None \<Rightarrow> ''/'')"

definition login_error :: "failure \<Rightarrow> string" where
  "login_error err =
     (case err of
        ApiFailure e \<Rightarrow>
          if err_status e = 401 then ''Invalid username or password.''
          else ''Sign-in failed. Check the server and try again.''
      | OtherError _ \<Rightarrow> ''Sign-in failed. Check the server and try again.'')"

definition login_answer ::
  "location \<Rightarrow> nat \<Rightarrow> session_info fetched \<Rightarrow> csrf \<Rightarrow> login \<Rightarrow> csrf \<times> login \<times> effect list" where
  "login_answer loc i f csrfToken s =
     (if i < length (lg_pending s) then
        let r = settle_request csrfToken loc f;
            (search, mounted) = lg_pending s ! i;
            s1 = s\<lparr>lg_pending := remove_nth i (lg_pending s)\<rparr>;
            idle = (\<lambda>err. if mounted = lg_instance s
                           then s1\<lparr>lg_busy := False, lg_error := err\<rparr> else s1)
        in (case st_result r of
              Inr (Some info) \<Rightarrow>
                (setCsrfToken (si_csrf_token info), idle (lg_error s),
                 [Navigate (next_page search) True])
            | Inr None \<Rightarrow>
                (st_csrf r, idle (Some ''Sign-in failed. Check the server and try again.''),
                 assigns (st_assign r))
            | Inl err \<Rightarrow>
                (st_csrf r, idle (Some (login_error err)), assigns (st_assign r)))
      else (csrfToken, s, []))"

definition Login :: "login \<Rightarrow> login_msg node" where
  "Login s =
     Elem ''div'' []
      [Elem ''div'' []
        [Elem ''div'' []
          [Elem ''div'' []
            [svg ''M12 3v4m0 10v4m9-9h-4M7 12H3m12.7-6.7-2.8 2.8M11.1 11.1 8.3 8.3m7.6 7.4-2.8-2.8M11.1 12.9l-2.8 2.8''],
           Elem ''div'' []
            [Elem ''h1'' [] [Text ''xoxproxy''],
             Elem ''p'' [] [Text ''Proxy management console'']]],
         Elem ''form'' [OnSubmit SubmitLogin]
          [Elem ''label'' []
            [Elem ''span'' [] [Text ''Username''],
             Elem ''input''
               [Attr ''type'' ''text'', Attr ''value'' (lg_username s), OnInput TypeUsername,
                Attr ''autoComplete'' ''username'', Flag ''autoFocus'' True, Flag ''required'' True] []],
           Elem ''label'' []
            [Elem ''span'' [] [Text ''Password''],
             Elem ''input''
               [Attr ''type'' ''password'', Attr ''value'' (lg_password s), OnInput TypePassword,
                Attr ''autoComplete'' ''current-password'', Flag ''required'' True] []],
           alert_line (lg_error s),
           Elem ''button'' [Attr ''type'' ''submit'', Flag ''disabled'' (lg_busy s)]
             [Text (if lg_busy s then ''Signing in'' @ ellipsis else ''Sign in'')]]]]"

section \<open>Routes and the guard\<close>

text \<open>
  The routes of \<open>App\<close>. Which route a path matches is decided by \<open>react-router-dom\<close>, which is
  not part of the repository: the functions below take that choice as the argument \<open>router\<close>.
\<close>

datatype route =
    RLogin
  | RIndex
  | RUsers
  | RUser string
  | RAnalytics
  | RServer
  | RLogs
  | RSettings
  | RAny \<comment> \<open>the path \<open>*\<close>\<close>

datatype screen = LoadingScreen | RedirectTo string | LoginScreen | PageScreen route

definition Protected :: "auth \<Rightarrow> screen \<Rightarrow> screen" where
  "Protected a children =
     (if au_loading a then LoadingScreen
      else if au_username a = None then RedirectTo ''/login''
      else children)"

definition App_screen :: "route \<Rightarrow> auth \<Rightarrow> screen" where
  "App_screen r a =
     (case r of
        RLogin \<Rightarrow> LoginScreen
      | RAny \<Rightarrow> RedirectTo ''/''
      | _ \<Rightarrow> Protected a (PageScreen r))"

record app =
  app_auth :: auth
  app_location :: location
  app_login :: login \<comment> \<open>the state of the login page while it is mounted\<close>

datatype app_event =
    AuthEvent auth_event
  | LoginEvent login_msg
  | LoginAnswer nat "session_info fetched"
  | GoTo string \<comment> \<open>a link or \<open>navigate\<close>, with the pathname\<close>

definition pathname_of :: "string \<Rightarrow> location" where
  \<comment> \<open>a navigation target, split at its query\<close>
  "pathname_of url =
     \<lparr>loc_pathname = takeWhile (\<lambda>c. c \<noteq> CHR ''?'') url,
      loc_search = dropWhile (\<lambda>c. c \<noteq> CHR ''?'') url\<rparr>"

definition move_to :: "(string \<Rightarrow> route) \<Rightarrow> location \<Rightarrow> app \<Rightarrow> app" where
  \<comment> \<open>a change of location: the login page keeps its state only while it stays mounted\<close>
  "move_to router loc s =
     s\<lparr>app_location := loc,
       app_login := (if router (loc_pathname (app_location s)) = RLogin
                        \<and> router (loc_pathname loc) = RLogin
                     then app_login s else Login_remount (app_login s))\<rparr>"

definition shown_screen :: "(string \<Rightarrow> route) \<Rightarrow> app \<Rightarrow> screen" where
  "shown_screen router s = App_screen (router (loc_pathname (app_location s))) (app_auth s)"

fun follow_redirects :: "(string \<Rightarrow> route) \<Rightarrow> nat \<Rightarrow> app \<Rightarrow> app" where
  \<comment> \<open>rendering \<open>Navigate\<close> moves to its target; two moves are the most the routes need\<close>
  "follow_redirects router 0 s = s"
| "follow_redirects router (Suc n) s =
     (case shown_screen router s of
        RedirectTo p \<Rightarrow> follow_redirects router n (move_to router (pathname_of p) s)
      | _ \<Rightarrow> s)"

definition apply_navigation :: "(string \<Rightarrow> route) \<Rightarrow> effect list \<Rightarrow> app \<Rightarrow> app" where
  "apply_navigation router es s =
     foldl (\<lambda>s e. case e of Navigate p _ \<Rightarrow> move_to router (pathname_of p) s | _ \<Rightarrow> s) s es"

definition App_init :: "(string \<Rightarrow> route) \<Rightarrow> location \<Rightarrow> app" where
  \<comment> \<open>a page load\<close>
  "App_init router loc =
     follow_redirects router 2
       \<lparr>app_auth = AuthProvider, app_location = loc, app_login = Login_init\<rparr>"

fun app_step :: "(string \<Rightarrow> route) \<Rightarrow> app \<Rightarrow> app_event \<Rightarrow> app" where
  "app_step router s (AuthEvent e) =
     follow_redirects router 2
       (s\<lparr>app_auth := fst (auth_step (app_location s) (app_auth s) e)\<rparr>)"
| "app_step router s (LoginEvent m) =
     (if shown_screen router s = LoginScreen
      then s\<lparr>app_login := fst (login_update (app_location s) m (app_login s))\<rparr> else s)"
| "app_step router s (LoginAnswer i f) =
     (let (tok, l, es) = login_answer (app_location s) i f (au_csrf (app_auth s)) (app_login s)
      in follow_redirects router 2 (apply_navigation router es
           (s\<lparr>app_auth := (app_auth s)\<lparr>au_csrf := tok\<rparr>, app_login := l\<rparr>)))"
| "app_step router s (GoTo p) = follow_redirects router 2 (move_to router (pathname_of p) s)"

section \<open>Lemmas\<close>

lemma Protected_page:
  "Protected a (PageScreen r) = PageScreen q \<Longrightarrow> au_username a \<noteq> None \<and> \<not> au_loading a \<and> q = r"
  by (auto simp: Protected_def split: if_splits)

lemma page_needs_session:
  "shown_screen router s = PageScreen r \<Longrightarrow> au_username (app_auth s) \<noteq> None"
  by (auto simp: shown_screen_def App_screen_def Protected_def split: route.splits if_splits)

lemma next_page_roundtrip:
  assumes "loc_pathname loc = ''/'' @ p"
  shows "next_page (''?next='' @ encodeURIComponent (loc_pathname loc @ loc_search loc))
           = loc_pathname loc @ loc_search loc"
proof -
  have "form_decode ''next'' = ''next''" by code_simp
  then have "params_get (searchParams (''?'' @ ''next'' @ ''='' @
        encodeURIComponent (loc_pathname loc @ loc_search loc))) ''next''
      = Some (loc_pathname loc @ loc_search loc)"
    by (rule component.single_param) simp_all
  then show ?thesis using assms by (simp add: next_page_def startsWith_def)
qed

lemma app_auth_kept [simp]:
  "app_auth (move_to router loc s) = app_auth s"
  "app_auth (follow_redirects router n s) = app_auth s"
  "app_auth (apply_navigation router es s) = app_auth s"
proof -
  show m: "app_auth (move_to router loc s) = app_auth s" for router loc s by (simp add: move_to_def)
  show "app_auth (follow_redirects router n s) = app_auth s"
    by (induction router n s rule: follow_redirects.induct) (auto simp: m split: screen.splits)
  show "app_auth (apply_navigation router es s) = app_auth s"
    by (induction es arbitrary: s) (auto simp: m apply_navigation_def split: effect.splits)
qed

text \<open>No redirect is left to follow after a step, for a router that knows the two fixed targets.\<close>

definition settled_screen :: "(string \<Rightarrow> route) \<Rightarrow> app \<Rightarrow> bool" where
  "settled_screen router s =
     (router ''/login'' = RLogin \<and> router ''/'' = RIndex \<longrightarrow> (\<nexists>p. shown_screen router s = RedirectTo p))"

lemma redirect_targets:
  "shown_screen router s = RedirectTo p \<Longrightarrow> p = ''/login'' \<and> au_username (app_auth s) = None \<or> p = ''/''"
  by (auto simp: shown_screen_def App_screen_def Protected_def split: route.splits if_splits)

lemma screen_after_move:
  "router ''/login'' = RLogin \<Longrightarrow> shown_screen router (move_to router (pathname_of ''/login'') s) = LoginScreen"
  "router ''/'' = RIndex \<Longrightarrow>
     shown_screen router (move_to router (pathname_of ''/'') s) = Protected (app_auth s) (PageScreen RIndex)"
  by (simp_all add: shown_screen_def App_screen_def move_to_def pathname_of_def)

lemma follow_redirects_settled: "settled_screen router (follow_redirects router 2 s)"
proof -
  have l: "router ''/login'' = RLogin \<Longrightarrow> shown_screen router (follow_redirects router n
      (move_to router (pathname_of ''/login'') s)) = LoginScreen" for n s
    by (cases n) (simp_all add: screen_after_move)
  show ?thesis
  proof (cases "shown_screen router s")
    case (RedirectTo p)
    then consider "p = ''/login''" | "p = ''/''" using redirect_targets by blast
    then show ?thesis
    proof cases
      case 2
      then show ?thesis
        using RedirectTo l by (auto simp: settled_screen_def numeral_2_eq_2 screen_after_move Protected_def)
    qed (use RedirectTo l [of 1] in \<open>auto simp: settled_screen_def numeral_2_eq_2 screen_after_move\<close>)
  qed (simp_all add: settled_screen_def numeral_2_eq_2)
qed

lemma follow_redirects_stop:
  "\<nexists>p. shown_screen router s = RedirectTo p \<Longrightarrow> follow_redirects router n s = s"
  by (cases n) (auto split: screen.splits)

lemma follow_redirects_add:
  "follow_redirects router (n + k) s = follow_redirects router k (follow_redirects router n s)"
proof (induction router n s rule: follow_redirects.induct)
  case (2 router n s)
  then show ?case using follow_redirects_stop [of router s] by (cases "shown_screen router s") simp_all
qed simp

lemma settled_screen_step: "settled_screen router s \<Longrightarrow> settled_screen router (app_step router s e)"
proof (cases e)
  case (LoginEvent m)
  then show "settled_screen router s \<Longrightarrow> ?thesis" by (simp add: settled_screen_def shown_screen_def)
qed (simp_all add: follow_redirects_settled split_def Let_def)

interpretation routing: machine "app_step router" "settled_screen router" for router
  by unfold_locales (rule settled_screen_step)

lemma App_init_settled: "settled_screen router (App_init router loc)"
  by (simp add: App_init_def follow_redirects_settled)

section \<open>Properties\<close>

text \<open>
  As far as its own requests go, the context never exposes a username without a CSRF token: this
  holds over every run of refreshes, logouts and answers in any order,
  and it leaves the loading state only when a refresh has been answered.
\<close>

theorem username_has_token:
  "auth_inv (foldl (\<lambda>s e. fst (auth_step loc s e)) AuthProvider es)"
  by (rule session.inv_run) (rule auth_inv_init)

text \<open>
  Signing out works whatever the server says: once the logout request is answered, the
  token is gone and every route but the login page redirects to it.
\<close>

theorem logout_is_final:
  assumes "i < length (au_pending s)" and "au_pending s ! i = LogoutOp" and "\<not> au_loading s"
    and "r \<noteq> RLogin" and "r \<noteq> RAny"
  shows "au_csrf (fst (auth_step loc s (AuthAnswer i f))) = None
    \<and> App_screen r (fst (auth_step loc s (AuthAnswer i f))) = RedirectTo ''/login''"
  using assms by (auto simp: after_logout_def clearCsrfToken_def App_screen_def Protected_def Let_def
      split: route.splits)

theorem logout_is_final_witness:
  "App_screen RUsers (fst (auth_step (pathname_of ''/users'')
     \<lparr>au_csrf = Some ''t'', au_username = Some ''admin'', au_loading = False, au_pending = [LogoutOp]\<rparr>
     (AuthAnswer 0 FetchFailed))) = RedirectTo ''/login''"
  using logout_is_final [of 0 "\<lparr>au_csrf = Some ''t'', au_username = Some ''admin'', au_loading = False,
      au_pending = [LogoutOp]\<rparr>" RUsers] by simp

definition plain_router :: "string \<Rightarrow> route" where
  \<comment> \<open>exact matches of the fixed paths, for the examples\<close>
  "plain_router p =
     (if p = ''/login'' then RLogin else if p = ''/'' then RIndex else if p = ''/users'' then RUsers
      else if p = ''/logs'' then RLogs else RAny)"

definition a_session :: session_info where
  "a_session = \<lparr>si_username = ''admin'', si_csrf_token = ''t0k'', si_expires_at = []\<rparr>"

definition answers_with :: "nat \<Rightarrow> 'a \<Rightarrow> 'a fetched" where
  "answers_with status v =
     Responded \<lparr>resp_status = status,
       resp_body = Json \<lparr>doc_value = v, doc_code = None, doc_message = None, doc_request_id = None\<rparr>,
       resp_header_id = None\<rparr>"

text \<open>
  C26. The guard decides the screen for good: over every run, redirects are followed to their
  end, no page behind the guard is rendered without a session, an application without one
  shows the login page and nothing else, and one with a session shows a page unless the login
  page was asked for.
\<close>

theorem guard_decides_screen:
  assumes "router ''/login'' = RLogin" and "router ''/'' = RIndex"
    and "s = foldl (app_step router) (App_init router loc) es"
  shows "if au_loading (app_auth s) then shown_screen router s \<in> {LoadingScreen, LoginScreen}
    else if au_username (app_auth s) = None then shown_screen router s = LoginScreen
    else shown_screen router s = LoginScreen \<or> (\<exists>r. shown_screen router s = PageScreen r)"
proof -
  have "\<nexists>p. shown_screen router s = RedirectTo p"
    using routing.inv_run [OF App_init_settled [of router loc], of es] assms by (simp add: settled_screen_def)
  then show ?thesis
    by (auto simp: shown_screen_def App_screen_def Protected_def split: route.splits if_split_asm)
qed

theorem guard_decides_screen_witness:
  "shown_screen plain_router (foldl (app_step plain_router) (App_init plain_router (pathname_of ''/logs''))
     [AuthEvent (AuthAnswer 0 (answers_with 401 a_session))]) = LoginScreen"
proof -
  let ?s = "foldl (app_step plain_router) (App_init plain_router (pathname_of ''/logs''))
     [AuthEvent (AuthAnswer 0 (answers_with 401 a_session))]"
  have h: "plain_router ''/login'' = RLogin" "plain_router ''/'' = RIndex"
    "au_loading (app_auth ?s) = False" "(au_username (app_auth ?s) = None) = True" by code_simp+
  show ?thesis
    using guard_decides_screen [OF h(1,2) refl, of "pathname_of ''/logs''" "[AuthEvent (AuthAnswer 0 (answers_with 401 a_session))]"]
    by (simp only: h(3,4) if_False if_True)
qed

text \<open>
  C39. Redirects end: from any state, whatever is asked for and whoever is signed in, following
  them stops after two moves at most, and no further move would change anything.
\<close>

theorem redirects_terminate:
  assumes "router ''/login'' = RLogin" and "router ''/'' = RIndex"
  shows "(\<nexists>p. shown_screen router (follow_redirects router 2 s) = RedirectTo p)
    \<and> follow_redirects router (2 + k) s = follow_redirects router 2 s"
proof -
  have "\<nexists>p. shown_screen router (follow_redirects router 2 s) = RedirectTo p"
    using follow_redirects_settled [of router s] assms by (simp add: settled_screen_def)
  then show ?thesis using follow_redirects_add [of router 2 k s] follow_redirects_stop by metis
qed

theorem redirects_terminate_witness:
  "follow_redirects plain_router 9 (App_init plain_router (pathname_of ''/nowhere''))
     = follow_redirects plain_router 2 (App_init plain_router (pathname_of ''/nowhere''))"
  using redirects_terminate [of plain_router "App_init plain_router (pathname_of ''/nowhere'')" 7]
  by (simp add: plain_router_def)

text \<open>
  Losing the session on a page and signing in again leads back to that page: the login URL
  that a 401 answer assigns carries the path and the query so that the login page navigates to
  exactly them.
\<close>

theorem login_returns_to_page:
  assumes "resp_status r = 401" and "loc_pathname loc = ''/'' @ p"
    and "\<not> startsWith (loc_pathname loc) ''/login''"
  shows "\<exists>url. st_assign (settle_request csrf loc (Responded r)) = Some url
    \<and> loc_pathname (pathname_of url) = ''/login''
    \<and> next_page (loc_search (pathname_of url)) = loc_pathname loc @ loc_search loc"
proof -
  let ?url = "''/login'' @ ''?next='' @ encodeURIComponent (loc_pathname loc @ loc_search loc)"
  have "takeWhile (\<lambda>c. c \<noteq> CHR ''?'') ?url = ''/login''"
    "dropWhile (\<lambda>c. c \<noteq> CHR ''?'') ?url
       = ''?next='' @ encodeURIComponent (loc_pathname loc @ loc_search loc)"
    by (simp_all)
  moreover have "st_assign (settle_request csrf loc (Responded r)) = Some ?url"
    using assms(1,3) by (simp add: settle_401 login_redirect_def)
  ultimately show ?thesis
    using next_page_roundtrip [OF assms(2)] by (auto simp: pathname_of_def)
qed

theorem login_returns_to_page_witness:
  "\<exists>url. st_assign (settle_request None (pathname_of ''/logs?tab=a&b'')
      (Responded \<lparr>resp_status = 401, resp_body = EmptyText :: unit body_text, resp_header_id = None\<rparr>)) = Some url
    \<and> next_page (loc_search (pathname_of url)) = ''/logs?tab=a&b''"
  using login_returns_to_page [of "\<lparr>resp_status = 401, resp_body = EmptyText :: unit body_text, resp_header_id = None\<rparr>"
      "pathname_of ''/logs?tab=a&b''" "''logs''" None]
  by (auto simp: pathname_of_def startsWith_def)

text \<open>
  C30. Signing in does not open the console. From the login page of an application whose
  context has settled without a session, a successful login stores the new CSRF token and
  navigates to the requested page, whose guard sends the browser back to the login page: the
  context is not refreshed. Only a page load, which refreshes it, shows the page.
\<close>

theorem login_success_redirects_back:
  assumes "router ''/login'' = RLogin" and "router (loc_pathname (app_location s)) = RLogin"
    and "\<not> au_loading (app_auth s)" and "au_username (app_auth s) = None"
    and "i < length (lg_pending (app_login s))" and "resp_status r = 200"
    and "resp_body r = Json d" and "router (loc_pathname (pathname_of
           (next_page (fst (lg_pending (app_login s) ! i))))) \<in> {RIndex, RUsers, RAnalytics, RServer, RLogs, RSettings}"
  shows "au_csrf (app_auth (app_step router s (LoginAnswer i (Responded r)))) = Some (si_csrf_token (doc_value d))
    \<and> app_location (app_step router s (LoginAnswer i (Responded r))) = pathname_of ''/login''
    \<and> shown_screen router (app_step router s (LoginAnswer i (Responded r))) = LoginScreen"
proof -
  have st: "settle_request csrf loc (Responded r) =
      \<lparr>st_csrf = csrf, st_assign = None, st_result = Inr (Some (doc_value d))\<rparr>" for csrf loc
    using assms(6,7) by (simp add: settle_request_def resp_ok_def read_payload_def)
  obtain search m where p: "lg_pending (app_login s) ! i = (search, m)" by fastforce
  have lp: "loc_pathname (pathname_of ''/login'') = ''/login''" by (simp add: pathname_of_def)
  show ?thesis
    using assms p by (auto simp: st login_answer_def Let_def setCsrfToken_def apply_navigation_def
        numeral_2_eq_2 move_to_def shown_screen_def App_screen_def Protected_def lp)
qed

theorem login_success_redirects_back_witness:
  "shown_screen plain_router (foldl (app_step plain_router) (App_init plain_router (pathname_of ''/login?next=%2Flogs''))
     [AuthEvent (AuthAnswer 0 (answers_with 401 a_session)), LoginEvent SubmitLogin,
      LoginAnswer 0 (answers_with 200 a_session)]) = LoginScreen"
proof -
  let ?s = "foldl (app_step plain_router) (App_init plain_router (pathname_of ''/login?next=%2Flogs''))
     [AuthEvent (AuthAnswer 0 (answers_with 401 a_session)), LoginEvent SubmitLogin]"
  have "plain_router ''/login'' = RLogin" "plain_router (loc_pathname (app_location ?s)) = RLogin"
    "\<not> au_loading (app_auth ?s)" "au_username (app_auth ?s) = None"
    "0 < length (lg_pending (app_login ?s))"
    "plain_router (loc_pathname (pathname_of (next_page (fst (lg_pending (app_login ?s) ! 0))))) = RLogs"
    by code_simp+
  then show ?thesis
    using login_success_redirects_back [of plain_router ?s 0] by (simp add: answers_with_def)
qed

text \<open>
  The login page is no credential oracle: two answers with status 401, whatever their
  bodies say, leave it in the same state with the same message.
\<close>

theorem login_error_uniform:
  assumes "resp_status r = 401" and "resp_status q = 401"
  shows "login_answer loc i (Responded r) csrf s = login_answer loc i (Responded q) csrf s
    \<and> (i < length (lg_pending s) \<and> snd (lg_pending s ! i) = lg_instance s \<longrightarrow>
        lg_error (fst (snd (login_answer loc i (Responded r) csrf s))) = Some ''Invalid username or password.'')"
  using assms by (auto simp: login_answer_def settle_401 login_error_def api_failure_def Let_def split_def)

theorem login_error_uniform_witness:
  "lg_error (fst (snd (login_answer (pathname_of ''/login'') 0 (answers_with 401 a_session) None
      (Login_init\<lparr>lg_pending := [([], 0)]\<rparr>)))) = Some ''Invalid username or password.''"
  using login_error_uniform [of "\<lparr>resp_status = 401, resp_body = Json \<lparr>doc_value = a_session, doc_code = None,
      doc_message = None, doc_request_id = None\<rparr>, resp_header_id = None\<rparr>"
      "\<lparr>resp_status = 401, resp_body = NotJson, resp_header_id = None\<rparr>" "pathname_of ''/login''" 0 None
      "Login_init\<lparr>lg_pending := [([], 0)]\<rparr>", THEN conjunct2]
  by (simp add: answers_with_def Login_init_def)

end
