(* ===== verification/LayoutPage.thy ===== *)
theory LayoutPage
  imports Auth
begin

text \<open>
  The frame around the pages, \<open>web/src/components/Layout.tsx\<close>: navigation, the top bar with the
  theme switch and the account menu, and what of it is kept in \<open>localStorage\<close>; the start-up code
  of \<open>web/src/main.tsx\<close>, which restores the theme; and the shell, the composition of the frame
  with the routes and the session of \<open>Auth\<close>.
\<close>

section \<open>The browser\<close>

record browser =
  bw_storage :: "string \<rightharpoonup> string" \<comment> \<open>\<open>localStorage\<close>\<close>
  bw_dark :: bool \<comment> \<open>the class \<open>dark\<close> of the document element\<close>

definition boot_dark :: "bool \<Rightarrow> (string \<rightharpoonup> string) \<Rightarrow> bool" where
  \<comment> \<open>\<open>prefers\<close> is the media query \<open>prefers-color-scheme: dark\<close>\<close>
  "boot_dark prefers storage =
     (storage ''xox-theme'' = Some ''dark'' \<or> storage ''xox-theme'' = None \<and> prefers)"

definition boot :: "bool \<Rightarrow> browser \<Rightarrow> browser" where
  \<comment> \<open>a page load starts with a fresh document\<close>
  "boot prefers b = b\<lparr>bw_dark := boot_dark prefers (bw_storage b)\<rparr>"

fun browser_effect :: "browser \<Rightarrow> effect \<Rightarrow> browser" where
  "browser_effect b (StoreItem k v) = b\<lparr>bw_storage := (bw_storage b)(k \<mapsto> v)\<rparr>"
| "browser_effect b (DarkClass d) = b\<lparr>bw_dark := d\<rparr>"
| "browser_effect b _ = b"

section \<open>Navigation items\<close>

record nav_item =
  nv_to :: string
  nv_label :: string
  nv_icon :: string \<comment> \<open>the path of its icon\<close>

definition icon :: "string \<Rightarrow> 'm node" where
  "icon d = Elem ''svg'' [Attr ''aria-hidden'' ''true''] [Elem ''path'' [Attr ''d'' d] []]"

definition NAV :: "nav_item list" where
  "NAV =
     [\<lparr>nv_to = ''/'', nv_label = ''Overview'',
       nv_icon = ''M4 13h6V4H4v9Zm0 7h6v-4H4v4Zm10 0h6V11h-6v9Zm0-16v4h6V4h-6Z''\<rparr>,
      \<lparr>nv_to = ''/users'', nv_label = ''Users'',
       nv_icon = ''M16 20v-2a4 4 0 0 0-4-4H6a4 4 0 0 0-4 4v2M9 10a4 4 0 1 0 0-8 4 4 0 0 0 0 8Zm13 10v-2a4 4 0 0 0-3-3.87M16 3.13A4 4 0 0 1 16 11''\<rparr>,
      \<lparr>nv_to = ''/analytics'', nv_label = ''Analytics'', nv_icon = ''M3 3v18h18M7 15l3.5-3.5 3 3L19 9''\<rparr>,
      \<lparr>nv_to = ''/server'', nv_label = ''Server'',
       nv_icon = ''M8 3v3m8-3v3M4 9h16M5 5h14a1 1 0 0 1 1 1v13a1 1 0 0 1-1 1H5a1 1 0 0 1-1-1V6a1 1 0 0 1 1-1Zm4 9h.01M12 14h.01M16 14h.01M9 17h.01M12 17h.01M16 17h.01''\<rparr>,
      \<lparr>nv_to = ''/logs'', nv_label = ''Logs'',
       nv_icon = ''M6 3h9l5 5v13a1 1 0 0 1-1 1H6a1 1 0 0 1-1-1V4a1 1 0 0 1 1-1Zm9 0v5h5M9 13h6M9 17h6M9 9h2''\<rparr>,
      \<lparr>nv_to = ''/settings'', nv_label = ''Settings'',
       nv_icon = ''M12 15a3 3 0 1 0 0-6 3 3 0 0 0 0 6Zm7.4-3a7.4 7.4 0 0 0-.1-1.2l2-1.6-2-3.4-2.4 1a7.6 7.6 0 0 0-2-1.2L14.5 2h-4l-.4 2.6a7.6 7.6 0 0 0-2 1.2l-2.4-1-2 3.4 2 1.6a7.4 7.4 0 0 0 0 2.4l-2 1.6 2 3.4 2.4-1a7.6 7.6 0 0 0 2 1.2l.4 2.6h4l.4-2.6a7.6 7.6 0 0 0 2-1.2l2.4 1 2-3.4-2-1.6c.07-.4.1-.8.1-1.2Z''\<rparr>]"

section \<open>State\<close>

record layout =
  ly_mobile_open :: bool
  ly_collapsed :: bool
  ly_dark :: bool
  ly_menu_open :: bool

definition Layout_init :: "browser \<Rightarrow> layout" where
  \<comment> \<open>the initial state reads the document and \<open>localStorage\<close>\<close>
  "Layout_init b =
     \<lparr>ly_mobile_open = False, ly_collapsed = (bw_storage b ''xox-sidebar'' = Some ''collapsed''),
      ly_dark = bw_dark b, ly_menu_open = False\<rparr>"

datatype layout_msg =
    OpenMobile
  | CloseMobile
  | FollowNav string \<comment> \<open>a click on a navigation link: \<open>onClose\<close>, then the link\<close>
  | ToggleCollapse
  | ToggleTheme
  | ToggleMenu
  | CloseMenu
  | MenuSettings
  | SignOut

definition toggle_theme :: "layout \<Rightarrow> layout \<times> effect list" where
  "toggle_theme s =
     (let new = \<not> ly_dark s
      in (s\<lparr>ly_dark := new\<rparr>,
          [DarkClass new, StoreItem ''xox-theme'' (if new then ''dark'' else ''light'')]))"

definition toggleCollapse :: "layout \<Rightarrow> layout \<times> effect list" where
  "toggleCollapse s =
     (s\<lparr>ly_collapsed := \<not> ly_collapsed s\<rparr>,
      [StoreItem ''xox-sidebar'' (if ly_collapsed s then ''expanded'' else ''collapsed'')])"

fun layout_update :: "layout_msg \<Rightarrow> layout \<Rightarrow> layout \<times> effect list" where
  "layout_update OpenMobile s = (s\<lparr>ly_mobile_open := True\<rparr>, [])"
| "layout_update CloseMobile s = (s\<lparr>ly_mobile_open := False\<rparr>, [])"
| "layout_update (FollowNav p) s = (s\<lparr>ly_mobile_open := False\<rparr>, [Navigate p False])"
| "layout_update ToggleCollapse s = toggleCollapse s"
| "layout_update ToggleTheme s = toggle_theme s"
| "layout_update ToggleMenu s = (s\<lparr>ly_menu_open := \<not> ly_menu_open s\<rparr>, [])"
| "layout_update CloseMenu s = (s\<lparr>ly_menu_open := False\<rparr>, [])"
| "layout_update MenuSettings s = (s\<lparr>ly_menu_open := False\<rparr>, [Navigate ''/settings'' False])"
| "layout_update SignOut s = (s\<lparr>ly_menu_open := False\<rparr>, [Send (auth_call LogoutOp)])"

definition location_changed :: "layout \<Rightarrow> layout" where
  \<comment> \<open>the effect of the top bar that depends on the location\<close>
  "location_changed s = s\<lparr>ly_menu_open := False\<rparr>"

section \<open>The view\<close>

text \<open>
  Whether a link is the active one is decided by \<open>NavLink\<close> of \<open>react-router-dom\<close>: the argument
  \<open>active\<close>, of the target and the prop \<open>end\<close>.
\<close>

definition nav_link :: "(string \<Rightarrow> bool \<Rightarrow> bool) \<Rightarrow> bool \<Rightarrow> nav_item \<Rightarrow> layout_msg node" where
  "nav_link active collapsed item =
     Elem ''a''
       ([Attr ''href'' (nv_to item), on_click (FollowNav (nv_to item))]
        @ (if collapsed then [Attr ''title'' (nv_label item)] else [])
        @ [cls (if active (nv_to item) (nv_to item = ''/'')
                then ''bg-[var(--interactive-accent-hover)] font-semibold text-brand-text''
                else ''text-secondary hover:bg-[var(--interactive-hover)] hover:text-primary'')])
       [Elem ''span'' [] [icon (nv_icon item)],
        show_if (\<not> collapsed) (Elem ''span'' [] [Text (nv_label item)])]"

definition Sidebar :: "env \<Rightarrow> (string \<Rightarrow> bool \<Rightarrow> bool) \<Rightarrow> bool \<Rightarrow> bool \<Rightarrow> layout_msg node" where
  "Sidebar e active opened collapsed = Frag
     [show_if opened (Elem ''div'' [on_click CloseMobile, Attr ''aria-hidden'' ''true''] []),
      Elem ''aside''
        [cls (join '' '' [if collapsed then ''w-[68px]'' else ''w-[228px]'',
                          if opened then ''translate-x-0'' else ''-translate-x-full md:translate-x-0''])]
        [Elem ''div'' []
           [Elem ''div'' []
              [svg ''M12 3v4m0 10v4m9-9h-4M7 12H3m12.7-6.7-2.8 2.8M11.1 11.1 8.3 8.3m7.6 7.4-2.8-2.8M11.1 12.9l-2.8 2.8''],
            show_if (\<not> collapsed) (Elem ''span'' [] [Text ''xoxproxy''])],
         Elem ''nav'' [] (List.map (nav_link active collapsed) NAV),
         Elem ''div'' [] [show_if (\<not> collapsed) (Elem ''p'' [] [Text (''v'' @ app_version e)])]]]"

definition account_menu :: "layout_msg node" where
  "account_menu = Frag
     [Elem ''div'' [on_click CloseMenu, Attr ''aria-hidden'' ''true''] [],
      Elem ''div'' [Attr ''role'' ''menu'']
        [Elem ''button'' [on_click MenuSettings, Attr ''role'' ''menuitem''] [Text ''Settings''],
         Elem ''button'' [on_click SignOut, Attr ''role'' ''menuitem''] [Text ''Sign out'']]]"

definition Topbar :: "string option \<Rightarrow> layout \<Rightarrow> layout_msg node" where
  "Topbar username s =
     Elem ''header'' []
       [Elem ''button'' [on_click OpenMobile, Attr ''aria-label'' ''Open navigation'']
          [icon ''M4 6h16M4 12h16M4 18h16''],
        Elem ''button'' [on_click ToggleCollapse, Attr ''aria-label'' ''Toggle sidebar'']
          [icon ''M11 19l-7-7 7-7m8 14l-7-7 7-7''],
        Elem ''div'' [] [],
        Elem ''button''
          [on_click ToggleTheme,
           Attr ''aria-label'' (if ly_dark s then ''Switch to light theme'' else ''Switch to dark theme'')]
          [icon (if ly_dark s
                 then ''M12 3v2m0 14v2M5.6 5.6l1.4 1.4m10 10 1.4 1.4M3 12h2m14 0h2M5.6 18.4 7 17m10-10 1.4-1.4M12 8a4 4 0 1 0 0 8 4 4 0 0 0 0-8Z''
                 else ''M21 12.8A9 9 0 1 1 11.2 3 7 7 0 0 0 21 12.8Z'')],
        Elem ''div'' []
          [Elem ''button''
             [on_click ToggleMenu, Attr ''aria-haspopup'' ''menu'', Flag ''aria-expanded'' (ly_menu_open s)]
             [Elem ''span'' [] [Text (toUpperCase (take 1 (coalesce username ''?'')))],
              Elem ''span'' [] [Text (coalesce username [])]],
           show_if (ly_menu_open s) account_menu]]"

definition Layout :: "env \<Rightarrow> (string \<Rightarrow> bool \<Rightarrow> bool) \<Rightarrow> string option \<Rightarrow> layout \<Rightarrow> layout_msg node \<Rightarrow> layout_msg node" where
  \<comment> \<open>\<open>outlet\<close> is the page\<close>
  "Layout e active username s outlet =
     Elem ''div'' []
       [Sidebar e active (ly_mobile_open s) (ly_collapsed s),
        Elem ''div'' [cls (if ly_collapsed s then ''md:pl-[68px]'' else ''md:pl-[228px]'')]
          [Topbar username s, Elem ''main'' [] [outlet]]]"

section \<open>The shell\<close>

text \<open>
  The application with its frame. \<open>Layout\<close> is mounted while a page behind the guard is shown.
  A request of \<open>logout\<close> is only ever sent by the top bar, whose continuation navigates to the
  login page when it has been answered, also after the frame is gone.
\<close>

record shell =
  sh_app :: app
  sh_layout :: "layout option"
  sh_browser :: browser

datatype shell_event =
    FrameMsg layout_msg
  | AppMsg app_event
  | PageLoad location

definition in_frame :: "(string \<Rightarrow> route) \<Rightarrow> app \<Rightarrow> bool" where
  "in_frame router a = (case shown_screen router a of PageScreen _ \<Rightarrow> True | _ \<Rightarrow> False)"

definition frame :: "(string \<Rightarrow> route) \<Rightarrow> bool \<Rightarrow> shell \<Rightarrow> shell" where
  \<comment> \<open>mounts and unmounts the frame; \<open>moved\<close> says that the location changed\<close>
  "frame router moved s =
     s\<lparr>sh_layout :=
         (if in_frame router (sh_app s)
          then Some (case sh_layout s of
                       None \<Rightarrow> Layout_init (sh_browser s)
                     | Some l \<Rightarrow> if moved then location_changed l else l)
          else None)\<rparr>"

definition logout_answered :: "app_event \<Rightarrow> app \<Rightarrow> bool" where
  "logout_answered e a =
     (case e of
        AuthEvent (AuthAnswer i f) \<Rightarrow> i < length (au_pending (app_auth a)) \<and> au_pending (app_auth a) ! i = LogoutOp
      | _ \<Rightarrow> False)"

definition navigates :: "app_event \<Rightarrow> app \<Rightarrow> bool" where
  "navigates e a =
     (case e of
        GoTo _ \<Rightarrow> True
      | LoginAnswer i f \<Rightarrow>
          list_ex (\<lambda>x. case x of Navigate _ _ \<Rightarrow> True | _ \<Rightarrow> False)
            (snd (snd (login_answer (app_location a) i f (au_csrf (app_auth a)) (app_login a))))
      | _ \<Rightarrow> logout_answered e a)"

definition run_app :: "(string \<Rightarrow> route) \<Rightarrow> shell \<Rightarrow> app_event \<Rightarrow> shell" where
  "run_app router s e =
     (let a = app_step router (sh_app s) e;
          b = (if logout_answered e (sh_app s) then app_step router a (GoTo ''/login'') else a)
      in frame router (navigates e (sh_app s) \<or> app_location b \<noteq> app_location (sh_app s)) (s\<lparr>sh_app := b\<rparr>))"

definition frame_events :: "layout_msg \<Rightarrow> effect list \<Rightarrow> app_event list" where
  "frame_events m es =
     (if m = SignOut then [AuthEvent StartLogout] else [])
     @ concat (List.map (\<lambda>x. case x of Navigate p _ \<Rightarrow> [GoTo p] | _ \<Rightarrow> []) es)"

definition Shell_init :: "(string \<Rightarrow> route) \<Rightarrow> bool \<Rightarrow> location \<Rightarrow> browser \<Rightarrow> shell" where
  "Shell_init router prefers loc b =
     frame router False \<lparr>sh_app = App_init router loc, sh_layout = None, sh_browser = boot prefers b\<rparr>"

fun shell_step :: "(string \<Rightarrow> route) \<Rightarrow> bool \<Rightarrow> shell \<Rightarrow> shell_event \<Rightarrow> shell" where
  "shell_step router prefers s (FrameMsg m) =
     (case sh_layout s of
        None \<Rightarrow> s
      | Some l \<Rightarrow>
          (let (l', es) = layout_update m l
           in foldl (run_app router)
                (s\<lparr>sh_layout := Some l', sh_browser := foldl browser_effect (sh_browser s) es\<rparr>)
                (frame_events m es)))"
| "shell_step router prefers s (AppMsg e) = run_app router s e"
| "shell_step router prefers s (PageLoad loc) = Shell_init router prefers loc (sh_browser s)"

section \<open>Lemmas\<close>

definition prefs_inv :: "bool \<Rightarrow> shell \<Rightarrow> bool" where
  \<comment> \<open>what is shown is what the next page load restores\<close>
  "prefs_inv prefers s =
     (bw_dark (sh_browser s) = boot_dark prefers (bw_storage (sh_browser s))
      \<and> (case sh_layout s of
           None \<Rightarrow> True
         | Some l \<Rightarrow> ly_dark l = bw_dark (sh_browser s)
                     \<and> ly_collapsed l = (bw_storage (sh_browser s) ''xox-sidebar'' = Some ''collapsed'')))"

lemma frame_keeps [simp]:
  "sh_app (frame router moved s) = sh_app s" "sh_browser (frame router moved s) = sh_browser s"
  "sh_browser (run_app router s e) = sh_browser s"
  by (simp_all add: frame_def run_app_def Let_def)

lemma prefs_frame: "prefs_inv prefers s \<Longrightarrow> prefs_inv prefers (frame router moved s)"
  by (auto simp: prefs_inv_def frame_def Layout_init_def location_changed_def split: option.splits)

lemma prefs_run_app: "prefs_inv prefers s \<Longrightarrow> prefs_inv prefers (run_app router s e)"
  unfolding run_app_def Let_def by (rule prefs_frame) (simp add: prefs_inv_def split: option.splits)

lemma prefs_run_apps: "prefs_inv prefers s \<Longrightarrow> prefs_inv prefers (foldl (run_app router) s es)"
  by (induction es arbitrary: s) (auto intro: prefs_run_app)

lemma prefs_init: "prefs_inv prefers (Shell_init router prefers loc b)"
  unfolding Shell_init_def by (rule prefs_frame) (simp add: prefs_inv_def boot_def)

lemma prefs_step: "prefs_inv prefers s \<Longrightarrow> prefs_inv prefers (shell_step router prefers s e)"
proof (cases e)
  case (FrameMsg m)
  assume inv: "prefs_inv prefers s"
  show ?thesis
  proof (cases "sh_layout s")
    case (Some l)
    have "prefs_inv prefers (s\<lparr>sh_layout := Some (fst (layout_update m l)),
        sh_browser := foldl browser_effect (sh_browser s) (snd (layout_update m l))\<rparr>)"
      using inv Some
      by (cases m) (auto simp: prefs_inv_def toggle_theme_def toggleCollapse_def boot_dark_def Let_def)
    then show ?thesis using FrameMsg Some by (simp add: split_def Let_def prefs_run_apps)
  qed (use inv FrameMsg in simp)
qed (simp_all add: prefs_run_app prefs_init)

interpretation shell: machine "shell_step router prefers" "prefs_inv prefers" for router prefers
  by unfold_locales (rule prefs_step)

text \<open>Events of the application alone leave \<open>localStorage\<close> and the document as they are.\<close>

lemma app_events_keep_browser:
  "sh_browser (foldl (shell_step router prefers) s (List.map AppMsg es)) = sh_browser s"
  by (induction es arbitrary: s) simp_all

lemma login_screen: "router ''/login'' = RLogin \<Longrightarrow>
    shown_screen router (app_step router a (GoTo ''/login'')) = LoginScreen"
  by (simp add: numeral_2_eq_2 screen_after_move)

section \<open>Properties\<close>

text \<open>
  C33. The theme and the sidebar survive a page load: after any run of the application, loading any
  page again shows the same theme from the first paint, and the frame that appears when the
  session is confirmed has the same theme and the same sidebar as the one before.
\<close>

theorem preferences_survive_reload:
  assumes "s = foldl (shell_step router prefers) (Shell_init router prefers loc b) es"
    and "sh_layout s = Some l"
    and "sh_layout (foldl (shell_step router prefers) (shell_step router prefers s (PageLoad loc')) (List.map AppMsg es')) = Some l'"
  shows "bw_dark (sh_browser (shell_step router prefers s (PageLoad loc'))) = ly_dark l
    \<and> ly_dark l' = ly_dark l \<and> ly_collapsed l' = ly_collapsed l"
proof -
  have s: "prefs_inv prefers s" unfolding assms(1) by (rule shell.inv_run) (rule prefs_init)
  let ?t = "foldl (shell_step router prefers) (shell_step router prefers s (PageLoad loc')) (List.map AppMsg es')"
  have t: "prefs_inv prefers ?t" by (rule shell.inv_run) (simp add: prefs_init)
  have "sh_browser ?t = boot prefers (sh_browser s)"
    unfolding app_events_keep_browser by (simp add: Shell_init_def)
  then show ?thesis using s t assms(2,3) by (auto simp: prefs_inv_def boot_def Shell_init_def)
qed

definition a_browser :: browser where
  "a_browser = \<lparr>bw_storage = Map.empty, bw_dark = False\<rparr>"

theorem preferences_survive_reload_witness:
  "\<exists>l'. sh_layout (foldl (shell_step plain_router False) (Shell_init plain_router False (pathname_of ''/'') a_browser)
     [AppMsg (AuthEvent (AuthAnswer 0 (answers_with 200 a_session))), FrameMsg ToggleTheme, FrameMsg ToggleCollapse,
      PageLoad (pathname_of ''/logs''), AppMsg (AuthEvent (AuthAnswer 0 (answers_with 200 a_session)))]) = Some l'
     \<and> ly_dark l' \<and> ly_collapsed l'"
proof -
  let ?es = "[AppMsg (AuthEvent (AuthAnswer 0 (answers_with 200 a_session))), FrameMsg ToggleTheme, FrameMsg ToggleCollapse]"
  let ?l = "\<lparr>ly_mobile_open = False, ly_collapsed = True, ly_dark = True, ly_menu_open = False\<rparr>"
  let ?s = "foldl (shell_step plain_router False) (Shell_init plain_router False (pathname_of ''/'') a_browser) ?es"
  let ?t = "foldl (shell_step plain_router False) (shell_step plain_router False ?s (PageLoad (pathname_of ''/logs'')))
      (List.map AppMsg [AuthEvent (AuthAnswer 0 (answers_with 200 a_session))])"
  have "sh_layout ?s = Some ?l" "sh_layout ?t \<noteq> None" by code_simp+
  then obtain l' where "sh_layout ?t = Some l'" by blast
  then show ?thesis
    using preferences_survive_reload [OF refl \<open>sh_layout ?s = Some ?l\<close>, of "pathname_of ''/logs''"
        "[AuthEvent (AuthAnswer 0 (answers_with 200 a_session))]" l'] by simp
qed

text \<open>
  C32. Signing out always ends on the login page: the menu entry sends a logout request, and its
  answer, whatever it says and whatever page is shown by then, drops the token, unmounts the
  frame and shows the login page; from there no link or address leads behind the guard.
\<close>

theorem sign_out_reaches_login:
  assumes "router ''/login'' = RLogin" and "router ''/'' = RIndex"
  shows "(sh_layout s \<noteq> None \<longrightarrow>
      LogoutOp \<in> set (au_pending (app_auth (sh_app (shell_step router prefers s (FrameMsg SignOut))))))
    \<and> (i < length (au_pending (app_auth (sh_app t))) \<and> au_pending (app_auth (sh_app t)) ! i = LogoutOp \<longrightarrow>
        (let u = shell_step router prefers t (AppMsg (AuthEvent (AuthAnswer i f)))
         in shown_screen router (sh_app u) = LoginScreen \<and> sh_layout u = None
            \<and> au_csrf (app_auth (sh_app u)) = None
            \<and> (\<not> au_loading (app_auth (sh_app t)) \<longrightarrow>
                shown_screen router (app_step router (sh_app u) (GoTo p)) = LoginScreen)))"
proof (intro conjI impI)
  assume "sh_layout s \<noteq> None"
  then show "LogoutOp \<in> set (au_pending (app_auth (sh_app (shell_step router prefers s (FrameMsg SignOut)))))"
    by (auto simp: frame_events_def run_app_def logout_answered_def start_auth_def Let_def)
next
  assume i: "i < length (au_pending (app_auth (sh_app t))) \<and> au_pending (app_auth (sh_app t)) ! i = LogoutOp"
  define u where "u = shell_step router prefers t (AppMsg (AuthEvent (AuthAnswer i f)))"
  have app: "sh_app u = app_step router (app_step router (sh_app t) (AuthEvent (AuthAnswer i f))) (GoTo ''/login'')"
    using i by (simp add: u_def run_app_def logout_answered_def Let_def del: app_step.simps)
  have screen: "shown_screen router (sh_app u) = LoginScreen"
    unfolding app using assms(1) by (rule login_screen)
  moreover have "sh_layout u = None"
    using screen by (simp add: u_def run_app_def frame_def in_frame_def Let_def del: app_step.simps)
  moreover have auth: "au_csrf (app_auth (sh_app u)) = None" "au_username (app_auth (sh_app u)) = None"
    "au_loading (app_auth (sh_app u)) = au_loading (app_auth (sh_app t))"
    using i by (simp_all add: app after_logout_def clearCsrfToken_def Let_def)
  moreover have "shown_screen router (app_step router (sh_app u) (GoTo p)) = LoginScreen"
    if "\<not> au_loading (app_auth (sh_app t))"
  proof -
    have "settled_screen router (app_step router (sh_app u) (GoTo p))" by (simp add: follow_redirects_settled)
    then show ?thesis
      using assms auth that
      by (auto simp: settled_screen_def shown_screen_def App_screen_def Protected_def split: route.splits)
  qed
  ultimately show "let u = shell_step router prefers t (AppMsg (AuthEvent (AuthAnswer i f)))
         in shown_screen router (sh_app u) = LoginScreen \<and> sh_layout u = None
            \<and> au_csrf (app_auth (sh_app u)) = None
            \<and> (\<not> au_loading (app_auth (sh_app t)) \<longrightarrow>
                shown_screen router (app_step router (sh_app u) (GoTo p)) = LoginScreen)"
    unfolding u_def [symmetric] Let_def by blast
qed

theorem sign_out_reaches_login_witness:
  "shown_screen plain_router (sh_app (foldl (shell_step plain_router False)
     (Shell_init plain_router False (pathname_of ''/logs'') a_browser)
     [AppMsg (AuthEvent (AuthAnswer 0 (answers_with 200 a_session))), FrameMsg SignOut,
      AppMsg (AuthEvent (AuthAnswer 0 FetchFailed))])) = LoginScreen"
proof -
  let ?t = "foldl (shell_step plain_router False) (Shell_init plain_router False (pathname_of ''/logs'') a_browser)
     [AppMsg (AuthEvent (AuthAnswer 0 (answers_with 200 a_session))), FrameMsg SignOut]"
  have "plain_router ''/login'' = RLogin" "plain_router ''/'' = RIndex" "au_pending (app_auth (sh_app ?t)) = [LogoutOp]"
    by code_simp+
  then show ?thesis
    using sign_out_reaches_login [of plain_router ?t False 0 ?t FetchFailed] by (simp add: Let_def del: shell_step.simps)
qed

end
