(* ===== verification/Console.thy ===== *)
theory Console
  imports LayoutPage "HOL-Library.Word"
begin

unbundle bit_operations_syntax

text \<open>
  The running console: the shell of \<open>LayoutPage\<close> together with the requests of the pages, whose
  answers pass through \<open>request\<close> of \<open>web/src/api/client.ts\<close> and share its CSRF token. What matters
  of a page's answer here is what \<open>request\<close> does to the token and to the address, so one event
  stands for all of them. \<open>location.assign\<close> starts a page load that arrives later as an event of
  its own. The last section models the check the server makes before a handler runs,
  \<open>withSession\<close> of \<open>internal/api/middleware.go\<close>.
\<close>

section \<open>State\<close>

record console =
  co_shell :: shell
  co_leaving :: bool \<comment> \<open>\<open>location.assign\<close> was called in this document\<close>
  co_missed :: bool \<comment> \<open>a 401 arrived while the address was the login page\<close>

datatype console_event =
    ShellEvent shell_event
  | PageAnswer "unit fetched"

definition co_app :: "console \<Rightarrow> app" where
  "co_app s = sh_app (co_shell s)"

definition unauthorised :: "'a fetched \<Rightarrow> bool" where
  "unauthorised f = (case f of Responded r \<Rightarrow> resp_status r = 401 | FetchFailed \<Rightarrow> False)"

definition at_login :: "app \<Rightarrow> bool" where
  "at_login a = startsWith (loc_pathname (app_location a)) ''/login''"

definition answer_refused :: "app_event \<Rightarrow> app \<Rightarrow> bool" where
  \<comment> \<open>the event is an answer with status 401 to a request in flight\<close>
  "answer_refused e a =
     (case e of
        AuthEvent (AuthAnswer i f) \<Rightarrow> i < length (au_pending (app_auth a)) \<and> unauthorised f
      | LoginAnswer i f \<Rightarrow> i < length (lg_pending (app_login a)) \<and> unauthorised f
      | _ \<Rightarrow> False)"

definition note_refusal :: "app \<Rightarrow> console \<Rightarrow> console" where
  \<comment> \<open>what a 401 leads to, by the address at which it arrives\<close>
  "note_refusal a s = (if at_login a then s\<lparr>co_missed := True\<rparr> else s\<lparr>co_leaving := True\<rparr>)"

definition page_answer :: "unit fetched \<Rightarrow> app \<Rightarrow> app" where
  "page_answer f a =
     a\<lparr>app_auth := (app_auth a)\<lparr>au_csrf := st_csrf (settle_request (au_csrf (app_auth a)) (app_location a) f)\<rparr>\<rparr>"

fun console_step :: "(string \<Rightarrow> route) \<Rightarrow> bool \<Rightarrow> console \<Rightarrow> console_event \<Rightarrow> console" where
  "console_step router prefers s (ShellEvent e) =
     (let t = s\<lparr>co_shell := shell_step router prefers (co_shell s) e\<rparr>
      in case e of
           PageLoad _ \<Rightarrow> t\<lparr>co_leaving := False, co_missed := False\<rparr>
         | AppMsg m \<Rightarrow> if answer_refused m (co_app s) then note_refusal (co_app s) t else t
         | FrameMsg _ \<Rightarrow> t)"
| "console_step router prefers s (PageAnswer f) =
     (let t = s\<lparr>co_shell := (co_shell s)\<lparr>sh_app := page_answer f (co_app s)\<rparr>\<rparr>
      in if unauthorised f then note_refusal (co_app s) t else t)"

definition Console_init :: "(string \<Rightarrow> route) \<Rightarrow> bool \<Rightarrow> location \<Rightarrow> browser \<Rightarrow> console" where
  "Console_init router prefers loc b =
     \<lparr>co_shell = Shell_init router prefers loc b, co_leaving = False, co_missed = False\<rparr>"

section \<open>Lemmas\<close>

lemma settle_csrf:
  "st_csrf (settle_request csrf loc f) = (if unauthorised f then None else csrf)"
  by (auto simp: unauthorised_def settle_request_def Let_def split: fetched.splits sum.splits option.splits)

lemma assign_iff:
  "st_assign (settle_request csrf loc f) \<noteq> None \<longleftrightarrow>
     unauthorised f \<and> \<not> startsWith (loc_pathname loc) ''/login''"
  by (auto simp: unauthorised_def settle_request_def login_redirect_def Let_def split: fetched.splits sum.splits option.splits)

lemma login_answer_csrf:
  "fst (login_answer loc i f tok l) = None \<Longrightarrow> tok = None \<or> i < length (lg_pending l) \<and> unauthorised f"
  by (auto simp: login_answer_def Let_def settle_csrf setCsrfToken_def split_def
      split: if_splits sum.splits option.splits)

definition armed :: "app \<Rightarrow> bool" where
  \<comment> \<open>a shown username comes with a token\<close>
  "armed a = (au_username (app_auth a) \<noteq> None \<longrightarrow> au_csrf (app_auth a) \<noteq> None)"

lemma armed_auth:
  "armed a \<Longrightarrow> \<not> armed (app_step router a (AuthEvent e)) \<Longrightarrow> answer_refused (AuthEvent e) a"
  by (cases e) (auto simp: armed_def answer_refused_def start_auth_def after_refresh_def after_logout_def
      setCsrfToken_def settle_csrf Let_def split: auth_op.splits sum.splits option.splits if_splits)

lemma armed_step: "armed a \<Longrightarrow> \<not> armed (app_step router a e) \<Longrightarrow> answer_refused e a"
proof (cases e)
  case (AuthEvent x)
  then show "armed a \<Longrightarrow> \<not> armed (app_step router a e) \<Longrightarrow> ?thesis" using armed_auth by blast
next
  case (LoginAnswer i f)
  then show "armed a \<Longrightarrow> \<not> armed (app_step router a e) \<Longrightarrow> ?thesis"
    using login_answer_csrf [of "app_location a" i f "au_csrf (app_auth a)" "app_login a"]
    by (auto simp: armed_def answer_refused_def split_def Let_def)
qed (auto simp: armed_def split: if_splits)

lemma armed_run_app: "armed (sh_app s) \<Longrightarrow> \<not> armed (sh_app (run_app router s e)) \<Longrightarrow> answer_refused e (sh_app s)"
  using armed_step [of "sh_app s" router e] by (auto simp: run_app_def armed_def Let_def split: if_splits)

lemma armed_frame_events:
  "armed (sh_app s) \<Longrightarrow> armed (sh_app (foldl (run_app router) s (frame_events m es)))"
proof -
  have step: "armed (sh_app (run_app router t e))" if "armed (sh_app t)" "e = AuthEvent StartLogout \<or> (\<exists>p. e = GoTo p)" for t e
  proof -
    have "\<not> answer_refused e (sh_app t)" using that(2) by (auto simp: answer_refused_def)
    then show ?thesis using armed_run_app [OF that(1)] by blast
  qed
  have "armed (sh_app (foldl (run_app router) t xs))"
    if "armed (sh_app t)" "\<forall>e \<in> set xs. e = AuthEvent StartLogout \<or> (\<exists>p. e = GoTo p)" for t xs
    using that by (induction xs arbitrary: t) (auto intro: step)
  moreover have "\<forall>e \<in> set (frame_events m es). e = AuthEvent StartLogout \<or> (\<exists>p. e = GoTo p)"
    by (auto simp: frame_events_def split: effect.splits)
  ultimately show "armed (sh_app s) \<Longrightarrow> ?thesis" by blast
qed

definition console_inv :: "console \<Rightarrow> bool" where
  "console_inv s = (armed (co_app s) \<or> co_leaving s \<or> co_missed s)"

lemma armed_init: "armed (App_init router loc)"
  by (simp add: armed_def App_init_def AuthProvider_def start_auth_def)

lemma console_inv_init: "console_inv (Console_init router prefers loc b)"
  by (simp add: console_inv_def Console_init_def co_app_def Shell_init_def armed_init)

lemma noted: "co_leaving (note_refusal a s) \<or> co_missed (note_refusal a s)"
  by (simp add: note_refusal_def)

lemma noted_mono:
  "co_leaving s \<Longrightarrow> co_leaving (note_refusal a s)" "co_missed s \<Longrightarrow> co_missed (note_refusal a s)"
  by (simp_all add: note_refusal_def)

lemma console_inv_step: "console_inv s \<Longrightarrow> console_inv (console_step router prefers s e)"
proof (cases e)
  case (PageAnswer f)
  assume inv: "console_inv s"
  show ?thesis
  proof (cases "unauthorised f")
    case True
    then show ?thesis using PageAnswer noted by (auto simp: console_inv_def Let_def)
  qed (use PageAnswer inv in \<open>auto simp: console_inv_def co_app_def armed_def page_answer_def settle_csrf Let_def\<close>)
next
  case (ShellEvent x)
  assume inv: "console_inv s"
  show ?thesis
  proof (cases x)
    case (FrameMsg m)
    then show ?thesis
      using inv ShellEvent armed_frame_events
      by (auto simp: console_inv_def co_app_def Let_def split: option.splits prod.splits)
  next
    case (AppMsg a)
    then show ?thesis
      using inv ShellEvent armed_run_app [of "co_shell s" router a] noted
      by (auto simp: console_inv_def co_app_def Let_def)
  next
    case (PageLoad loc)
    then show ?thesis
      using ShellEvent by (simp add: console_inv_def co_app_def Shell_init_def armed_init Let_def)
  qed
qed

interpretation console: machine "console_step router prefers" console_inv for router prefers
  by unfold_locales (rule console_inv_step)

section \<open>The check of the server\<close>

definition constantTimeEqual :: "string \<Rightarrow> string \<Rightarrow> bool" where
  \<comment> \<open>accumulates the differences of all bytes; no early exit\<close>
  "constantTimeEqual a b =
     (if length a \<noteq> length b then False
      else foldl (\<lambda>v (x, y). v OR (word_of_int (of_char x) XOR word_of_int (of_char y))) (0 :: 8 word) (zip a b) = 0)"

definition withSession ::
  "(string \<Rightarrow> string option) \<Rightarrow> string option \<Rightarrow> http_request \<Rightarrow> (nat \<times> string) option" where
  \<comment> \<open>\<open>validate\<close> gives the CSRF token of the session a cookie names; \<open>None\<close> lets the request pass\<close>
  "withSession validate cookie r =
     (case cookie of
        None \<Rightarrow> Some (401, ''UNAUTHENTICATED'')
      | Some c \<Rightarrow>
          if c = [] then Some (401, ''UNAUTHENTICATED'')
          else (case validate c of
             None \<Rightarrow> Some (401, ''UNAUTHENTICATED'')
           | Some tok \<Rightarrow>
               if rq_method r \<noteq> ''GET'' \<and> rq_method r \<noteq> ''HEAD'' then
                 (let got = coalesce (map_of (rq_headers r) ''X-CSRF-Token'') []
                  in if got = [] \<or> \<not> constantTimeEqual got tok then Some (403, ''CSRF_TOKEN_INVALID'') else None)
               else None))"

lemma or_eq_0: "(v :: 8 word) OR w = 0 \<longleftrightarrow> v = 0 \<and> w = 0"
  by (auto simp: bit_eq_iff bit_simps)

lemma xor_eq_0: "(v :: 8 word) XOR w = 0 \<longleftrightarrow> v = w"
  by (auto simp: bit_eq_iff bit_simps)

lemma byte_inj: "(word_of_int (of_char x) :: 8 word) = word_of_int (of_char y) \<longleftrightarrow> x = y"
proof
  assume "(word_of_int (of_char x) :: 8 word) = word_of_int (of_char y)"
  then have "(of_char x :: int) mod 256 = of_char y mod 256" by (simp add: word_of_int_eq_iff take_bit_eq_mod)
  moreover have "0 \<le> (of_char c :: int)" "(of_char c :: int) < 256" for c by (simp_all add: of_char_def)
  ultimately have "(of_char x :: int) = of_char y" by simp
  then show "x = y" by simp
qed simp

lemma constantTimeEqual_iff: "constantTimeEqual a b = (a = b)"
proof -
  have "foldl (\<lambda>v (x, y). v OR (word_of_int (of_char x) XOR word_of_int (of_char y))) (v :: 8 word) (zip a b) = 0
      \<longleftrightarrow> v = 0 \<and> a = b" if "length a = length b" for v
    using that by (induction a b arbitrary: v rule: list_induct2) (auto simp: or_eq_0 xor_eq_0 byte_inj)
  then show ?thesis by (auto simp: constantTimeEqual_def)
qed

section \<open>Properties\<close>

text \<open>
  C38. The console shows a user without a CSRF token only on the way out: over every run of pages,
  answers, navigations and page loads, whenever a username is on screen and the token is gone,
  a 401 has already sent the browser to the login page, or it arrived while the address was
  the login page, the one case \<open>request\<close> leaves alone.
\<close>

theorem token_lost_means_leaving:
  assumes "s = foldl (console_step router prefers) (Console_init router prefers loc b) es"
    and "au_username (app_auth (co_app s)) = Some name"
  shows "au_csrf (app_auth (co_app s)) \<noteq> None \<or> co_leaving s \<or> co_missed s"
  using console.inv_run [OF console_inv_init, of router prefers router prefers loc b es] assms
  by (auto simp: console_inv_def armed_def)

theorem token_lost_means_leaving_witness:
  "\<exists>name. au_username (app_auth (co_app (foldl (console_step plain_router False)
      (Console_init plain_router False (pathname_of ''/logs'') a_browser)
      [ShellEvent (AppMsg (AuthEvent (AuthAnswer 0 (answers_with 200 a_session)))), PageAnswer (answers_with 401 ())]))) = Some name
    \<and> co_leaving (foldl (console_step plain_router False)
      (Console_init plain_router False (pathname_of ''/logs'') a_browser)
      [ShellEvent (AppMsg (AuthEvent (AuthAnswer 0 (answers_with 200 a_session)))), PageAnswer (answers_with 401 ())])"
proof -
  let ?s = "foldl (console_step plain_router False) (Console_init plain_router False (pathname_of ''/logs'') a_browser)
      [ShellEvent (AppMsg (AuthEvent (AuthAnswer 0 (answers_with 200 a_session)))), PageAnswer (answers_with 401 ())]"
  have "au_username (app_auth (co_app ?s)) = Some ''admin''" "au_csrf (app_auth (co_app ?s)) = None" "\<not> co_missed ?s"
    by code_simp+
  then show ?thesis using token_lost_means_leaving [OF refl] by blast
qed

text \<open>
  A write passes the CSRF check of the server exactly if the client holds the token of the
  session its cookie names; reads pass without one. The comparison, which looks at every byte
  whatever it finds, decides equality.
\<close>

theorem csrf_check_passes_iff:
  assumes "validate c = Some tok" and "c \<noteq> []" and "tok \<noteq> []"
  shows "withSession validate (Some c) (prepare_request csrf meth path body) = None
    \<longleftrightarrow> meth = ''GET'' \<or> meth = ''HEAD'' \<or> csrf = Some tok"
  using assms by (auto simp: withSession_def prepare_request_def constantTimeEqual_iff Let_def split: option.splits)

theorem csrf_check_passes_iff_witness:
  "withSession (\<lambda>_. Some ''t0k'') (Some ''cookie'') (prepare_request (Some ''t0k'') ''DELETE'' ''/api/v1/users/7'' None) = None"
  using csrf_check_passes_iff [of "\<lambda>_. Some ''t0k''" "''cookie''" "''t0k''" "Some ''t0k''" "''DELETE''"] by simp

text \<open>
  C40. A refused login attempt disarms a running session. An administrator who is signed in, opens
  the login page, mistypes the password and goes back to a page has lost the CSRF token but
  not the session: the page is shown as before, nothing sends the browser away, and the server
  refuses every write from there until the page is loaded again.
\<close>

theorem refused_login_disarms_session:
  assumes "router (loc_pathname (app_location a)) = RLogin" and "at_login a"
    and "\<not> au_loading (app_auth a)" and "au_username (app_auth a) = Some name"
    and "i < length (lg_pending (app_login a))" and "resp_status r = 401"
    and "router (loc_pathname (pathname_of p)) \<in> {RIndex, RUsers, RAnalytics, RServer, RLogs, RSettings}"
    and "validate c = Some tok" and "c \<noteq> []" and "tok \<noteq> []" and "meth \<noteq> ''GET''" and "meth \<noteq> ''HEAD''"
  shows "shown_screen router (foldl (app_step router) a [LoginAnswer i (Responded r), GoTo p])
      = PageScreen (router (loc_pathname (pathname_of p)))
    \<and> snd (snd (login_answer (app_location a) i (Responded r) (au_csrf (app_auth a)) (app_login a))) = []
    \<and> withSession validate (Some c) (prepare_request
        (au_csrf (app_auth (foldl (app_step router) a [LoginAnswer i (Responded r), GoTo p]))) meth path body)
      = Some (403, ''CSRF_TOKEN_INVALID'')"
proof -
  have settled: "settle_request tk (app_location a) (Responded r) =
      \<lparr>st_csrf = None, st_assign = None, st_result = Inl (api_failure 401 ''UNAUTHORIZED'' ''session expired'' [])\<rparr>"
    for tk using assms(2,6) by (simp add: settle_request_def login_redirect_def at_login_def)
  obtain l where la: "login_answer (app_location a) i (Responded r) (au_csrf (app_auth a)) (app_login a) = (None, l, [])"
    using assms(5) by (auto simp: login_answer_def settled Let_def split_def assigns_def)
  let ?b = "app_step router a (LoginAnswer i (Responded r))"
  have b: "app_auth ?b = (app_auth a)\<lparr>au_csrf := None\<rparr>" by (simp add: la)
  have "shown_screen router (move_to router (pathname_of p) ?b) = PageScreen (router (loc_pathname (pathname_of p)))"
    using assms(3,4,7) b by (auto simp: shown_screen_def App_screen_def Protected_def move_to_def simp del: app_step.simps)
  then have "app_step router ?b (GoTo p) = move_to router (pathname_of p) ?b"
    using follow_redirects_stop [of router "move_to router (pathname_of p) ?b" 2] by (simp only: app_step.simps) simp
  then have "shown_screen router (app_step router ?b (GoTo p)) = PageScreen (router (loc_pathname (pathname_of p)))"
    "au_csrf (app_auth (app_step router ?b (GoTo p))) = None"
    using \<open>shown_screen router _ = _\<close> b by (simp_all del: app_step.simps)
  then show ?thesis
    using la assms(8-12) by (simp add: withSession_def prepare_request_def split: option.splits del: app_step.simps)
qed

theorem refused_login_disarms_session_witness:
  "shown_screen plain_router (foldl (app_step plain_router) (App_init plain_router (pathname_of ''/login''))
     [AuthEvent (AuthAnswer 0 (answers_with 200 a_session)), LoginEvent SubmitLogin,
      LoginAnswer 0 (answers_with 401 a_session), GoTo ''/users'']) = PageScreen RUsers"
proof -
  let ?a = "foldl (app_step plain_router) (App_init plain_router (pathname_of ''/login''))
     [AuthEvent (AuthAnswer 0 (answers_with 200 a_session)), LoginEvent SubmitLogin]"
  have "plain_router (loc_pathname (app_location ?a)) = RLogin" "at_login ?a" "\<not> au_loading (app_auth ?a)"
    "au_username (app_auth ?a) = Some ''admin''" "0 < length (lg_pending (app_login ?a))"
    "plain_router (loc_pathname (pathname_of ''/users'')) = RUsers" by code_simp+
  then show ?thesis
    using refused_login_disarms_session [of plain_router ?a "''admin''" 0 _ "''/users''" "\<lambda>_. Some ''t''" "''c''" "''t''" "''POST''"]
    by (simp add: answers_with_def del: app_step.simps)
qed

end
