(* ===== verification/UserForm.thy ===== *)
theory UserForm
  imports DataTable
begin

text \<open>
  The form that creates and edits a proxy user, \<open>web/src/components/UserForm.tsx\<close>: the text
  state it starts from, its edits, the values it submits and its view, with the round trip
  of an untouched edit.
\<close>

section \<open>State and edits\<close>

record user_form =
  fm_username :: string
  fm_password :: string
  fm_protocols :: "string list"
  fm_downMbps :: string
  fm_upMbps :: string
  fm_maxConn :: string
  fm_quotaDailyMB :: string
  fm_quotaMonthlyGB :: string
  fm_expires :: string

definition scaled_text :: "int \<Rightarrow> int \<Rightarrow> string" where
  \<comment> \<open>\<open>limit ? String(limit / scale) : ""\<close>\<close>
  "scaled_text limit scl =
     (if js_truthy (jint limit) then js_String (js_div (jint limit) (jint scl)) else [])"

definition rounded_text :: "int \<Rightarrow> int \<Rightarrow> string" where
  \<comment> \<open>\<open>quota ? String(Math.round(quota / scale)) : ""\<close>\<close>
  "rounded_text quota scl =
     (if js_truthy (jint quota) then js_String (math_round (js_div (jint quota) (jint scl))) else [])"

definition UserForm_init :: "'x proxy_user_scheme option \<Rightarrow> user_form" where
  "UserForm_init user =
     (case user of
        None \<Rightarrow>
          \<lparr>fm_username = [], fm_password = [], fm_protocols = [''http'', ''socks5''],
           fm_downMbps = [], fm_upMbps = [], fm_maxConn = [], fm_quotaDailyMB = [],
           fm_quotaMonthlyGB = [], fm_expires = []\<rparr>
      | Some u \<Rightarrow>
          \<lparr>fm_username = u_username u, fm_password = [],
           fm_protocols = u_allowed_protocols u,
           fm_downMbps = scaled_text (u_download_limit_bps u) 1000000,
           fm_upMbps = scaled_text (u_upload_limit_bps u) 1000000,
           fm_maxConn = (if js_truthy (jint (u_max_connections u))
                         then js_String (jint (u_max_connections u)) else []),
           fm_quotaDailyMB = rounded_text (u_quota_bytes_daily u) 1000000,
           fm_quotaMonthlyGB = rounded_text (u_quota_bytes_monthly u) 1000000000,
           fm_expires = (if absent (u_expires_at u) then [] else take 10 (the (u_expires_at u)))\<rparr>)"

definition toggleProto :: "string \<Rightarrow> string list \<Rightarrow> string list" where
  "toggleProto p cur = (if p \<in> set cur then filter (\<lambda>x. x \<noteq> p) cur else cur @ [p])"

datatype form_msg =
    SetUsername string
  | SetPassword string
  | ToggleProto string
  | SetDownMbps string
  | SetUpMbps string
  | SetMaxConn string
  | SetQuotaDailyMB string
  | SetQuotaMonthlyGB string
  | SetExpires string
  | Submit

fun form_update :: "form_msg \<Rightarrow> user_form \<Rightarrow> user_form" where
  "form_update (SetUsername s) f = f\<lparr>fm_username := s\<rparr>"
| "form_update (SetPassword s) f = f\<lparr>fm_password := s\<rparr>"
| "form_update (ToggleProto p) f = f\<lparr>fm_protocols := toggleProto p (fm_protocols f)\<rparr>"
| "form_update (SetDownMbps s) f = f\<lparr>fm_downMbps := s\<rparr>"
| "form_update (SetUpMbps s) f = f\<lparr>fm_upMbps := s\<rparr>"
| "form_update (SetMaxConn s) f = f\<lparr>fm_maxConn := s\<rparr>"
| "form_update (SetQuotaDailyMB s) f = f\<lparr>fm_quotaDailyMB := s\<rparr>"
| "form_update (SetQuotaMonthlyGB s) f = f\<lparr>fm_quotaMonthlyGB := s\<rparr>"
| "form_update (SetExpires s) f = f\<lparr>fm_expires := s\<rparr>"
| "form_update Submit f = f"

section \<open>Submitted values\<close>

record form_values =
  v_username :: string
  v_password :: "string option" \<comment> \<open>absent or undefined when \<open>None\<close>\<close>
  v_allowed_protocols :: "string list"
  v_download_limit_bps :: jsnum
  v_upload_limit_bps :: jsnum
  v_max_connections :: jsnum
  v_quota_bytes_daily :: jsnum
  v_quota_bytes_monthly :: jsnum
  v_expires_at :: "string option"

definition parse_scaled :: "string \<Rightarrow> int \<Rightarrow> jsnum" where
  \<comment> \<open>\<open>text ? Math.round(parseFloat(text) * scale) : 0\<close>\<close>
  "parse_scaled s scl =
     (if s \<noteq> [] then math_round (js_mul (parseFloat s) (jint scl)) else Fin 0)"

definition parse_expiry :: "string \<Rightarrow> (string option) option" where
  \<comment> \<open>\<open>None\<close>: \<open>toISOString\<close> throws on an invalid date\<close>
  "parse_expiry s =
     (if s = [] then Some None
      else map_option (\<lambda>t. Some (toISOString t)) (date_value (s @ ''T23:59:59Z'')))"

definition form_submit :: "bool \<Rightarrow> user_form \<Rightarrow> form_values option" where
  \<comment> \<open>the values handed to \<open>onSubmit\<close>; \<open>is_edit\<close> when the form was given a user\<close>
  "form_submit is_edit f =
     (case parse_expiry (fm_expires f) of
        None \<Rightarrow> None
      | Some expires \<Rightarrow> Some
          \<lparr>v_username = trim (fm_username f),
           v_password = (if is_edit \<or> fm_password f = [] then None else Some (fm_password f)),
           v_allowed_protocols = fm_protocols f,
           v_download_limit_bps = parse_scaled (fm_downMbps f) 1000000,
           v_upload_limit_bps = parse_scaled (fm_upMbps f) 1000000,
           v_max_connections = (if fm_maxConn f \<noteq> [] then parseInt10 (fm_maxConn f) else Fin 0),
           v_quota_bytes_daily = parse_scaled (fm_quotaDailyMB f) 1000000,
           v_quota_bytes_monthly = parse_scaled (fm_quotaMonthlyGB f) 1000000000,
           v_expires_at = expires\<rparr>)"

definition opt_str :: "string option \<Rightarrow> jsval \<Rightarrow> jsval" where
  "opt_str x d = (case x of None \<Rightarrow> d | Some s \<Rightarrow> JStr s)"

definition form_members :: "form_values \<Rightarrow> (string \<times> jsval) list" where
  "form_members v =
     [(''username'', JStr (v_username v)),
      (''password'', opt_str (v_password v) JUndef),
      (''allowed_protocols'', JArr (List.map JStr (v_allowed_protocols v))),
      (''download_limit_bps'', JNum (v_download_limit_bps v)),
      (''upload_limit_bps'', JNum (v_upload_limit_bps v)),
      (''max_connections'', JNum (v_max_connections v)),
      (''quota_bytes_daily'', JNum (v_quota_bytes_daily v)),
      (''quota_bytes_monthly'', JNum (v_quota_bytes_monthly v)),
      (''expires_at'', opt_str (v_expires_at v) JNull)]"

section \<open>The view\<close>

definition PROTOS :: "string list" where
  "PROTOS = [''http'', ''socks5'']"

definition limit_input :: "string \<Rightarrow> string \<Rightarrow> string \<Rightarrow> string \<Rightarrow> (string \<Rightarrow> 'm) \<Rightarrow> 'm node" where
  "limit_input label mode v hint set_msg =
     FormInput label (Some hint)
       [Attr ''inputMode'' mode, Attr ''placeholder'' ''unlimited'', Attr ''value'' v, OnInput set_msg]"

definition UserForm :: "bool \<Rightarrow> string \<Rightarrow> user_form \<Rightarrow> form_msg node" where
  "UserForm is_edit submitLabel f =
     Elem ''form'' [OnSubmit Submit]
      [Elem ''div'' []
        [FormInput ''Username'' None
           [Attr ''value'' (fm_username f), OnInput SetUsername, Flag ''disabled'' is_edit,
            Flag ''required'' True, Attr ''pattern'' ''[a-zA-Z0-9_.-]+'',
            Attr ''title'' ''Letters, digits, dot, underscore, dash''],
         show_if (\<not> is_edit)
           (FormInput ''Password'' (Some ''Leave empty to generate'')
             [Attr ''type'' ''password'', Attr ''value'' (fm_password f), OnInput SetPassword,
              Attr ''autoComplete'' ''new-password''])],
       Elem ''div'' []
        [Elem ''span'' [] [Text ''Protocols''],
         Elem ''div'' []
          (List.map (\<lambda>p. Elem ''label'' []
             [Toggle (p \<in> set (fm_protocols f)) (\<lambda>_. ToggleProto p) p, Text (toUpperCase p)]) PROTOS)],
       Elem ''div'' []
        [limit_input ''Download limit'' ''decimal'' (fm_downMbps f) (''Mbps '' @ mdash @ '' empty = unlimited'') SetDownMbps,
         limit_input ''Upload limit'' ''decimal'' (fm_upMbps f) (''Mbps '' @ mdash @ '' empty = unlimited'') SetUpMbps,
         limit_input ''Max connections'' ''numeric'' (fm_maxConn f) ''Control-plane enforced'' SetMaxConn,
         FormInput ''Expires'' (Some ''Empty = never expires'')
           [Attr ''type'' ''date'', Attr ''value'' (fm_expires f), OnInput SetExpires]],
       Elem ''div'' []
        [limit_input ''Daily quota'' ''decimal'' (fm_quotaDailyMB f) ''MB'' SetQuotaDailyMB,
         limit_input ''Monthly quota'' ''decimal'' (fm_quotaMonthlyGB f) ''GB'' SetQuotaMonthlyGB],
       Elem ''div'' [] [Button Primary SizeM [Attr ''type'' ''submit''] [Text submitLabel]]]"

section \<open>Round trips\<close>

lemma jint_truthy: "\<bar>n\<bar> \<le> 2 ^ 53 \<Longrightarrow> js_truthy (jint n) = (n \<noteq> 0)"
  by (simp add: jint_small js_truthy_def)

lemma parseFloat_String:
  assumes "fl y = y" "1 / 10 ^ 6 \<le> y" "y < 10 ^ 20"
  shows "js_String (Fin y) \<noteq> [] \<and> parseFloat (js_String (Fin y)) = Fin y"
proof -
  have "0 < y" using assms(2) by (rule less_le_trans [rotated]) simp
  then have "js_String (Fin y) = pos_string y" by simp
  moreover have "parseFloat [] = NaN" by code_simp
  ultimately show ?thesis using parseFloat_pos_string [OF assms] by force
qed

text \<open>The quotient of an integer by a scale, written, read and scaled back.\<close>

lemma scaled_quotient:
  assumes n: "1 < n" "n < 2 ^ 50" and u: "1 \<le> u" "u \<le> 10 ^ 6"
  shows "parse_scaled (js_String (js_div (jint n) (jint u))) u = jint n"
proof -
  define x where "x = (of_int n / of_int u :: rat)"
  have nq: "2 \<le> (of_int n :: rat)" "(of_int n :: rat) < 2 ^ 50"
    using n(1) of_int_le_iff [of 2 n, where 'a = rat] n(2) of_int_less_iff [of n "2 ^ 50", where 'a = rat]
    by simp_all
  have uq: "1 \<le> (of_int u :: rat)" "(of_int u :: rat) \<le> 10 ^ 6" "(of_int u :: rat) \<le> 2 ^ 40"
    using u(1) of_int_le_iff [of 1 u, where 'a = rat] u(2) of_int_le_iff [of u "10 ^ 6", where 'a = rat]
    by simp_all
  have j: "jint n = Fin (of_int n)" "jint u = Fin (of_int u)" using n u by (simp_all add: jint_small)
  have x: "2 / 10 ^ 6 \<le> x" "x < 2 ^ 50"
  proof -
    have "2 / 10 ^ 6 \<le> of_int n / (10 ^ 6 :: rat)" using nq by (intro divide_right_mono) auto
    also have "\<dots> \<le> x" unfolding x_def using nq uq by (intro divide_left_mono) auto
    finally show "2 / 10 ^ 6 \<le> x" .
    have "x \<le> of_int n" unfolding x_def using nq uq by (simp add: divide_le_eq mult_left_le)
    then show "x < 2 ^ 50" using nq by simp
  qed
  have "min_normal \<le> \<bar>x\<bar>" using x(1) min_normal_le by simp
  then have e: "\<bar>fl x - x\<bar> \<le> \<bar>x\<bar> * 2 powi (- 53)" by (rule fl_rel_error)
  have "(2::rat) powi (- 53) \<le> 1 / 2" by (simp add: power_int_minus)
  then have "\<bar>x\<bar> * 2 powi (- 53) \<le> \<bar>x\<bar> * (1 / 2)" by (rule mult_left_mono) simp
  with e x have b: "1 / 10 ^ 6 \<le> fl x" "fl x < 2 ^ 51" by (simp_all add: abs_if split: if_splits)
  have big: "(2::rat) ^ 100 < 2 powi 1000"
    using power_int_strict_increasing [of 100 1000 "2::rat"] by simp
  have d: "js_div (jint n) (jint u) = Fin (fl x)"
  proof -
    have "\<bar>x\<bar> < 2 powi 1000" using x big by simp
    then show ?thesis using uq by (simp add: j x_def num_moderate)
  qed
  have s: "js_String (Fin (fl x)) \<noteq> []" "parseFloat (js_String (Fin (fl x))) = Fin (fl x)"
    using parseFloat_String [of "fl x"] b by simp_all
  have m: "js_mul (Fin (fl x)) (jint u) = Fin (fl (fl x * of_int u))"
  proof -
    have "fl x * of_int u \<le> 2 ^ 51 * 2 ^ 40" using b uq by (intro mult_mono) auto
    then have "\<bar>fl x * of_int u\<bar> < 2 powi 1000" using b uq big by (simp add: abs_mult)
    then show ?thesis by (simp add: j num_moderate)
  qed
  have "\<lfloor>fl (fl x * of_int u) + 1 / 2\<rfloor> = n"
    unfolding x_def using n uq by (intro fl_div_mul_round) simp_all
  then have "math_round (js_mul (Fin (fl x)) (jint u)) = jint n" by (simp only: m math_round.simps j(1))
  then show ?thesis unfolding d using s by (simp only: parse_scaled_def if_True simp_thms)
qed

lemma scaled_roundtrip:
  assumes "0 \<le> n" "n < 2 ^ 50"
  shows "parse_scaled (scaled_text n 1000000) 1000000 = jint n"
proof -
  consider "n = 0" | "n = 1" | "1 < n" using assms by linarith
  then show ?thesis
  proof cases
    case 1
    then show ?thesis by (simp add: parse_scaled_def scaled_text_def jint_def js_truthy_def)
  next
    case 2
    have "js_String (js_div (jint 1) (jint 1000000)) = ''0.000001''" by code_simp
    moreover have "parse_scaled ''0.000001'' 1000000 = jint 1" by code_simp
    ultimately show ?thesis using 2 by (simp only: scaled_text_def jint_truthy if_True) (simp add: jint_truthy)
  next
    case 3
    then show ?thesis
      using scaled_quotient [of n 1000000] assms by (simp add: scaled_text_def jint_truthy)
  qed
qed

lemma count_roundtrip:
  assumes "0 \<le> n" "n < 10 ^ 15"
  shows "(let t = if js_truthy (jint n) then js_String (jint n) else []
          in if t \<noteq> [] then parseInt10 t else Fin 0) = jint n"
proof (cases "n = 0")
  case True
  then show ?thesis by (simp add: jint_def js_truthy_def)
next
  case False
  then have "js_String (jint n) = digits n"
    using assms js_String_int [of n] by (simp add: jint_small int_string_def)
  then show ?thesis
    using False assms parseInt10_digits [of n] digits_nonempty [of n]
    by (simp add: jint_truthy jint_small js_truthy_def)
qed

text \<open>A quota is rounded to its unit when the form opens, and that multiple is what it saves.\<close>

lemma rounded_roundtrip:
  assumes n: "0 \<le> n" "n < 2 ^ 52" and v: "10 \<le> v" "v \<le> 10 ^ 9"
  shows "parse_scaled (rounded_text n (2 * v)) (2 * v) = jint (2 * v * ((n + v) div (2 * v)))"
proof (cases "n = 0")
  case True
  then show ?thesis using v by (simp add: rounded_text_def parse_scaled_def jint_small js_truthy_def)
next
  case False
  define q where "q = (n + v) div (2 * v)"
  have j: "jint n = Fin (of_int n)" "jint (2 * v) = Fin (of_int (2 * v))"
    using n v jint_small [of n] jint_small [of "2 * v"] by simp_all
  have x: "\<bar>of_int n / of_int (2 * v) :: rat\<bar> < 2 powi 1000"
  proof -
    have "1 \<le> (of_int (2 * v) :: rat)" using v by (simp only: of_int_1_le_iff)
    moreover have "(of_int n :: rat) < of_int (2 ^ 52)" using n by (simp only: of_int_less_iff)
    moreover have "0 \<le> (of_int n :: rat)" using n by (simp only: of_int_0_le_iff)
    moreover from calculation have "(of_int n :: rat) * 1 \<le> of_int n * of_int (2 * v)"
      by (intro mult_left_mono) simp_all
    ultimately have "of_int n / of_int (2 * v) \<le> (of_int n :: rat)" "0 \<le> (of_int n / of_int (2 * v) :: rat)"
      by (auto simp: divide_le_eq mult_left_le)
    moreover have "(2::rat) ^ 52 < 2 powi 1000" using power_int_strict_increasing [of 52 1000 "2::rat"] by simp
    ultimately show ?thesis using \<open>(of_int n :: rat) < of_int (2 ^ 52)\<close> by simp
  qed
  have b: "0 \<le> q" "2 * v * q \<le> n + v"
    using n v by (simp_all add: q_def pos_imp_zdiv_nonneg_iff) (metis mult_div_mod_eq pos_mod_sign
      add_le_same_cancel1 le_add_same_cancel1 mult_pos_pos zero_less_numeral zero_less_one less_le_trans)
  have qb: "q < 10 ^ 15" "2 * v * q < 2 ^ 53"
  proof -
    have "2 * v * q < 2 ^ 52 + 10 ^ 9" using b(2) n(2) v(2) by linarith
    moreover have "20 * q \<le> 2 * v * q" using b(1) v(1) by (intro mult_right_mono) simp_all
    ultimately show "q < 10 ^ 15" "2 * v * q < 2 ^ 53" by simp_all
  qed
  have "math_round (js_div (jint n) (jint (2 * v))) = Fin (of_int q)"
    using fl_div_round [OF n, of v] v x by (simp add: j num_moderate q_def del: of_int_mult)
  then have t: "rounded_text n (2 * v) = digits q"
    using False n b qb js_String_int [of q] by (simp add: rounded_text_def jint_truthy int_string_def)
  have p: "parseFloat (digits q) = Fin (of_int q)"
  proof (cases "q = 0")
    case True
    have "parseFloat (digits 0) = Fin 0" by code_simp
    then show ?thesis using True by simp
  next
    case False
    then have q: "1 \<le> (of_int q :: rat)" "(of_int q :: rat) < of_int (10 ^ 15)"
      using b qb by (simp_all only: of_int_less_iff)
    then have "parseFloat (js_String (Fin (of_int q))) = Fin (of_int q)"
      using qb b by (intro parseFloat_String [THEN conjunct2] fl_of_int) simp_all
    then show ?thesis using js_String_int [of q] b qb by (simp add: int_string_def)
  qed
  have "parse_scaled (digits q) (2 * v) = math_round (js_mul (Fin (of_int q)) (jint (2 * v)))"
    using digits_nonempty [of q] by (simp add: parse_scaled_def p)
  also have "\<dots> = math_round (num (of_int (2 * v * q)))" unfolding j by (simp add: mult.commute)
  also have "\<dots> = jint (2 * v * q)"
    using qb b v num_of_int [of "2 * v * q"] by (simp add: jint_def floor_eq_iff)
  finally show ?thesis by (simp only: t q_def)
qed

section \<open>Properties\<close>

text \<open>
  C24. Opening the form on a user and saving it untouched keeps the bandwidth limits and the
  connection limit exactly, for limits below 2^50 bit/s, although they pass through a quotient
  of binary64 numbers and its decimal text; it keeps the protocols and sends no password.
\<close>

theorem untouched_edit_keeps_limits:
  assumes "0 \<le> u_download_limit_bps u" "u_download_limit_bps u < 2 ^ 50"
    and "0 \<le> u_upload_limit_bps u" "u_upload_limit_bps u < 2 ^ 50"
    and "0 \<le> u_max_connections u" "u_max_connections u < 10 ^ 15"
    and "form_submit True (UserForm_init (Some u)) = Some v"
  shows "v_download_limit_bps v = jint (u_download_limit_bps u)
    \<and> v_upload_limit_bps v = jint (u_upload_limit_bps u)
    \<and> v_max_connections v = jint (u_max_connections u)
    \<and> v_allowed_protocols v = u_allowed_protocols u \<and> v_username v = trim (u_username u)
    \<and> json_member (JObj (form_members v)) ''password'' = JUndef"
  using assms(7) scaled_roundtrip [OF assms(1,2)] scaled_roundtrip [OF assms(3,4)]
    count_roundtrip [OF assms(5,6)]
  by (auto simp: form_submit_def UserForm_init_def form_members_def opt_str_def Let_def
      split: option.splits)

definition sample_user :: proxy_user where
  "sample_user =
     \<lparr>u_id = 7, u_username = ''alice'', u_status = Active, u_allowed_protocols = [''http''],
      u_download_limit_bps = 12345678, u_upload_limit_bps = 0, u_max_connections = 25,
      u_quota_bytes_daily = 0, u_quota_bytes_monthly = 400000000,
      u_expires_at = Some ''2025-03-01T08:30:00Z'', u_version = 3,
      u_created_at = ''2025-01-01T00:00:00Z'', u_updated_at = ''2025-01-01T00:00:00Z'',
      u_last_seen_at = None\<rparr>"

lemma sample_submits: "\<exists>v. form_submit True (UserForm_init (Some sample_user)) = Some v"
proof -
  have "parse_expiry (fm_expires (UserForm_init (Some sample_user))) = Some (Some ''2025-03-01T23:59:59.000Z'')"
    by (simp add: UserForm_init_def sample_user_def absent_def) code_simp
  then show ?thesis by (simp add: form_submit_def)
qed

theorem untouched_edit_keeps_limits_witness:
  "\<exists>v. form_submit True (UserForm_init (Some sample_user)) = Some v
     \<and> v_download_limit_bps v = jint 12345678 \<and> v_max_connections v = jint 25"
proof -
  obtain v where v: "form_submit True (UserForm_init (Some sample_user)) = Some v"
    using sample_submits by blast
  show ?thesis
    using untouched_edit_keeps_limits [OF _ _ _ _ _ _ v] v by (simp add: sample_user_def)
qed

text \<open>
  Quotas do not survive an untouched edit: the daily quota is saved as the nearest whole
  number of megabytes and the monthly one as the nearest whole number of gigabytes, halves
  upwards. A quota below half a unit is saved as zero.
\<close>

theorem untouched_edit_rounds_quotas:
  assumes "0 \<le> u_quota_bytes_daily u" "u_quota_bytes_daily u < 2 ^ 52"
    and "0 \<le> u_quota_bytes_monthly u" "u_quota_bytes_monthly u < 2 ^ 52"
    and "form_submit True (UserForm_init (Some u)) = Some v"
  shows "v_quota_bytes_daily v = jint (1000000 * ((u_quota_bytes_daily u + 500000) div 1000000))
    \<and> v_quota_bytes_monthly v
        = jint (1000000000 * ((u_quota_bytes_monthly u + 500000000) div 1000000000))"
  using assms(5) rounded_roundtrip [OF assms(1,2), of 500000] rounded_roundtrip [OF assms(3,4), of 500000000]
  by (auto simp: form_submit_def UserForm_init_def split: option.splits)

theorem untouched_edit_rounds_quotas_witness:
  "\<exists>v. form_submit True (UserForm_init (Some sample_user)) = Some v
     \<and> v_quota_bytes_monthly v = jint 0 \<and> u_quota_bytes_monthly sample_user = 400000000"
proof -
  obtain v where v: "form_submit True (UserForm_init (Some sample_user)) = Some v"
    using sample_submits by blast
  show ?thesis
    using untouched_edit_rounds_quotas [OF _ _ _ _ v] v by (simp add: sample_user_def)
qed

text \<open>
  An expiry date is saved as the last second of its day in UTC. Editing a user whose
  expiry is any time of that day, and saving, moves the expiry to the end of the same day.
\<close>

theorem expiry_moves_to_end_of_day:
  assumes "valid_date y m d" and "u_expires_at u = Some (date_text y m d @ clock)"
    and "form_submit True (UserForm_init (Some u)) = Some v"
  shows "v_expires_at v = Some (date_text y m d @ ''T23:59:59.000Z'')"
proof -
  have "absent (u_expires_at u) = False" "take 10 (date_text y m d @ clock) = date_text y m d"
    using length_date_text [OF assms(1)] by (auto simp: absent_def assms(2))
  moreover have "date_text y m d \<noteq> []" using length_date_text [OF assms(1)] by auto
  ultimately show ?thesis
    using assms(3) end_of_day_roundtrip [OF assms(1)] assms(2)
    by (auto simp: form_submit_def UserForm_init_def parse_expiry_def split: option.splits)
qed

theorem expiry_moves_to_end_of_day_witness:
  "\<exists>v. form_submit True (UserForm_init (Some sample_user)) = Some v
     \<and> v_expires_at v = Some (date_text 2025 3 1 @ ''T23:59:59.000Z'')"
proof -
  obtain v where v: "form_submit True (UserForm_init (Some sample_user)) = Some v"
    using sample_submits by blast
  have "valid_date 2025 3 1" "u_expires_at sample_user = Some (date_text 2025 3 1 @ ''T08:30:00Z'')"
    by code_simp+
  then show ?thesis using expiry_moves_to_end_of_day [OF _ _ v] v by blast
qed

text \<open>
  A limit field whose text is not a finite number is not refused: the body carries \<open>null\<close>
  for it, which is what is sent whenever the text is non-empty and does not start with a number.
\<close>

theorem unreadable_limit_is_null:
  assumes "form_submit is_edit f = Some v" and "fm_downMbps f \<noteq> []" and "parseFloat (fm_downMbps f) = NaN"
  shows "stringify (json_member (JObj (form_members v)) ''download_limit_bps'') = ''null''"
  using assms by (auto simp: form_submit_def form_members_def parse_scaled_def split: option.splits)

theorem unreadable_limit_is_null_witness:
  "\<exists>v. form_submit False ((UserForm_init (None :: proxy_user option))\<lparr>fm_downMbps := ''ten''\<rparr>) = Some v
     \<and> stringify (json_member (JObj (form_members v)) ''download_limit_bps'') = ''null''"
proof -
  let ?f = "(UserForm_init (None :: proxy_user option))\<lparr>fm_downMbps := ''ten''\<rparr>"
  obtain v where v: "form_submit False ?f = Some v"
    by (simp add: form_submit_def UserForm_init_def parse_expiry_def)
  have "parseFloat ''ten'' = NaN" by code_simp
  then show ?thesis using unreadable_limit_is_null [OF v] v by simp
qed

end
