(* ===== verification/UsersPage.thy ===== *)
theory UsersPage
  imports UserForm
begin

text \<open>
  The users page, \<open>web/src/pages/Users.tsx\<close>, with the two modals it defines. The state is the
  page's own and that of the modals while they are mounted. A request in flight is tagged with
  the function that awaits it; an answer picks one of them, so answers come in any order. A
  function started by a modal updates that mount of it only, identified by a number.
\<close>

section \<open>State\<close>

record form_modal =
  md_id :: nat
  md_form :: user_form
  md_error :: "string option"
  md_busy :: bool

record credential_modal =
  cm_id :: nat
  cm_cred :: new_credential
  cm_copied :: "string option"

datatype users_tag =
    Act
  | OnCreate nat \<comment> \<open>the mount of the modal that submitted\<close>
  | OnEdit nat
  | OnRotate

datatype status_filter = AllUsers | OnlyStatus user_status

record users_page =
  us_list :: "proxy_user list api_state"
  us_filter :: status_filter
  us_creating :: "form_modal option"
  us_editing :: "(proxy_user \<times> form_modal) option"
  us_credential :: "credential_modal option"
  us_confirmDelete :: "proxy_user option"
  us_error :: "string option"
  us_sort :: sort_state
  us_pending :: "users_tag list"
  us_next :: nat \<comment> \<open>the number of the next mount\<close>

definition Users_init :: users_page where
  "Users_init =
     \<lparr>us_list = useApi (Some ''/api/v1/users''), us_filter = AllUsers, us_creating = None,
      us_editing = None, us_credential = None, us_confirmDelete = None, us_error = None,
      us_sort = None, us_pending = [], us_next = 0\<rparr>"

definition open_form :: "proxy_user option \<Rightarrow> nat \<Rightarrow> form_modal" where
  "open_form user i =
     \<lparr>md_id = i, md_form = UserForm_init user, md_error = None, md_busy = False\<rparr>"

section \<open>Operations\<close>

datatype users_msg =
    SetFilter status_filter
  | StartCreate
  | CloseCreate
  | CreateForm form_msg
  | StartEdit proxy_user
  | CloseEdit
  | EditForm form_msg
  | Disable proxy_user
  | Enable proxy_user
  | Rotate proxy_user
  | ResetQuota proxy_user
  | AskDelete proxy_user
  | CancelDelete
  | ConfirmDelete
  | OpenUser proxy_user
  | CopyText string string
  | ClipboardWritten nat string \<comment> \<open>the promise of \<open>writeText\<close>, by mount and key\<close>
  | CopyTimeout nat
  | CloseCredential
  | SortUsers string

definition user_url :: "'x proxy_user_scheme \<Rightarrow> string \<Rightarrow> string" where
  "user_url u suffix = ''/api/v1/users/'' @ js_String (jint (u_id u)) @ suffix"

definition version_of :: "'x proxy_user_scheme \<Rightarrow> string \<times> jsval" where
  "version_of u = (''version'', JNum (jint (u_version u)))"

definition await_call :: "users_tag \<Rightarrow> call \<Rightarrow> users_page \<Rightarrow> users_page \<times> effect list" where
  "await_call t c s = (s\<lparr>us_pending := us_pending s @ [t]\<rparr>, [Send c])"

definition act :: "call \<Rightarrow> users_page \<Rightarrow> users_page \<times> effect list" where
  "act c s = await_call Act c (s\<lparr>us_error := None\<rparr>)"

definition start_submit :: "form_modal \<Rightarrow> form_modal" where
  "start_submit m = m\<lparr>md_busy := True, md_error := None\<rparr>"

fun users_update :: "users_msg \<Rightarrow> users_page \<Rightarrow> users_page \<times> effect list" where
  "users_update (SetFilter f) s = (s\<lparr>us_filter := f\<rparr>, [])"
| "users_update StartCreate s =
     (if us_creating s = None
      then (s\<lparr>us_creating := Some (open_form None (us_next s)), us_next := us_next s + 1\<rparr>, [])
      else (s, []))"
| "users_update CloseCreate s = (s\<lparr>us_creating := None\<rparr>, [])"
| "users_update (CreateForm fm) s =
     (case us_creating s of
        None \<Rightarrow> (s, [])
      | Some m \<Rightarrow>
          (case fm of
             Submit \<Rightarrow>
               (case form_submit False (md_form m) of
                  None \<Rightarrow> (s, [])
                | Some v \<Rightarrow>
                    await_call (OnCreate (md_id m)) (api_post ''/api/v1/users'' (Some (JObj (form_members v))))
                      (s\<lparr>us_creating := Some (start_submit m)\<rparr>))
           | _ \<Rightarrow> (s\<lparr>us_creating := Some (m\<lparr>md_form := form_update fm (md_form m)\<rparr>)\<rparr>, [])))"
| "users_update (StartEdit u) s =
     (case us_editing s of
        None \<Rightarrow> (s\<lparr>us_editing := Some (u, open_form (Some u) (us_next s)), us_next := us_next s + 1\<rparr>, [])
      | Some (_, m) \<Rightarrow> (s\<lparr>us_editing := Some (u, m)\<rparr>, []))"
| "users_update CloseEdit s = (s\<lparr>us_editing := None\<rparr>, [])"
| "users_update (EditForm fm) s =
     (case us_editing s of
        None \<Rightarrow> (s, [])
      | Some (u, m) \<Rightarrow>
          (case fm of
             Submit \<Rightarrow>
               (case form_submit True (md_form m) of
                  None \<Rightarrow> (s, [])
                | Some v \<Rightarrow>
                    await_call (OnEdit (md_id m))
                      (api_patch (user_url u []) (JObj (form_members v @ [version_of u])))
                      (s\<lparr>us_editing := Some (u, start_submit m)\<rparr>))
           | _ \<Rightarrow> (s\<lparr>us_editing := Some (u, m\<lparr>md_form := form_update fm (md_form m)\<rparr>)\<rparr>, [])))"
| "users_update (Disable u) s = act (api_post (user_url u ''/disable'') (Some (JObj [version_of u]))) s"
| "users_update (Enable u) s = act (api_post (user_url u ''/enable'') (Some (JObj [version_of u]))) s"
| "users_update (Rotate u) s =
     await_call OnRotate (api_post (user_url u ''/rotate-credentials'') (Some (JObj [version_of u])))
       (s\<lparr>us_error := None\<rparr>)"
| "users_update (ResetQuota u) s =
     act (api_post (user_url u ''/reset-quota'') (Some (JObj [version_of u]))) s"
| "users_update (AskDelete u) s = (s\<lparr>us_confirmDelete := Some u\<rparr>, [])"
| "users_update CancelDelete s = (s\<lparr>us_confirmDelete := None\<rparr>, [])"
| "users_update ConfirmDelete s =
     (case us_confirmDelete s of
        None \<Rightarrow> (s, [])
      | Some u \<Rightarrow> act (api_del (user_url u []) (Some (JObj [version_of u]))) (s\<lparr>us_confirmDelete := None\<rparr>))"
| "users_update (OpenUser u) s = (s, [Navigate (''/users/'' @ js_String (jint (u_id u))) False])"
| "users_update (CopyText text key) s = (s, [WriteClipboard text])"
| "users_update (ClipboardWritten i key) s =
     (case us_credential s of
        Some c \<Rightarrow> (if cm_id c = i then s\<lparr>us_credential := Some (c\<lparr>cm_copied := Some key\<rparr>)\<rparr> else s, [])
      | None \<Rightarrow> (s, []))"
| "users_update (CopyTimeout i) s =
     (case us_credential s of
        Some c \<Rightarrow> (if cm_id c = i then s\<lparr>us_credential := Some (c\<lparr>cm_copied := None\<rparr>)\<rparr> else s, [])
      | None \<Rightarrow> (s, []))"
| "users_update CloseCredential s = (s\<lparr>us_credential := None\<rparr>, [])"
| "users_update (SortUsers key) s = (s\<lparr>us_sort := toggleSort key (us_sort s)\<rparr>, [])"

definition setCredential :: "new_credential option \<Rightarrow> users_page \<Rightarrow> users_page" where
  \<comment> \<open>an open credential modal stays mounted and shows the new credential\<close>
  "setCredential cred s =
     (case cred of
        None \<Rightarrow> s\<lparr>us_credential := None\<rparr>
      | Some c \<Rightarrow>
          (case us_credential s of
             None \<Rightarrow> s\<lparr>us_credential := Some \<lparr>cm_id = us_next s, cm_cred = c, cm_copied = None\<rparr>,
                       us_next := us_next s + 1\<rparr>
           | Some old \<Rightarrow> s\<lparr>us_credential := Some (old\<lparr>cm_cred := c\<rparr>)\<rparr>))"

definition reload_users :: "users_page \<Rightarrow> users_page" where
  "reload_users s = s\<lparr>us_list := reload (us_list s)\<rparr>"

definition end_submit :: "nat \<Rightarrow> string option \<Rightarrow> form_modal \<Rightarrow> form_modal" where
  \<comment> \<open>the handler and the \<open>finally\<close> of the modal's submit function\<close>
  "end_submit i err m =
     (if md_id m = i then m\<lparr>md_busy := False, md_error := (if err = None then md_error m else err)\<rparr> else m)"

definition users_settle :: "users_tag \<Rightarrow> failure + new_credential option \<Rightarrow> users_page \<Rightarrow> users_page" where
  "users_settle t r s =
     (case t of
        Act \<Rightarrow>
          (case r of
             Inr _ \<Rightarrow> reload_users s
           | Inl err \<Rightarrow> s\<lparr>us_error := Some (failure_message err)\<rparr>)
      | OnCreate i \<Rightarrow>
          (case r of
             Inr cred \<Rightarrow> reload_users (setCredential cred (s\<lparr>us_creating := None\<rparr>))
           | Inl err \<Rightarrow> s\<lparr>us_creating := map_option (end_submit i (Some (failure_message err))) (us_creating s)\<rparr>)
      | OnEdit i \<Rightarrow>
          (case r of
             Inr _ \<Rightarrow> reload_users (s\<lparr>us_editing := None\<rparr>)
           | Inl err \<Rightarrow>
               s\<lparr>us_error := Some (failure_message err),
                 us_editing := map_option (\<lambda>(u, m). (u, end_submit i None m)) (us_editing s)\<rparr>)
      | OnRotate \<Rightarrow>
          (case r of
             Inr cred \<Rightarrow> reload_users (setCredential cred s)
           | Inl err \<Rightarrow> s\<lparr>us_error := Some (failure_message err)\<rparr>))"

datatype users_event =
    UsersMsg users_msg
  | UsersAnswer nat "failure + new_credential option"
  | UsersApi "proxy_user list api_event"

fun users_step :: "users_page \<Rightarrow> users_event \<Rightarrow> users_page" where
  "users_step s (UsersMsg m) = fst (users_update m s)"
| "users_step s (UsersAnswer i r) =
     (if i < length (us_pending s)
      then users_settle (us_pending s ! i) r (s\<lparr>us_pending := remove_nth i (us_pending s)\<rparr>) else s)"
| "users_step s (UsersApi e) = s\<lparr>us_list := api_step (us_list s) e\<rparr>"

section \<open>The view\<close>

fun status_text :: "user_status \<Rightarrow> string" where
  "status_text Active = ''active''"
| "status_text Disabled = ''disabled''"
| "status_text Expired = ''expired''"

fun status_tone :: "user_status \<Rightarrow> tone" where
  "status_tone Active = Success"
| "status_tone Disabled = Warning"
| "status_tone Expired = Failing"

fun filter_text :: "status_filter \<Rightarrow> string" where
  "filter_text AllUsers = ''all''"
| "filter_text (OnlyStatus st) = status_text st"

definition filtered_users :: "users_page \<Rightarrow> proxy_user list" where
  "filtered_users s =
     (let users = coalesce (ap_data (us_list s)) []
      in case us_filter s of
           AllUsers \<Rightarrow> users
         | OnlyStatus st \<Rightarrow> filter (\<lambda>u. u_status u = st) users)"

definition truthy :: "int \<Rightarrow> bool" where
  "truthy n = js_truthy (jint n)"

definition bandwidth_text :: "env \<Rightarrow> proxy_user \<Rightarrow> string" where
  "bandwidth_text e u =
     (let down = u_download_limit_bps u; up = u_upload_limit_bps u
      in if truthy down \<or> truthy up
         then (if truthy down then down_arrow @ formatBitrate e (jint down) else [])
              @ (if truthy down \<and> truthy up then '' '' else [])
              @ (if truthy up then up_arrow @ formatBitrate e (jint up) else [])
         else infinity)"

definition expiry_cell :: "env \<Rightarrow> proxy_user \<Rightarrow> users_msg node" where
  "expiry_cell e u =
     (case expiryDays e (u_expires_at u) of
        None \<Rightarrow> Elem ''span'' [cls ''text-caption''] [Text ''never'']
      | Some days \<Rightarrow>
          Elem ''span''
            [cls (if js_le days (Fin 7) then ''tabular-nums text-warning'' else ''tabular-nums text-secondary'')]
            [Text (if js_lt days (Fin 0) then ''expired '' @ js_String (js_neg days) @ ''d''
                   else js_String days @ ''d left'')])"

definition action_cell :: "proxy_user \<Rightarrow> users_msg node" where
  "action_cell u =
     Elem ''div'' [OnClick True None]
       [IconButton ''Edit'' [] [on_click (StartEdit u)]
          [svg ''M12 20h9M16.5 3.5a2.1 2.1 0 0 1 3 3L7 19l-4 1 1-4 12.5-12.5Z''],
        (if u_status u = Active
         then IconButton ''Disable'' [] [on_click (Disable u)] [svg ''M9 5v14M15 5v14'']
         else IconButton ''Enable'' [] [on_click (Enable u)] [svg ''M7 5l12 7-12 7V5Z'']),
        IconButton ''Rotate credentials'' [] [on_click (Rotate u)]
          [svg ''M21 2l-9.6 9.6M15.5 7.5l3 3L22 7l-3-3M11 13a7 7 0 1 1-7 7 7 7 0 0 1 7-7Z''],
        IconButton ''Reset quota'' [] [on_click (ResetQuota u)]
          [svg ''M12 15l3.5-3.5M21 12a9 9 0 1 1-18 0 9 9 0 0 1 18 0Z''],
        IconButton ''Delete'' ''hover:text-error'' [on_click (AskDelete u)]
          [svg ''M3 6h18M8 6V4h8v2m-9 0 1 14h8l1-14'']]"

definition MAX_SAFE_INTEGER :: jsnum where
  "MAX_SAFE_INTEGER = Fin 9007199254740991"

definition users_columns :: "env \<Rightarrow> (proxy_user, users_msg) column list" where
  "users_columns e =
     [(column ''username'' ''Username''
         (\<lambda>u. Elem ''button'' [OnClick True (Some (OpenUser u))] [Text (u_username u)]))
        \<lparr>col_sort := Some (\<lambda>u. SStr (u_username u))\<rparr>,
      (column ''status'' ''Status''
         (\<lambda>u. Badge (status_tone (u_status u)) [Text (status_text (u_status u))]))
        \<lparr>col_sort := Some (\<lambda>u. SStr (status_text (u_status u)))\<rparr>,
      column ''protocols'' ''Protocols''
        (\<lambda>u. Elem ''span'' [] [Text (join middot (List.map toUpperCase (u_allowed_protocols u)))]),
      (column ''bandwidth'' ''Bandwidth'' (\<lambda>u. Elem ''span'' [] [Text (bandwidth_text e u)]))
        \<lparr>col_sort := Some (\<lambda>u. SNum (js_add (jint (u_download_limit_bps u)) (jint (u_upload_limit_bps u)))),
         col_right := True\<rparr>,
      (column ''traffic'' ''Traffic''
         (\<lambda>u. Elem ''span'' []
            [Text (if truthy (u_quota_bytes_daily u) \<or> truthy (u_quota_bytes_monthly u)
                   then ''quota set'' else infinity)]))
        \<lparr>col_right := True\<rparr>,
      (column ''connections'' ''Connections''
         (\<lambda>u. Elem ''span'' []
            [Text (if truthy (u_max_connections u) then js_String (jint (u_max_connections u)) else infinity)]))
        \<lparr>col_sort := Some (\<lambda>u. SNum (jint (u_max_connections u))), col_right := True\<rparr>,
      (column ''expiration'' ''Expiration'' (expiry_cell e))
        \<lparr>col_sort := Some (\<lambda>u. SNum (coalesce (expiryDays e (u_expires_at u)) MAX_SAFE_INTEGER))\<rparr>,
      (column ''last_seen'' ''Last Seen''
         (\<lambda>u. Elem ''span'' [] [Text (formatRelative e (u_last_seen_at u))]))
        \<lparr>col_sort := Some (\<lambda>u. SStr (coalesce (u_last_seen_at u) []))\<rparr>,
      (column ''actions'' ''Actions'' action_cell)\<lparr>col_right := True\<rparr>]"

definition UserFormModal ::
  "string \<Rightarrow> bool \<Rightarrow> users_msg \<Rightarrow> (form_msg \<Rightarrow> users_msg) \<Rightarrow> string \<Rightarrow> form_modal \<Rightarrow> users_msg node" where
  "UserFormModal title is_edit onClose onForm submitLabel m =
     Modal True title onClose True
       [map_node onForm (UserForm is_edit submitLabel (md_form m)),
        alert_line (md_error m),
        show_if (md_busy m) (Elem ''p'' [] [Text (''Working'' @ ellipsis)])]"

definition credential_urls :: "env \<Rightarrow> new_credential \<Rightarrow> (string \<times> string \<times> string) list" where
  \<comment> \<open>key, label and URL\<close>
  "credential_urls e cred =
     [(''http'', ''HTTP proxy URL'',
       ''http://'' @ u_username cred @ '':'' @ n_password cred @ ''@'' @ hostname e @ '':3128''),
      (''socks'', ''SOCKS5 proxy URL'',
       ''socks5://'' @ u_username cred @ '':'' @ n_password cred @ ''@'' @ hostname e @ '':1080'')]"

definition CredentialModal :: "env \<Rightarrow> credential_modal \<Rightarrow> users_msg node" where
  "CredentialModal e c =
     Modal True (''Credentials for '' @ u_username (cm_cred c)) CloseCredential False
       [Elem ''p'' []
          [Text ''This password is shown '', Elem ''strong'' [] [Text ''once''],
           Text (''. Copy it now '' @ mdash @ '' it cannot be recovered.'')],
        Elem ''div'' []
          (Elem ''div'' []
             [Elem ''span'' [] [Text ''Password''], Elem ''code'' [] [Text (n_password (cm_cred c))]]
           # List.map (\<lambda>(key, label, url).
               Elem ''div'' []
                 [Elem ''span'' [] [Text label],
                  Elem ''div'' []
                    [Elem ''code'' [] [Text url],
                     Button Ghost SizeS [on_click (CopyText url key)]
                       [Text (if cm_copied c = Some key then ''Copied'' else ''Copy'')]]])
               (credential_urls e (cm_cred c))),
        Elem ''div'' [] [Button Primary SizeM [on_click CloseCredential] [Text ''Done'']]]"

definition delete_modal :: "proxy_user \<Rightarrow> users_msg node" where
  "delete_modal u =
     Modal True (''Delete '' @ u_username u @ ''?'') CancelDelete False
       [Elem ''p'' []
          [Text (''The user is removed from the engine config and their traffic ''
             @ ''history is kept for audit. This cannot be undone.'')],
        Elem ''div'' []
          [Button Elevated SizeM [on_click CancelDelete] [Text ''Cancel''],
           Button Danger SizeM [on_click ConfirmDelete] [Text ''Delete'']]]"

definition users_table :: "env \<Rightarrow> users_page \<Rightarrow> users_msg node" where
  "users_table e s =
     map_node (table_msg SortUsers)
       (DataTable (users_columns e) (filtered_users s) (ap_loading (us_list s))
          (if us_filter s = AllUsers then ''No proxy users yet''
           else ''No '' @ filter_text (us_filter s) @ '' users'')
          (Some OpenUser) (us_sort s))"

definition FILTERS :: "status_filter list" where
  "FILTERS = [AllUsers, OnlyStatus Active, OnlyStatus Disabled, OnlyStatus Expired]"

definition Users :: "env \<Rightarrow> users_page \<Rightarrow> users_msg node" where
  "Users e s = Frag
     [PageHeader ''Users''
        (Some (Frag
          (List.map (\<lambda>f. Elem ''button''
             [on_click (SetFilter f),
              cls (if us_filter s = f then ''bg-[var(--interactive-accent-hover)] text-primary''
                   else ''text-secondary hover:bg-[var(--interactive-hover)]'')]
             [Text (filter_text f)]) FILTERS
           @ [Button Primary SizeM [on_click StartCreate] [Text ''+ New user'']]))),
      alert_line (us_error s),
      users_table e s,
      (case us_creating s of
         None \<Rightarrow> nothing
       | Some m \<Rightarrow> UserFormModal ''New user'' False CloseCreate CreateForm ''Create user'' m),
      (case us_editing s of
         None \<Rightarrow> nothing
       | Some (u, m) \<Rightarrow>
           UserFormModal (''Edit '' @ u_username u) True CloseEdit EditForm ''Save changes'' m),
      (case us_credential s of None \<Rightarrow> nothing | Some c \<Rightarrow> CredentialModal e c),
      (case us_confirmDelete s of None \<Rightarrow> nothing | Some u \<Rightarrow> delete_modal u)]"

section \<open>Lemmas\<close>

definition users_target :: "users_msg \<Rightarrow> users_page \<Rightarrow> proxy_user option" where
  \<comment> \<open>the user, as the page shows it, that a message is about\<close>
  "users_target m s =
     (case m of
        EditForm _ \<Rightarrow> map_option fst (us_editing s)
      | ConfirmDelete \<Rightarrow> us_confirmDelete s
      | Disable u \<Rightarrow> Some u | Enable u \<Rightarrow> Some u | Rotate u \<Rightarrow> Some u | ResetQuota u \<Rightarrow> Some u
      | _ \<Rightarrow> None)"

text \<open>Every call the page sends, with the message and the state that send it.\<close>

lemma users_update_sends:
  "Send c \<in> set (snd (users_update m s)) \<Longrightarrow>
     (\<exists>md v. m = CreateForm Submit \<and> us_creating s = Some md \<and> form_submit False (md_form md) = Some v
         \<and> c = api_post ''/api/v1/users'' (Some (JObj (form_members v))))
     \<or> (\<exists>u md v. m = EditForm Submit \<and> us_editing s = Some (u, md) \<and> form_submit True (md_form md) = Some v
         \<and> c = api_patch (user_url u []) (JObj (form_members v @ [version_of u])))
     \<or> (\<exists>u sfx. m \<in> {Disable u, Enable u, Rotate u, ResetQuota u}
         \<and> sfx \<in> {''/disable'', ''/enable'', ''/rotate-credentials'', ''/reset-quota''}
         \<and> c = api_post (user_url u sfx) (Some (JObj [version_of u])))
     \<or> (\<exists>u. m = ConfirmDelete \<and> us_confirmDelete s = Some u
         \<and> c = api_del (user_url u []) (Some (JObj [version_of u])))"
  by (cases m) (auto simp: act_def await_call_def split: option.splits form_msg.splits if_splits)

lemma credential_fields [simp]:
  "us_confirmDelete (setCredential c s) = us_confirmDelete s"
  "us_confirmDelete (reload_users s) = us_confirmDelete s"
  "us_creating (setCredential c s) = us_creating s"
  "us_editing (setCredential c s) = us_editing s"
  "us_pending (setCredential c s) = us_pending s"
  "us_next s \<le> us_next (setCredential c s)"
  "us_credential (reload_users s) = us_credential s"
  "us_creating (reload_users s) = us_creating s" "us_editing (reload_users s) = us_editing s"
  "us_pending (reload_users s) = us_pending s" "us_next (reload_users s) = us_next s"
  by (auto simp: setCredential_def reload_users_def split: option.splits)

lemma confirm_step:
  "us_confirmDelete (users_step s e) = Some u \<Longrightarrow>
     e = UsersMsg (AskDelete u)
     \<or> us_confirmDelete s = Some u \<and> e \<noteq> UsersMsg CancelDelete \<and> e \<noteq> UsersMsg ConfirmDelete"
proof (cases e)
  case (UsersMsg m)
  then show "us_confirmDelete (users_step s e) = Some u \<Longrightarrow> ?thesis"
    by (cases m) (auto simp: act_def await_call_def split: option.splits form_msg.splits if_splits)
qed (auto simp: users_settle_def split: users_tag.splits sum.splits if_splits)

lemma no_new_credential:
  "us_credential s = None \<Longrightarrow> (\<And>i r. e \<noteq> UsersAnswer i r) \<Longrightarrow> us_credential (users_step s e) = None"
proof (cases e)
  case (UsersMsg m)
  then show "us_credential s = None \<Longrightarrow> ?thesis"
    by (cases m) (auto simp: act_def await_call_def split: option.splits form_msg.splits)
qed auto

text \<open>A modal that is working has a request of its own mount in flight.\<close>

definition users_inv :: "users_page \<Rightarrow> bool" where
  "users_inv s =
     ((\<forall>m. us_creating s = Some m \<longrightarrow> md_id m < us_next s
            \<and> (md_busy m \<longrightarrow> OnCreate (md_id m) \<in> set (us_pending s)))
      \<and> (\<forall>u m. us_editing s = Some (u, m) \<longrightarrow> md_id m < us_next s
            \<and> (md_busy m \<longrightarrow> OnEdit (md_id m) \<in> set (us_pending s))))"

lemma users_inv_update: "users_inv s \<Longrightarrow> users_inv (fst (users_update m s))"
  by (cases m) (auto simp: users_inv_def act_def await_call_def open_form_def start_submit_def
      less_Suc_eq split: option.splits form_msg.splits)

lemma users_inv_answer:
  assumes inv: "users_inv s" and i: "i < length (us_pending s)"
  shows "users_inv (users_settle (us_pending s ! i) r (s\<lparr>us_pending := remove_nth i (us_pending s)\<rparr>))"
proof -
  have k: "x \<in> set (us_pending s) \<Longrightarrow> us_pending s ! i \<noteq> x \<Longrightarrow> x \<in> set (remove_nth i (us_pending s))" for x
    using i by (intro remove_nth_other)
  have n: "j < us_next s \<Longrightarrow> j < us_next (setCredential c (s\<lparr>us_pending := q, us_creating := x\<rparr>))"
    "j < us_next s \<Longrightarrow> j < us_next (setCredential c (s\<lparr>us_pending := q\<rparr>))" for j c q x
    by (auto simp: setCredential_def split: option.splits)
  have d: "z = z\<lparr>md_busy := False, md_error := x\<rparr> \<Longrightarrow> \<not> md_busy z" "z = z\<lparr>md_busy := False\<rparr> \<Longrightarrow> \<not> md_busy z" for z x
    by (cases z; auto)+
  show ?thesis
    using inv by (cases "us_pending s ! i"; cases r)
      (auto simp: users_settle_def users_inv_def end_submit_def intro: k n dest: d split: if_splits)
qed

lemma users_inv_step: "users_inv s \<Longrightarrow> users_inv (users_step s e)"
  by (cases e) (auto simp: users_inv_update users_inv_answer, auto simp: users_inv_def)

interpretation users: machine users_step users_inv
  by unfold_locales (rule users_inv_step)

lemma users_inv_init: "users_inv Users_init"
  by (simp add: users_inv_def Users_init_def)

section \<open>Properties\<close>

text \<open>
  Every write of the users page is a creation, or names a user by identifier and carries
  the version of that user the page was showing, so that the server can refuse a stale write.
  A DELETE is sent by the confirmation only, for the user it asked about.
\<close>

theorem users_writes_carry_version:
  assumes "Send c \<in> set (snd (users_update m s))"
  shows "(c_method c = ''POST'' \<and> c_path c = ''/api/v1/users'' \<and> m = CreateForm Submit
      \<or> (\<exists>u sfx. users_target m s = Some u \<and> c_path c = user_url u sfx
           \<and> json_member (the (c_body c)) ''version'' = JNum (jint (u_version u))))
    \<and> (c_method c = ''DELETE'' \<longrightarrow> m = ConfirmDelete \<and> (\<exists>u. us_confirmDelete s = Some u \<and> c_path c = user_url u []))"
  using users_update_sends [OF assms]
  by (elim disjE exE conjE)
    (auto simp: api_defs version_of_def form_members_def users_target_def user_url_def)

theorem users_writes_carry_version_witness:
  "\<exists>u. us_confirmDelete (Users_init\<lparr>us_confirmDelete := Some sample_user\<rparr>) = Some u
     \<and> user_url sample_user [] = user_url u []"
proof -
  have "Send (api_del (user_url sample_user []) (Some (JObj [version_of sample_user])))
      \<in> set (snd (users_update ConfirmDelete (Users_init\<lparr>us_confirmDelete := Some sample_user\<rparr>)))"
    by (simp add: act_def await_call_def)
  from users_writes_carry_version [OF this] show ?thesis by (simp add: api_defs)
qed

text \<open>
  The confirmation that a deletion needs was asked for that very user, and was neither
  cancelled nor used since: this holds in every state the page can reach.
\<close>

theorem delete_was_asked_for:
  assumes "us_confirmDelete (foldl users_step Users_init es) = Some u"
  shows "\<exists>xs ys. es = xs @ UsersMsg (AskDelete u) # ys
    \<and> UsersMsg CancelDelete \<notin> set ys \<and> UsersMsg ConfirmDelete \<notin> set ys"
  using assms
proof (induction es rule: rev_induct)
  case (snoc e es)
  consider "e = UsersMsg (AskDelete u)" |
      "us_confirmDelete (foldl users_step Users_init es) = Some u" "e \<noteq> UsersMsg CancelDelete" "e \<noteq> UsersMsg ConfirmDelete"
    using confirm_step [of "foldl users_step Users_init es" e u] snoc.prems by auto
  then show ?case
  proof cases
    case 2
    then obtain xs ys where "es = xs @ UsersMsg (AskDelete u) # ys"
        "UsersMsg CancelDelete \<notin> set ys" "UsersMsg ConfirmDelete \<notin> set ys"
      using snoc.IH by blast
    then show ?thesis using 2 by (intro exI [of _ xs] exI [of _ "ys @ [e]"]) simp
  qed force
qed (simp add: Users_init_def)

theorem delete_was_asked_for_witness:
  "\<exists>xs ys. [UsersMsg (AskDelete sample_user), UsersMsg StartCreate] = xs @ UsersMsg (AskDelete sample_user) # ys"
  using delete_was_asked_for [of "[UsersMsg (AskDelete sample_user), UsersMsg StartCreate]" sample_user]
  by (auto simp: Users_init_def)

text \<open>
  The icons of a row act on the user displayed in that row and do not also open the user's
  page, and the name opens it exactly once, although the whole row is clickable.
\<close>

theorem row_icons_do_not_navigate:
  assumes "\<not> ap_loading (us_list s)" and "filtered_users s \<noteq> []"
    and "j < length (sorted_rows (users_columns e) (filtered_users s) (us_sort s))"
    and "u = sorted_rows (users_columns e) (filtered_users s) (us_sort s) ! j"
  shows "List.map (\<lambda>k. click_at (users_table e s) [0, 1, j, 8, 0, k]) [0, 1, 2, 3, 4] =
      [Some [StartEdit u], Some [if u_status u = Active then Disable u else Enable u],
       Some [Rotate u], Some [ResetQuota u], Some [AskDelete u]]
    \<and> click_at (users_table e s) [0, 1, j, 0, 0] = Some [OpenUser u]"
proof -
  have x: "Ex Not" "\<exists>b. b" by auto
  have l: "length (users_columns e) = 9" by (simp add: users_columns_def)
  have c: "col_render (users_columns e ! 8) = action_cell"
    "col_render (users_columns e ! 0) = (\<lambda>u. Elem ''button'' [OnClick True (Some (OpenUser u))] [Text (u_username u)])"
    by (simp_all add: users_columns_def column_def)
  show ?thesis
    using assms x by (simp add: users_table_def click_at_map_node click_at_def DataTable_def body_row_def
        l c click_map_node action_cell_def ui_defs stops_def disabled_def table_msg_def)
qed

theorem row_icons_do_not_navigate_witness:
  "click_at (users_table plain_env (Users_init\<lparr>us_list := (useApi None)\<lparr>ap_data := Some [sample_user]\<rparr>\<rparr>)) [0, 1, 0, 0, 0]
     = Some [OpenUser sample_user]"
  using row_icons_do_not_navigate [of "Users_init\<lparr>us_list := (useApi None)\<lparr>ap_data := Some [sample_user]\<rparr>\<rparr>" 0 plain_env sample_user]
  by (simp add: Users_init_def useApi_def run_effect_def filtered_users_def sorted_rows_def)

text \<open>
  The one-time password is shown once: after the credential modal is closed nothing the
  administrator does, and no change of the list, brings a credential back; only the answer to
  a creation or a rotation can.
\<close>

theorem password_is_shown_once:
  assumes "\<forall>e \<in> set es. \<forall>i r. e \<noteq> UsersAnswer i r"
  shows "us_credential (foldl users_step (users_step s (UsersMsg CloseCredential)) es) = None"
proof -
  have "us_credential (foldl users_step t es) = None" if "us_credential t = None" for t
    using assms that
  proof (induction es arbitrary: t)
    case (Cons e es)
    have "us_credential (users_step t e) = None"
      using no_new_credential [of t e] Cons.prems by (cases e) auto
    then show ?case using Cons by simp
  qed simp
  then show ?thesis by simp
qed

theorem password_is_shown_once_witness:
  "us_credential (foldl users_step (users_step Users_init (UsersMsg CloseCredential))
     [UsersMsg StartCreate, UsersApi Reload]) = None"
  by (rule password_is_shown_once) simp

text \<open>
  C29. A modal is never stuck at work: in every reachable state, whichever modals were opened and
  closed meanwhile, one that says it is working has a request of its own in flight, and the
  answer to that request, whatever it is, closes it or gives it back to the user.
\<close>

theorem busy_modal_is_released:
  assumes "s = foldl users_step Users_init es"
  shows "(\<forall>m. us_creating s = Some m \<and> md_busy m \<longrightarrow>
      (\<exists>i < length (us_pending s). us_pending s ! i = OnCreate (md_id m)
         \<and> (\<forall>r m'. us_creating (users_step s (UsersAnswer i r)) = Some m' \<longrightarrow> \<not> md_busy m')))
    \<and> (\<forall>u m. us_editing s = Some (u, m) \<and> md_busy m \<longrightarrow>
      (\<exists>i < length (us_pending s). us_pending s ! i = OnEdit (md_id m)
         \<and> (\<forall>r u' m'. us_editing (users_step s (UsersAnswer i r)) = Some (u', m') \<longrightarrow> \<not> md_busy m')))"
proof -
  have inv: "users_inv s" unfolding assms by (rule users.inv_run) (rule users_inv_init)
  have create: "\<not> md_busy m'" if "us_creating s = Some m" "us_pending s ! i = OnCreate (md_id m)" "i < length (us_pending s)"
    "us_creating (users_step s (UsersAnswer i r)) = Some m'" for m m' i r
    using that by (cases r) (auto simp: users_settle_def end_submit_def)
  have edit: "\<not> md_busy m'" if "us_editing s = Some (u, m)" "us_pending s ! i = OnEdit (md_id m)" "i < length (us_pending s)"
    "us_editing (users_step s (UsersAnswer i r)) = Some (u', m')" for u u' m m' i r
    using that by (cases r) (auto simp: users_settle_def end_submit_def)
  have sent: "us_creating s = Some m \<Longrightarrow> md_busy m \<Longrightarrow> \<exists>i < length (us_pending s). us_pending s ! i = OnCreate (md_id m)"
    "us_editing s = Some (u, m) \<Longrightarrow> md_busy m \<Longrightarrow> \<exists>i < length (us_pending s). us_pending s ! i = OnEdit (md_id m)" for u m
    using inv by (auto simp: users_inv_def in_set_conv_nth)
  show ?thesis using sent create edit by meson
qed

theorem busy_modal_is_released_witness:
  "\<exists>i < 1. \<forall>r m'. us_creating (users_step (foldl users_step Users_init
     [UsersMsg StartCreate, UsersMsg (CreateForm Submit)]) (UsersAnswer i r)) = Some m' \<longrightarrow> \<not> md_busy m'"
proof -
  let ?s = "foldl users_step Users_init [UsersMsg StartCreate, UsersMsg (CreateForm Submit)]"
  obtain v where "form_submit False (UserForm_init (None :: proxy_user option)) = Some v"
    by (simp add: form_submit_def UserForm_init_def parse_expiry_def)
  then have "us_creating ?s = Some (start_submit (open_form None 0))" "length (us_pending ?s) = 1"
    by (simp_all add: Users_init_def open_form_def await_call_def)
  then show ?thesis
    using busy_modal_is_released [OF refl, of "[UsersMsg StartCreate, UsersMsg (CreateForm Submit)]"]
    by (auto simp: start_submit_def simp del: users_step.simps foldl.simps)
qed

text \<open>
  A created user's credential is shown: when the answer to a submission of the create form
  arrives, the form closes, the list reloads and the modal shows the returned credential; when
  it fails, the form stays open with what was typed and with the error.
\<close>

theorem create_answer:
  assumes "i < length (us_pending s)" and "us_pending s ! i = OnCreate k"
    and "us_creating s = Some m" and "md_id m = k"
  shows "us_creating (users_step s (UsersAnswer i (Inr (Some cred)))) = None
    \<and> map_option cm_cred (us_credential (users_step s (UsersAnswer i (Inr (Some cred))))) = Some cred
    \<and> us_list (users_step s (UsersAnswer i (Inr (Some cred)))) = reload (us_list s)
    \<and> us_creating (users_step s (UsersAnswer i (Inl err)))
        = Some (m\<lparr>md_error := Some (failure_message err), md_busy := False\<rparr>)"
  using assms by (simp add: users_settle_def setCredential_def reload_users_def end_submit_def split: option.splits)

theorem create_answer_witness:
  "us_creating (users_step (Users_init\<lparr>us_pending := [OnCreate 0], us_creating := Some (open_form None 0)\<rparr>)
     (UsersAnswer 0 (Inl (OtherError ''x'')))) = Some ((open_form None 0)\<lparr>md_error := Some ''x'', md_busy := False\<rparr>)"
  using create_answer [of 0 "Users_init\<lparr>us_pending := [OnCreate 0], us_creating := Some (open_form None 0)\<rparr>" 0
      "open_form None 0"] by (simp add: open_form_def)

text \<open>
  A list that could not be loaded looks like an empty one: after a failed first load the
  page renders exactly what it renders for a server without users.
\<close>

theorem failed_load_looks_empty:
  "Users e (users_step Users_init (UsersApi (Settled 0 (Inl err))))
     = Users e (users_step Users_init (UsersApi (Settled 0 (Inr (Some [])))))"
  by (simp add: Users_init_def useApi_def run_effect_def Let_def deliver_def Users_def users_table_def
      filtered_users_def split: option.splits)

end
