(* ===== verification/RequestDecoding.thy ===== *)
theory RequestDecoding
  imports UsersPage
begin

text \<open>
  The receiving end of the writes of the dashboard: \<open>readJSON\<close> of \<open>internal/api/middleware.go\<close>,
  the request shapes of \<open>internal/api/user_handlers.go\<close>, and the version check of
  \<open>decodeVersionAction\<close>. A body is the JSON
  value the client serialises; decoding follows \<open>encoding/json\<close>: names match up to case,
  \<open>null\<close> leaves a field as it is, and \<open>DisallowUnknownFields\<close> is on.
\<close>

section \<open>Decoding\<close>

datatype go_type = GoString | GoInt64 | GoBool | GoStrings | GoTime

type_synonym go_struct = "(string \<times> go_type) list"

definition is_null :: "jsval \<Rightarrow> bool" where
  \<comment> \<open>what is serialised as \<open>null\<close>\<close>
  "is_null v = (case v of JNull \<Rightarrow> True | JNum n \<Rightarrow> \<not> js_isFinite n | _ \<Rightarrow> False)"

definition two_digits :: "nat \<Rightarrow> int \<Rightarrow> string \<Rightarrow> bool" where
  \<comment> \<open>two digits at position \<open>i\<close>, at most \<open>m\<close>\<close>
  "two_digits i m s = (case number_at 2 (drop i s) of None \<Rightarrow> False | Some n \<Rightarrow> n \<le> m)"

definition go_zone :: "string \<Rightarrow> bool" where
  "go_zone z =
     (z = ''Z'' \<or> (length z = 6 \<and> (hd z = CHR ''+'' \<or> hd z = CHR ''-'') \<and> two_digits 1 23 z
                   \<and> char_at z 3 = Some CHR '':'' \<and> two_digits 4 59 z))"

definition go_time :: "string \<Rightarrow> bool" where
  \<comment> \<open>\<open>time.Time.UnmarshalJSON\<close>: RFC 3339\<close>
  "go_time s =
     (parse_date s \<noteq> None \<and> char_at s 10 = Some CHR ''T''
      \<and> two_digits 11 23 s \<and> char_at s 13 = Some CHR '':'' \<and> two_digits 14 59 s
      \<and> char_at s 16 = Some CHR '':'' \<and> two_digits 17 59 s
      \<and> (let r = drop 19 s
         in go_zone (if char_at r 0 = Some CHR ''.'' \<and> takeWhile is_digit (drop 1 r) \<noteq> []
                     then dropWhile is_digit (drop 1 r) else r)))"

fun fits :: "go_type \<Rightarrow> jsval \<Rightarrow> bool" where
  "fits GoString (JStr s) = True"
| "fits GoInt64 (JNum (Fin x)) = (of_int \<lfloor>x\<rfloor> = x \<and> - (2 ^ 63) \<le> x \<and> x < 2 ^ 63)"
| "fits GoBool (JBool b) = True"
| "fits GoStrings (JArr vs) = list_all (\<lambda>v. is_null v \<or> (case v of JStr _ \<Rightarrow> True | _ \<Rightarrow> False)) vs"
| "fits GoTime (JStr s) = go_time s"
| "fits _ v = is_null v"

definition field_for :: "go_struct \<Rightarrow> string \<Rightarrow> go_type option" where
  "field_for fs k = map_option snd (List.find (\<lambda>(f, _). toUpperCase f = toUpperCase k) fs)"

definition decodes :: "go_struct \<Rightarrow> jsval \<Rightarrow> bool" where
  "decodes fs v =
     (case v of
        JObj ms \<Rightarrow> list_all (\<lambda>(k, x). x = JUndef \<or>
          (case field_for fs k of None \<Rightarrow> False | Some ty \<Rightarrow> fits ty x)) ms
      | _ \<Rightarrow> is_null v)"

definition maxBodyBytes :: int where
  "maxBodyBytes = 1048576"

definition readJSON :: "go_struct \<Rightarrow> call \<Rightarrow> (nat \<times> string) option" where
  \<comment> \<open>the status and code it answers with, or \<open>None\<close> when the body is accepted\<close>
  "readJSON fs c =
     (case c_body c of
        None \<Rightarrow> Some (415, ''UNSUPPORTED_MEDIA_TYPE'')
      | Some v \<Rightarrow>
          if maxBodyBytes < int (length (stringify v)) then Some (413, ''BODY_TOO_LARGE'')
          else if decodes fs v then None else Some (400, ''INVALID_JSON''))"

section \<open>Request shapes\<close>

definition createUserRequest :: go_struct where
  "createUserRequest =
     [(''username'', GoString), (''password'', GoString), (''allowed_protocols'', GoStrings),
      (''download_limit_bps'', GoInt64), (''upload_limit_bps'', GoInt64),
      (''max_connections'', GoInt64), (''quota_bytes_daily'', GoInt64),
      (''quota_bytes_monthly'', GoInt64), (''expires_at'', GoTime)]"

definition updateUserRequest :: go_struct where
  "updateUserRequest =
     [(''version'', GoInt64), (''allowed_protocols'', GoStrings),
      (''download_limit_bps'', GoInt64), (''upload_limit_bps'', GoInt64),
      (''max_connections'', GoInt64), (''quota_bytes_daily'', GoInt64),
      (''quota_bytes_monthly'', GoInt64), (''expires_at'', GoTime), (''clear_expiration'', GoBool)]"

definition userActionRequest :: go_struct where
  "userActionRequest = [(''version'', GoInt64)]"

definition rotateRequest :: go_struct where
  "rotateRequest = [(''password'', GoString)]"

definition decodeVersionAction :: "call \<Rightarrow> (nat \<times> string) + int" where
  "decodeVersionAction c =
     (case readJSON userActionRequest c of
        Some e \<Rightarrow> Inl e
      | None \<Rightarrow>
          (let v = (case json_member (the (c_body c)) ''version'' of JNum (Fin x) \<Rightarrow> \<lfloor>x\<rfloor> | _ \<Rightarrow> 0)
           in if v < 1 then Inl (400, ''INVALID_REQUEST'') else Inr v))"

section \<open>Lemmas\<close>

lemma field_for_update: "field_for updateUserRequest ''username'' = None"
  by code_simp

lemma field_for_rotate: "field_for rotateRequest ''version'' = None"
  by code_simp

lemma edit_body_refused:
  "\<not> decodes updateUserRequest (JObj (form_members v @ xs))"
  by (simp add: decodes_def form_members_def field_for_update)

lemma go_time_end_of_day:
  assumes "valid_date y m d"
  shows "go_time (date_text y m d @ ''T23:59:59.000Z'')"
proof -
  let ?s = "date_text y m d @ ''T23:59:59.000Z''"
  have l: "length (date_text y m d) = 10" by (rule length_date_text [OF assms])
  have "drop 11 ?s = ''23:59:59.000Z''" "drop 14 ?s = ''59:59.000Z''" "drop 17 ?s = ''59.000Z''" "drop 19 ?s = ''.000Z''"
    "char_at ?s 10 = Some CHR ''T''" "char_at ?s 13 = Some CHR '':''" "char_at ?s 16 = Some CHR '':''"
    using l by (simp_all add: char_at_def nth_append)
  moreover have "number_at 2 ''23:59:59.000Z'' = Some 23" "number_at 2 ''59:59.000Z'' = Some 59"
    "number_at 2 ''59.000Z'' = Some 59" "char_at ''.000Z'' 0 = Some CHR ''.''"
    "takeWhile is_digit ''000Z'' \<noteq> []" "go_zone (dropWhile is_digit ''000Z'')" by code_simp+
  ultimately show ?thesis
    using parse_date_text [OF assms, of "''T23:59:59.000Z''"] by (simp add: go_time_def two_digits_def)
qed

lemma version_body:
  assumes "0 < n" "n < 10 ^ 15"
  shows "readJSON userActionRequest (api_post p (Some (JObj [(''version'', JNum (jint n))]))) = None"
proof -
  have s: "js_String (jint n) = digits n" using assms js_String_int [of n] by (simp add: jint_small int_string_def)
  have q: "quote ''version'' = [CHR 0x22] @ ''version'' @ [CHR 0x22]" by code_simp
  have "length (digits n) \<le> 15" using assms by (intro length_digits_le) auto
  moreover have "length (stringify (JObj [(''version'', JNum (jint n))])) = 12 + length (digits n)"
    using assms s by (simp add: q jint_small)
  moreover have "field_for userActionRequest ''version'' = Some GoInt64" by code_simp
  ultimately show ?thesis
    using assms by (simp add: readJSON_def api_defs maxBodyBytes_def decodes_def jint_small)
qed

section \<open>Properties\<close>

text \<open>
  C25. Editing a user and rotating its credentials never succeed: whatever the form holds and
  whichever user it is, the server refuses the body before it looks at the user, because an
  edit carries \<open>username\<close> and a rotation carries \<open>version\<close>, fields the request shapes do not have.
\<close>

theorem edit_and_rotate_are_refused:
  assumes "m = EditForm fm \<and> fs = updateUserRequest \<or> m = Rotate u \<and> fs = rotateRequest"
    and "Send c \<in> set (snd (users_update m s))"
  shows "readJSON fs c \<noteq> None"
  using assms(1)
proof
  assume m: "m = EditForm fm \<and> fs = updateUserRequest"
  then obtain w :: proxy_user and v where "c = api_patch (user_url w []) (JObj (form_members v @ [version_of w]))"
    using users_update_sends [OF assms(2)] by auto
  then show ?thesis using edit_body_refused m by (simp add: readJSON_def api_defs)
next
  assume m: "m = Rotate u \<and> fs = rotateRequest"
  then obtain x where "c = api_post x (Some (JObj [version_of u]))"
    using users_update_sends [OF assms(2)] by auto
  then show ?thesis
    using m by (simp add: readJSON_def api_defs decodes_def version_of_def field_for_rotate)
qed

theorem edit_and_rotate_are_refused_witness:
  "readJSON rotateRequest (api_post (user_url sample_user ''/rotate-credentials'') (Some (JObj [version_of sample_user]))) \<noteq> None"
  by (rule edit_and_rotate_are_refused [of "Rotate sample_user" Submit rotateRequest sample_user _ Users_init])
    (simp_all add: await_call_def)

text \<open>
  Disabling, enabling and resetting the quota of a user are accepted, and the server reads
  back exactly the version the page showed.
\<close>

theorem actions_are_accepted:
  assumes "m \<in> {Disable u, Enable u, ResetQuota u}" and "0 < u_version u" "u_version u < 10 ^ 15"
    and "Send c \<in> set (snd (users_update m s))"
  shows "decodeVersionAction c = Inr (u_version u)"
proof -
  obtain p where c: "c = api_post p (Some (JObj [version_of u]))"
    using users_update_sends [OF assms(4)] assms(1) by auto
  then have "readJSON userActionRequest c = None"
    using version_body [OF assms(2,3)] by (simp add: version_of_def)
  then show ?thesis
    using assms(2,3) c by (simp add: decodeVersionAction_def api_defs version_of_def jint_small)
qed

theorem actions_are_accepted_witness:
  "decodeVersionAction (api_post (user_url sample_user ''/disable'') (Some (JObj [version_of sample_user]))) = Inr 3"
  using actions_are_accepted [of "Disable sample_user" sample_user
      "api_post (user_url sample_user ''/disable'') (Some (JObj [version_of sample_user]))" Users_init]
  by (simp add: act_def await_call_def) (simp add: sample_user_def)

text \<open>
  C35. A creation is accepted whenever its numbers are 64-bit integers or unreadable and it is
  not oversized: names, types and the expiry the form writes are those the server expects.
\<close>

theorem create_is_accepted:
  assumes "form_submit False f = Some v" and "fm_expires f = [] \<or> (\<exists>y m d. fm_expires f = date_text y m d \<and> valid_date y m d)"
    and "list_all (\<lambda>n. fits GoInt64 (JNum n)) [v_download_limit_bps v, v_upload_limit_bps v,
           v_max_connections v, v_quota_bytes_daily v, v_quota_bytes_monthly v]"
    and "int (length (stringify (JObj (form_members v)))) \<le> maxBodyBytes"
  shows "readJSON createUserRequest (api_post ''/api/v1/users'' (Some (JObj (form_members v)))) = None"
proof -
  have e: "fits GoTime (opt_str (v_expires_at v) JNull)"
  proof (cases "fm_expires f = []")
    case True
    then show ?thesis using assms(1) by (auto simp: form_submit_def parse_expiry_def opt_str_def is_null_def)
  next
    case False
    then obtain y m d where d: "fm_expires f = date_text y m d" "valid_date y m d" using assms(2) by auto
    then have "parse_expiry (fm_expires f) = Some (Some (date_text y m d @ ''T23:59:59.000Z''))"
      using end_of_day_roundtrip [OF d(2)] False by (auto simp: parse_expiry_def)
    then have "v_expires_at v = Some (date_text y m d @ ''T23:59:59.000Z'')"
      using assms(1) by (auto simp: form_submit_def)
    then show ?thesis using go_time_end_of_day [OF d(2)] by (simp add: opt_str_def)
  qed
  have p: "opt_str (v_password v) JUndef = JUndef \<or> fits GoString (opt_str (v_password v) JUndef)"
    by (auto simp: opt_str_def split: option.splits)
  have fields: "field_for createUserRequest ''username'' = Some GoString" "field_for createUserRequest ''password'' = Some GoString"
    "field_for createUserRequest ''allowed_protocols'' = Some GoStrings"
    "field_for createUserRequest ''download_limit_bps'' = Some GoInt64" "field_for createUserRequest ''upload_limit_bps'' = Some GoInt64"
    "field_for createUserRequest ''max_connections'' = Some GoInt64" "field_for createUserRequest ''quota_bytes_daily'' = Some GoInt64"
    "field_for createUserRequest ''quota_bytes_monthly'' = Some GoInt64" "field_for createUserRequest ''expires_at'' = Some GoTime"
    by code_simp+
  have "decodes createUserRequest (JObj (form_members v))"
    using e p assms(3) by (auto simp: decodes_def form_members_def fields list_all_iff)
  then show ?thesis using assms(4) by (simp add: readJSON_def api_defs)
qed

theorem create_is_accepted_witness:
  "\<exists>v. form_submit False (UserForm_init (None :: proxy_user option)) = Some v
     \<and> readJSON createUserRequest (api_post ''/api/v1/users'' (Some (JObj (form_members v)))) = None"
proof -
  obtain v where v: "form_submit False (UserForm_init (None :: proxy_user option)) = Some v"
    by (simp add: form_submit_def UserForm_init_def parse_expiry_def)
  have "form_members v = form_members \<lparr>v_username = [], v_password = None, v_allowed_protocols = [''http'', ''socks5''],
      v_download_limit_bps = Fin 0, v_upload_limit_bps = Fin 0, v_max_connections = Fin 0,
      v_quota_bytes_daily = Fin 0, v_quota_bytes_monthly = Fin 0, v_expires_at = None\<rparr>"
    using v by (auto simp: form_submit_def UserForm_init_def parse_expiry_def parse_scaled_def trim_def)
  moreover have "int (length (stringify (JObj (form_members \<lparr>v_username = [], v_password = None,
      v_allowed_protocols = [''http'', ''socks5''],
      v_download_limit_bps = Fin 0, v_upload_limit_bps = Fin 0, v_max_connections = Fin 0,
      v_quota_bytes_daily = Fin 0, v_quota_bytes_monthly = Fin 0, v_expires_at = None\<rparr>)))) \<le> maxBodyBytes"
    by code_simp
  ultimately have "int (length (stringify (JObj (form_members v)))) \<le> maxBodyBytes" by simp
  then show ?thesis
    using create_is_accepted [OF v] v
    by (auto simp: form_submit_def UserForm_init_def parse_expiry_def parse_scaled_def)
qed

end
