(* ===== verification/SettingsPage.thy ===== *)
theory SettingsPage
  imports RequestDecoding Auth
begin

text \<open>
  The settings page, \<open>web/src/pages/Settings.tsx\<close>, and the handler its form posts to,
  \<open>handlePasswordChange\<close> of \<open>internal/api/auth_handlers.go\<close>, with the outcome of the account
  service as an argument.
\<close>

section \<open>The page\<close>

record settings =
  se_current :: string
  se_next :: string
  se_confirm :: string
  se_error :: "string option"
  se_done :: bool
  se_busy :: bool
  se_pending :: nat \<comment> \<open>requests in flight\<close>

definition Settings_init :: settings where
  "Settings_init =
     \<lparr>se_current = [], se_next = [], se_confirm = [], se_error = None, se_done = False,
      se_busy = False, se_pending = 0\<rparr>"

datatype settings_msg =
    TypeCurrent string
  | TypeNext string
  | TypeConfirm string
  | ChangePassword

definition password_call :: "string \<Rightarrow> string \<Rightarrow> call" where
  "password_call current new =
     api_post ''/api/v1/auth/password''
       (Some (JObj [(''current_password'', JStr current), (''new_password'', JStr new)]))"

fun settings_update :: "settings_msg \<Rightarrow> settings \<Rightarrow> settings \<times> effect list" where
  "settings_update (TypeCurrent t) s = (s\<lparr>se_current := t\<rparr>, [])"
| "settings_update (TypeNext t) s = (s\<lparr>se_next := t\<rparr>, [])"
| "settings_update (TypeConfirm t) s = (s\<lparr>se_confirm := t\<rparr>, [])"
| "settings_update ChangePassword s =
     (if se_next s \<noteq> se_confirm s
      then (s\<lparr>se_error := Some ''The new passwords don't match.''\<rparr>, [])
      else (s\<lparr>se_error := None, se_busy := True, se_pending := se_pending s + 1\<rparr>,
            [Send (password_call (se_current s) (se_next s))]))"

definition settings_answer :: "failure + unit option \<Rightarrow> settings \<Rightarrow> settings" where
  "settings_answer r s =
     (if se_pending s = 0 then s
      else let s1 = s\<lparr>se_pending := se_pending s - 1, se_busy := False\<rparr>
           in case r of
                Inr _ \<Rightarrow> s1\<lparr>se_done := True, se_current := [], se_next := [], se_confirm := []\<rparr>
              | Inl err \<Rightarrow> s1\<lparr>se_error := Some (failure_message err)\<rparr>)"

definition password_input :: "string \<Rightarrow> string \<Rightarrow> string \<Rightarrow> (string \<Rightarrow> 'm) \<Rightarrow> 'm attr list" where
  "password_input v kind minLength set_msg =
     [Attr ''type'' ''password'', Attr ''value'' v, OnInput set_msg, Attr ''autoComplete'' kind]
     @ (if minLength \<noteq> [] then [Attr ''minLength'' minLength] else []) @ [Flag ''required'' True]"

definition detail_row :: "string \<Rightarrow> 'm node \<Rightarrow> 'm node" where
  "detail_row label v =
     Elem ''div'' [] [Elem ''dt'' [] [Text label], Elem ''dd'' [] [v]]"

definition Settings :: "string option \<Rightarrow> settings \<Rightarrow> settings_msg node" where
  "Settings username s = Frag
     [PageHeader ''Settings'' None,
      Elem ''div'' []
       [Elem ''div'' []
         [Elem ''h2'' [] [Text ''Account''],
          Elem ''dl'' []
            [detail_row ''Username'' (Text (coalesce username mdash)), detail_row ''Role'' (Text ''admin'')],
          Elem ''p'' [] [Text ''Changing the password revokes all other sessions.'']],
        Elem ''form'' [OnSubmit ChangePassword]
         [Elem ''h2'' [] [Text ''Change password''],
          Elem ''div'' []
            [FormInput ''Current password'' None (password_input (se_current s) ''current-password'' [] TypeCurrent),
             FormInput ''New password'' (Some ''At least 12 characters'')
               (password_input (se_next s) ''new-password'' ''12'' TypeNext),
             FormInput ''Confirm new password'' None (password_input (se_confirm s) ''new-password'' [] TypeConfirm)],
          alert_line (se_error s),
          show_if (se_done s \<and> (se_error s = None \<or> se_error s = Some []))
            (Elem ''p'' [] [Text ''Password changed. Other sessions were signed out.'']),
          Elem ''div'' []
            [Button Primary SizeM [Attr ''type'' ''submit'', Flag ''disabled'' (se_busy s)]
               [Text (if se_busy s then ''Changing'' @ ellipsis else ''Change password'')]]]]]"

section \<open>The handler\<close>

datatype password_result =
    PasswordChanged
  | InvalidCredentials
  | WeakPassword string
  | SessionInvalid
  | PasswordFailed

definition passwordChangeRequest :: go_struct where
  "passwordChangeRequest = [(''current_password'', GoString), (''new_password'', GoString)]"

definition maxPasswordLen :: nat where
  "maxPasswordLen = 256"

definition string_member :: "call \<Rightarrow> string \<Rightarrow> string" where
  "string_member c k = (case json_member (the (c_body c)) k of JStr s \<Rightarrow> s | _ \<Rightarrow> [])"

definition handlePasswordChange :: "(string \<Rightarrow> string \<Rightarrow> password_result) \<Rightarrow> call \<Rightarrow> nat \<times> string \<times> string" where
  \<comment> \<open>status, error code and message; the code is empty on success\<close>
  "handlePasswordChange change c =
     (case readJSON passwordChangeRequest c of
        Some (st, code) \<Rightarrow> (st, code, ''request body is not valid JSON for this endpoint'')
      | None \<Rightarrow>
          (let cur = string_member c ''current_password''; new = string_member c ''new_password''
           in if cur = [] \<or> maxPasswordLen < length cur \<or> new = [] \<or> maxPasswordLen < length new
              then (400, ''INVALID_REQUEST'', ''invalid request'')
              else case change cur new of
                InvalidCredentials \<Rightarrow> (401, ''INVALID_CREDENTIALS'', ''current password is incorrect'')
              | WeakPassword m \<Rightarrow> (400, ''WEAK_PASSWORD'', m)
              | SessionInvalid \<Rightarrow> (401, ''UNAUTHENTICATED'', ''session invalid or expired'')
              | PasswordFailed \<Rightarrow> (500, ''INTERNAL'', ''internal error'')
              | PasswordChanged \<Rightarrow> (200, [], [])))"

definition envelope :: "nat \<times> string \<times> string \<Rightarrow> unit fetched" where
  \<comment> \<open>\<open>writeError\<close>, or a JSON document without an error\<close>
  "envelope r =
     (case r of (st, code, msg) \<Rightarrow>
        Responded \<lparr>resp_status = st,
          resp_body = Json \<lparr>doc_value = (),
            doc_code = (if code = [] then None else Some code),
            doc_message = (if code = [] then None else Some msg), doc_request_id = None\<rparr>,
          resp_header_id = None\<rparr>)"

section \<open>Lemmas\<close>

lemma length_quote: "length (quote s) \<le> 6 * length s + 2"
proof -
  have "length (escape_char c) \<le> 6" for c by (simp add: escape_char_def Let_def)
  then have "length (concat (List.map escape_char s)) \<le> 6 * length s"
    by (induction s) (auto simp: add_le_mono)
  then show ?thesis by (simp add: quote_def)
qed

lemma password_body_accepted:
  assumes "length cur \<le> maxPasswordLen" "length new \<le> maxPasswordLen"
  shows "readJSON passwordChangeRequest (password_call cur new) = None"
proof -
  have f: "field_for passwordChangeRequest ''current_password'' = Some GoString"
    "field_for passwordChangeRequest ''new_password'' = Some GoString" by code_simp+
  have q: "length (quote ''current_password'') = 18" "length (quote ''new_password'') = 14" by code_simp+
  have "length (quote cur) \<le> 6 * 256 + 2" "length (quote new) \<le> 6 * 256 + 2"
    using length_quote [of cur] length_quote [of new] assms by (simp_all add: maxPasswordLen_def)
  then show ?thesis
    using q by (simp add: readJSON_def password_call_def api_defs decodes_def f maxBodyBytes_def)
qed

section \<open>Properties\<close>

text \<open>
  C31. A wrong current password signs the administrator out: the handler answers 401 for it, so
  the client drops the token and sends the browser to the login page, and the form says that
  the session expired, not that the password is incorrect.
\<close>

theorem wrong_password_signs_out:
  assumes "Send c \<in> set (snd (settings_update ChangePassword s))"
    and "se_current s \<noteq> []" "length (se_current s) \<le> 256" "se_next s \<noteq> []" "length (se_next s) \<le> 256"
    and "change (se_current s) (se_next s) = InvalidCredentials"
    and "\<not> startsWith (loc_pathname loc) ''/login''"
  shows "st_csrf (settle_request csrf loc (envelope (handlePasswordChange change c))) = None
    \<and> st_assign (settle_request csrf loc (envelope (handlePasswordChange change c))) \<noteq> None
    \<and> se_error (settings_answer (st_result (settle_request csrf loc (envelope (handlePasswordChange change c))))
          (fst (settings_update ChangePassword s))) = Some ''session expired''"
proof -
  have c: "c = password_call (se_current s) (se_next s)" "se_next s = se_confirm s"
    using assms(1) by (auto split: if_splits)
  have "readJSON passwordChangeRequest c = None"
    unfolding c(1) using assms(3,5) by (intro password_body_accepted) (simp_all add: maxPasswordLen_def)
  then have "fst (handlePasswordChange change c) = 401"
    using assms(2-6) by (simp add: handlePasswordChange_def c(1) string_member_def password_call_def api_defs maxPasswordLen_def)
  then obtain code msg where h: "handlePasswordChange change c = (401, code, msg)"
    by (cases "handlePasswordChange change c") auto
  show ?thesis
    using assms(7) c(2) by (simp add: h envelope_def settle_401 login_redirect_def settings_answer_def api_failure_def)
qed

theorem wrong_password_signs_out_witness:
  "st_csrf (settle_request (Some ''t'') (pathname_of ''/settings'')
     (envelope (handlePasswordChange (\<lambda>_ _. InvalidCredentials) (password_call ''old'' ''a new password'')))) = None"
  using wrong_password_signs_out [of "password_call ''old'' ''a new password''"
      "Settings_init\<lparr>se_current := ''old'', se_next := ''a new password'', se_confirm := ''a new password''\<rparr>"
      "\<lambda>_ _. InvalidCredentials" "pathname_of ''/settings''" "Some ''t''"]
  by (simp add: Settings_init_def pathname_of_def startsWith_def)

text \<open>
  Mismatched new passwords never reach the network, and a matching pair is sent exactly as
  typed; the success note is only ever shown after a successful change.
\<close>

theorem mismatch_is_not_sent:
  "snd (settings_update ChangePassword s) =
     (if se_next s = se_confirm s then [Send (password_call (se_current s) (se_next s))] else [])
   \<and> se_error (fst (settings_update ChangePassword s))
       = (if se_next s = se_confirm s then None else Some ''The new passwords don't match.'')
   \<and> se_done (fst (settings_update m t)) = se_done t"
  by (cases m) simp_all

end
