(* ===== verification/Charts.thy ===== *)
theory Charts
  imports DataTable
begin

text \<open>
  What the pages with charts share: sums over the traffic history, the points of a chart and
  the elements handed to the chart library, which is not part of the repository. The data of a
  chart is rendered as one element per point; the formatting functions the code passes to the
  library are definitions of their own.
\<close>

section \<open>Sums\<close>

definition js_sum :: "('a \<Rightarrow> int) \<Rightarrow> 'a list \<Rightarrow> jsnum" where
  \<comment> \<open>\<open>xs.reduce((s, x) => s + f(x), 0)\<close>\<close>
  "js_sum f xs = foldl (\<lambda>s x. js_add s (jint (f x))) (Fin 0) xs"

lemma js_add_int:
  "0 \<le> a \<Longrightarrow> 0 \<le> b \<Longrightarrow> a + b \<le> 2 ^ 53 \<Longrightarrow> js_add (Fin (of_int a)) (jint b) = Fin (of_int (a + b))"
  using num_of_int [of "a + b"] by (simp add: jint_small)

lemma js_sum_from:
  assumes "\<forall>x \<in> set xs. 0 \<le> f x" and "0 \<le> a" and "a + sum_list (List.map f xs) \<le> 2 ^ 53"
  shows "foldl (\<lambda>s x. js_add s (jint (f x))) (Fin (of_int a)) xs = Fin (of_int (a + sum_list (List.map f xs)))"
  using assms
proof (induction xs arbitrary: a)
  case (Cons x xs)
  have nn: "0 \<le> sum_list (List.map f xs)" using Cons.prems(1) by (intro sum_list_nonneg_int) simp
  then have "js_add (Fin (of_int a)) (jint (f x)) = Fin (of_int (a + f x))"
    using Cons.prems by (intro js_add_int) simp_all
  then show ?case using Cons.IH [of "a + f x"] Cons.prems by (simp add: add.assoc)
qed simp

lemma js_sum_exact:
  assumes "\<forall>x \<in> set xs. 0 \<le> f x" and "sum_list (List.map f xs) \<le> 2 ^ 53"
  shows "js_sum f xs = jint (sum_list (List.map f xs))"
  using js_sum_from [OF assms(1), of 0] assms sum_list_nonneg_int [OF assms(1)]
  by (simp add: js_sum_def jint_small)

section \<open>Chart points\<close>

record chart_point =
  cp_day :: string
  cp_down :: int
  cp_up :: int
  cp_conn :: int

definition chart_of :: "env \<Rightarrow> usage_period list \<Rightarrow> chart_point list" where
  "chart_of e history =
     List.map (\<lambda>p. \<lparr>cp_day = locale_day e (date_value (up_period_start p)),
                cp_down = up_bytes_in p, cp_up = up_bytes_out p, cp_conn = up_connections p\<rparr>) history"

fun drop_space :: "string \<Rightarrow> string" where
  \<comment> \<open>\<open>replace(" ", "")\<close>: the first space only\<close>
  "drop_space [] = []"
| "drop_space (c # s) = (if c = CHR '' '' then s else c # drop_space s)"

definition bytes_tick :: "env \<Rightarrow> jsnum \<Rightarrow> string" where
  "bytes_tick e v = drop_space (formatBytes e v)"

definition traffic_tooltip :: "env \<Rightarrow> jsnum \<Rightarrow> string \<Rightarrow> string \<times> string" where
  "traffic_tooltip e v name = (formatBytes e v, if name = ''down'' then ''Download'' else ''Upload'')"

definition datum :: "(string \<times> string) list \<Rightarrow> 'm node" where
  "datum kvs = Elem ''datum'' (List.map (\<lambda>(k, v). Attr k v) kvs) []"

definition gradient :: "string \<Rightarrow> string \<Rightarrow> string \<Rightarrow> 'm node" where
  "gradient i color opacity =
     Elem ''linearGradient'' [Attr ''id'' i]
       [Elem ''stop'' [Attr ''offset'' ''0%'', Attr ''stopColor'' color, Attr ''stopOpacity'' opacity] [],
        Elem ''stop'' [Attr ''offset'' ''100%'', Attr ''stopColor'' color, Attr ''stopOpacity'' ''0.02''] []]"

definition area :: "string \<Rightarrow> string option \<Rightarrow> string \<Rightarrow> string \<Rightarrow> 'm node" where
  "area dataKey stackId stroke fill =
     Elem ''Area''
       ([Attr ''type'' ''monotone'', Attr ''dataKey'' dataKey]
        @ (case stackId of None \<Rightarrow> [] | Some i \<Rightarrow> [Attr ''stackId'' i])
        @ [Attr ''stroke'' stroke, Attr ''fill'' fill]) []"

definition traffic_data :: "chart_point list \<Rightarrow> 'm node list" where
  "traffic_data chart =
     List.map (\<lambda>p. datum [(''day'', cp_day p), (''down'', js_String (jint (cp_down p))),
                          (''up'', js_String (jint (cp_up p)))]) chart"

definition traffic_chart :: "chart_point list \<Rightarrow> 'm node list \<Rightarrow> 'm node list \<Rightarrow> 'm node" where
  \<comment> \<open>an area chart over the days, its gradients and its areas\<close>
  "traffic_chart chart defs areas =
     Elem ''ResponsiveContainer'' []
       [Elem ''AreaChart'' []
         (traffic_data chart
          @ [Elem ''defs'' [] defs, Elem ''CartesianGrid'' [] [],
             Elem ''XAxis'' [Attr ''dataKey'' ''day''] [], Elem ''YAxis'' [] [], Elem ''Tooltip'' [] []]
          @ areas)]"

lemma traffic_chart_clicks [simp]:
  "clicks (traffic_chart chart [] []) = []"
  by (simp add: traffic_chart_def traffic_data_def datum_def own_clicks_def o_def split_def)

end
