(* ===== verification/AnalyticsPage.thy ===== *)
theory AnalyticsPage
  imports Charts
begin

text \<open>
  The analytics page, \<open>web/src/pages/Analytics.tsx\<close>: three hooks whose paths follow the chosen
  range, the totals, the ranking of users by traffic, and two tables.
\<close>

section \<open>State\<close>

definition RANGES :: "int list" where
  "RANGES = [7, 30, 90]"

record analytics_page =
  an_days :: int
  an_traffic :: "usage_period list api_state"
  an_dests :: "destination_stat list api_state"
  an_blocked :: "destination_stat list api_state"
  an_dest_sort :: sort_state
  an_blocked_sort :: sort_state

definition days_text :: "int \<Rightarrow> string" where
  "days_text d = js_String (jint d)"

definition traffic_path :: "int \<Rightarrow> string" where
  "traffic_path d = ''/api/v1/analytics/traffic?days='' @ days_text d"

definition dests_path :: "int \<Rightarrow> string" where
  "dests_path d = ''/api/v1/analytics/destinations?days='' @ days_text d @ ''&limit=10''"

definition blocked_path :: "int \<Rightarrow> string" where
  "blocked_path d = ''/api/v1/analytics/blocked?days='' @ days_text d @ ''&limit=10''"

definition Analytics_init :: analytics_page where
  "Analytics_init =
     \<lparr>an_days = 30, an_traffic = useApi (Some (traffic_path 30)), an_dests = useApi (Some (dests_path 30)),
      an_blocked = useApi (Some (blocked_path 30)), an_dest_sort = None, an_blocked_sort = None\<rparr>"

datatype analytics_msg = SetDays int | SortDests string | SortBlocked string

fun analytics_update :: "analytics_msg \<Rightarrow> analytics_page \<Rightarrow> analytics_page" where
  "analytics_update (SetDays d) s =
     s\<lparr>an_days := d,
       an_traffic := api_step (an_traffic s) (Rerender (Some (traffic_path d))),
       an_dests := api_step (an_dests s) (Rerender (Some (dests_path d))),
       an_blocked := api_step (an_blocked s) (Rerender (Some (blocked_path d)))\<rparr>"
| "analytics_update (SortDests k) s = s\<lparr>an_dest_sort := toggleSort k (an_dest_sort s)\<rparr>"
| "analytics_update (SortBlocked k) s = s\<lparr>an_blocked_sort := toggleSort k (an_blocked_sort s)\<rparr>"

datatype analytics_event =
    AnalyticsMsg analytics_msg
  | TrafficSettled nat "failure + usage_period list option"
  | DestsSettled nat "failure + destination_stat list option"
  | BlockedSettled nat "failure + destination_stat list option"

fun analytics_step :: "analytics_page \<Rightarrow> analytics_event \<Rightarrow> analytics_page" where
  "analytics_step s (AnalyticsMsg m) = analytics_update m s"
| "analytics_step s (TrafficSettled i r) = s\<lparr>an_traffic := api_step (an_traffic s) (Settled i r)\<rparr>"
| "analytics_step s (DestsSettled i r) = s\<lparr>an_dests := api_step (an_dests s) (Settled i r)\<rparr>"
| "analytics_step s (BlockedSettled i r) = s\<lparr>an_blocked := api_step (an_blocked s) (Settled i r)\<rparr>"

section \<open>Traffic by user\<close>

type_synonym user_bytes = "(string \<times> jsnum) list" \<comment> \<open>a \<open>Map\<close>, in insertion order\<close>

fun map_set :: "user_bytes \<Rightarrow> string \<Rightarrow> jsnum \<Rightarrow> user_bytes" where
  \<comment> \<open>\<open>Map.prototype.set\<close>: a known key keeps its place\<close>
  "map_set [] k v = [(k, v)]"
| "map_set ((k', v') # m) k v = (if k' = k then (k, v) # m else (k', v') # map_set m k v)"

definition add_destination :: "user_bytes \<Rightarrow> destination_stat \<Rightarrow> user_bytes" where
  "add_destination m d =
     map_set m (ds_username d)
       (js_add (js_add (coalesce (map_of m (ds_username d)) (Fin 0)) (jint (ds_bytes_in d))) (jint (ds_bytes_out d)))"

definition byUser :: "destination_stat list \<Rightarrow> user_bytes" where
  "byUser ds = foldl add_destination [] ds"

definition by_bytes :: "(string \<times> jsnum) \<Rightarrow> (string \<times> jsnum) \<Rightarrow> int" where
  \<comment> \<open>the sign of \<open>b.bytes - a.bytes\<close>, \<open>NaN\<close> counting as zero\<close>
  "by_bytes a b =
     (let d = js_add (snd b) (js_neg (snd a))
      in if js_lt d (Fin 0) then - 1 else if js_lt (Fin 0) d then 1 else 0)"

definition userBars :: "destination_stat list \<Rightarrow> user_bytes" where
  "userBars ds = take 8 (js_sort by_bytes (byUser ds))"

section \<open>The view\<close>

definition destination_host :: "destination_stat \<Rightarrow> string" where
  "destination_host d = ds_host d @ '':'' @ js_String (jint (ds_port d))"

definition destination_bytes :: "destination_stat \<Rightarrow> jsnum" where
  "destination_bytes d = js_add (jint (ds_bytes_in d)) (jint (ds_bytes_out d))"

definition plain_cell :: "string \<Rightarrow> 'm node" where
  "plain_cell t = Elem ''span'' [] [Text t]"

definition destColumns :: "env \<Rightarrow> (destination_stat, 'm) column list" where
  "destColumns e =
     [(column ''host'' ''Destination'' (\<lambda>d. Text (destination_host d)))
        \<lparr>col_sort := Some (\<lambda>d. SStr (ds_host d))\<rparr>,
      column ''user'' ''User'' (\<lambda>d. plain_cell (ds_username d)),
      column ''protocol'' ''Protocol'' (\<lambda>d. plain_cell (ds_protocol d)),
      (column ''requests'' ''Requests'' (\<lambda>d. plain_cell (formatNumber e (jint (ds_requests d)))))
        \<lparr>col_sort := Some (\<lambda>d. SNum (jint (ds_requests d))), col_right := True\<rparr>,
      (column ''bytes'' ''Traffic'' (\<lambda>d. plain_cell (formatBytes e (destination_bytes d))))
        \<lparr>col_sort := Some (\<lambda>d. SNum (destination_bytes d)), col_right := True\<rparr>,
      column ''last'' ''Last seen'' (\<lambda>d. plain_cell (locale_plain e (date_value (ds_last_seen d))))]"

definition blockedColumns :: "env \<Rightarrow> (destination_stat, 'm) column list" where
  "blockedColumns e =
     [column ''host'' ''Destination'' (\<lambda>d. Text (destination_host d)),
      column ''user'' ''User'' (\<lambda>d. plain_cell (ds_username d)),
      (column ''blocked'' ''Blocked'' (\<lambda>d. plain_cell (formatNumber e (jint (ds_blocked d)))))
        \<lparr>col_sort := Some (\<lambda>d. SNum (jint (ds_blocked d))), col_right := True\<rparr>,
      (column ''requests'' ''Total requests'' (\<lambda>d. plain_cell (formatNumber e (jint (ds_requests d)))))
        \<lparr>col_sort := Some (\<lambda>d. SNum (jint (ds_requests d))), col_right := True\<rparr>]"

definition SummaryTile :: "string \<Rightarrow> string \<Rightarrow> 'm node" where
  "SummaryTile label v = Elem ''div'' [] [Elem ''div'' [] [Text label], Elem ''div'' [] [Text v]]"

definition connections_chart :: "chart_point list \<Rightarrow> 'm node" where
  "connections_chart chart =
     Elem ''ResponsiveContainer'' []
       [Elem ''BarChart'' []
         (List.map (\<lambda>p. datum [(''day'', cp_day p), (''conn'', js_String (jint (cp_conn p)))]) chart
          @ [Elem ''CartesianGrid'' [] [], Elem ''XAxis'' [Attr ''dataKey'' ''day''] [], Elem ''YAxis'' [] [],
             Elem ''Tooltip'' [] [], Elem ''Bar'' [Attr ''dataKey'' ''conn'', Attr ''fill'' ''var(--brand-primary)''] []])]"

definition users_chart :: "user_bytes \<Rightarrow> 'm node" where
  "users_chart bars =
     (if bars = [] then Elem ''p'' [] [Text ''No traffic recorded in this window.'']
      else Elem ''ResponsiveContainer'' []
       [Elem ''BarChart'' [Attr ''layout'' ''vertical'']
         (List.map (\<lambda>(u, b). datum [(''username'', u), (''bytes'', js_String b)]) bars
          @ [Elem ''CartesianGrid'' [] [], Elem ''XAxis'' [Attr ''type'' ''number''] [],
             Elem ''YAxis'' [Attr ''type'' ''category'', Attr ''dataKey'' ''username''] [], Elem ''Tooltip'' [] [],
             Elem ''Bar'' [Attr ''dataKey'' ''bytes'', Attr ''fill'' ''var(--brand-primary)''] []])])"

definition Analytics :: "env \<Rightarrow> analytics_page \<Rightarrow> analytics_msg node" where
  "Analytics e s =
     (let history = coalesce (ap_data (an_traffic s)) [];
          dests = coalesce (ap_data (an_dests s)) [];
          chart = chart_of e history in
      Frag
        [PageHeader ''Analytics''
           (Some (Elem ''div'' []
             (List.map (\<lambda>r. Elem ''button''
                [on_click (SetDays r),
                 cls (if an_days s = r then ''bg-surface-1 text-primary shadow-card''
                      else ''text-secondary hover:text-primary'')]
                [Text (days_text r @ ''d'')]) RANGES))),
         Elem ''div'' []
           [SummaryTile ''Downloads'' (formatBytes e (js_sum up_bytes_in history)),
            SummaryTile ''Uploads'' (formatBytes e (js_sum up_bytes_out history)),
            SummaryTile ''Connections'' (formatNumber e (js_sum up_connections history))],
         Elem ''div'' []
           [Elem ''h2'' [] [Text ''Traffic over time''],
            traffic_chart chart
              [gradient ''aDown'' ''var(--brand-primary)'' ''0.28'', gradient ''aUp'' ''var(--success-500)'' ''0.24'']
              [area ''down'' (Some ''t'') ''var(--brand-primary)'' ''url(#aDown)'',
               area ''up'' (Some ''t'') ''var(--success-500)'' ''url(#aUp)'']],
         Elem ''div'' []
           [Elem ''div'' [] [Elem ''h2'' [] [Text ''Connections per day''], connections_chart chart],
            Elem ''div'' [] [Elem ''h2'' [] [Text ''Traffic by user''], users_chart (userBars dests)]],
         Elem ''div'' []
           [Elem ''h2'' [] [Text ''Top destinations''],
            map_node (table_msg SortDests)
              (DataTable (destColumns e) dests (ap_loading (an_dests s))
                 ''No destination stats in this window'' None (an_dest_sort s))],
         Elem ''div'' []
           [Elem ''h2'' [] [Text ''Blocked destinations''],
            map_node (table_msg SortBlocked)
              (DataTable (blockedColumns e) (coalesce (ap_data (an_blocked s)) []) (ap_loading (an_blocked s))
                 ''Nothing blocked in this window'' None (an_blocked_sort s))]])"

section \<open>The reference ranking\<close>

text \<open>
  What the ranking should compute, on integers: the users in the order they first occur, each
  with the sum over its destinations, sorted by that sum.
\<close>

definition first_users :: "destination_stat list \<Rightarrow> string list" where
  "first_users ds = foldl (\<lambda>us d. if ds_username d \<in> set us then us else us @ [ds_username d]) [] ds"

definition user_total :: "destination_stat list \<Rightarrow> string \<Rightarrow> int" where
  "user_total ds u = sum_list (List.map (\<lambda>d. if ds_username d = u then ds_bytes_in d + ds_bytes_out d else 0) ds)"

definition int_totals :: "destination_stat list \<Rightarrow> (string \<times> int) list" where
  "int_totals ds = List.map (\<lambda>u. (u, user_total ds u)) (first_users ds)"

definition more_bytes :: "(string \<times> int) \<Rightarrow> (string \<times> int) \<Rightarrow> int" where
  "more_bytes a b = sgn (snd b - snd a)"

definition as_number :: "(string \<times> int) \<Rightarrow> string \<times> jsnum" where
  "as_number x = (fst x, jint (snd x))"

interpretation ranking: comparator more_bytes
  by unfold_locales (auto simp: more_bytes_def sgn_if split: if_splits)

subsection \<open>Sums by user\<close>

lemma first_users_snoc:
  "first_users (ds @ [d]) =
     (if ds_username d \<in> set (first_users ds) then first_users ds else first_users ds @ [ds_username d])"
  by (simp add: first_users_def)

lemma first_users_distinct: "distinct (first_users ds)"
  by (induction ds rule: rev_induct) (auto simp: first_users_snoc, simp add: first_users_def)

lemma first_users_set: "set (first_users ds) = ds_username ` set ds"
  by (induction ds rule: rev_induct) (auto simp: first_users_snoc, simp_all add: first_users_def)

lemma map_set_known:
  "distinct us \<Longrightarrow> k \<in> set us \<Longrightarrow>
     map_set (List.map (\<lambda>u. (u, g u)) us) k v = List.map (\<lambda>u. (u, if u = k then v else g u)) us"
  by (induction us) auto

lemma map_set_new:
  "k \<notin> set us \<Longrightarrow> map_set (List.map (\<lambda>u. (u, g u)) us) k v = List.map (\<lambda>u. (u, g u)) us @ [(k, v)]"
  by (induction us) auto

lemma map_of_pairs: "map_of (List.map (\<lambda>u. (u, g u)) us) k = (if k \<in> set us then Some (g k) else None)"
  by (induction us) auto

definition destination_sum :: "destination_stat list \<Rightarrow> int" where
  "destination_sum ds = sum_list (List.map (\<lambda>d. ds_bytes_in d + ds_bytes_out d) ds)"

lemma user_total_bounds:
  assumes "\<forall>d \<in> set ds. 0 \<le> ds_bytes_in d \<and> 0 \<le> ds_bytes_out d"
  shows "0 \<le> user_total ds u" "user_total ds u \<le> destination_sum ds"
  using assms by (induction ds) (auto simp: user_total_def destination_sum_def)

lemma user_total_snoc:
  "user_total (ds @ [d]) u = user_total ds u + (if ds_username d = u then ds_bytes_in d + ds_bytes_out d else 0)"
  by (simp add: user_total_def)

lemma user_total_absent: "u \<notin> ds_username ` set ds \<Longrightarrow> user_total ds u = 0"
  by (induction ds) (auto simp: user_total_def)

lemma byUser_totals:
  "\<forall>d \<in> set ds. 0 \<le> ds_bytes_in d \<and> 0 \<le> ds_bytes_out d \<Longrightarrow> destination_sum ds \<le> 2 ^ 53 \<Longrightarrow>
     byUser ds = List.map (\<lambda>u. (u, jint (user_total ds u))) (first_users ds)"
proof (induction ds rule: rev_induct)
  case (snoc d ds)
  let ?k = "ds_username d"
  have nn: "\<forall>d \<in> set ds. 0 \<le> ds_bytes_in d \<and> 0 \<le> ds_bytes_out d" "0 \<le> ds_bytes_in d" "0 \<le> ds_bytes_out d"
    using snoc.prems(1) by auto
  have b: "0 \<le> user_total ds ?k" "user_total ds ?k + ds_bytes_in d + ds_bytes_out d \<le> 2 ^ 53"
    using user_total_bounds [OF nn(1), of ?k] snoc.prems(2) by (simp_all add: destination_sum_def)
  have IH: "byUser ds = List.map (\<lambda>u. (u, jint (user_total ds u))) (first_users ds)"
    using snoc.IH nn(1) snoc.prems(2) nn(2,3) by (simp add: destination_sum_def)
  have "coalesce (map_of (byUser ds) ?k) (Fin 0) = Fin (of_int (user_total ds ?k))"
    using b nn first_users_set [of ds] user_total_absent [of ?k ds]
    by (auto simp: IH map_of_pairs jint_small)
  moreover have "js_add (js_add (Fin (of_int (user_total ds ?k))) (jint (ds_bytes_in d))) (jint (ds_bytes_out d))
      = jint (user_total ds ?k + ds_bytes_in d + ds_bytes_out d)"
    using b nn(2,3) js_add_int [of "user_total ds ?k" "ds_bytes_in d"]
      js_add_int [of "user_total ds ?k + ds_bytes_in d" "ds_bytes_out d"] by (simp add: jint_small)
  ultimately have a: "byUser (ds @ [d]) =
      map_set (byUser ds) ?k (jint (user_total (ds @ [d]) ?k))"
    by (simp add: byUser_def add_destination_def user_total_snoc add.assoc)
  show ?case
  proof (cases "?k \<in> set (first_users ds)")
    case True
    then show ?thesis
      unfolding a IH map_set_known [OF first_users_distinct True]
      by (auto simp: first_users_snoc user_total_snoc)
  next
    case False
    then show ?thesis
      unfolding a IH map_set_new [OF False] by (auto simp: first_users_snoc user_total_snoc)
  qed
qed (simp add: byUser_def first_users_def)

lemma insert_row_map:
  "\<forall>b \<in> set xs. c (f a) (f b) = c' a b \<Longrightarrow>
     insert_row c (f a) (List.map f xs) = List.map f (insert_row c' a xs)"
  by (induction xs) auto

lemma js_sort_map:
  "\<forall>a \<in> set xs. \<forall>b \<in> set xs. c (f a) (f b) = c' a b \<Longrightarrow> js_sort c (List.map f xs) = List.map f (js_sort c' xs)"
proof (induction xs)
  case (Cons x xs)
  have "set (js_sort c' xs) = set xs" by (metis js_sort_mset set_mset_mset)
  then show ?case using Cons insert_row_map [of "js_sort c' xs" c f x c'] by (simp add: js_sort_def)
qed (simp add: js_sort_def)

lemma by_bytes_numbers:
  assumes "0 \<le> snd a" "snd a \<le> 2 ^ 53" "0 \<le> snd b" "snd b \<le> 2 ^ 53"
  shows "by_bytes (as_number a) (as_number b) = more_bytes a b"
proof -
  have "js_add (jint (snd b)) (js_neg (jint (snd a))) = Fin (of_int (snd b - snd a))"
    using assms num_of_int [of "snd b - snd a"] by (simp add: jint_small)
  then show ?thesis by (simp add: by_bytes_def as_number_def more_bytes_def sgn_if)
qed

section \<open>Properties\<close>

text \<open>
  C28. The ranking of users by traffic agrees with its integer reference: while the window stays
  below 2^53 bytes, the bars are the first eight users of the list of all users of the window,
  each with the exact sum of its destinations, sorted by that sum with ties in order of first
  occurrence; so no user left out has more traffic than one shown.
\<close>

theorem ranking_equals_reference:
  assumes "\<forall>d \<in> set ds. 0 \<le> ds_bytes_in d \<and> 0 \<le> ds_bytes_out d" and "destination_sum ds \<le> 2 ^ 53"
  shows "userBars ds = List.map as_number (take 8 (js_sort more_bytes (int_totals ds)))
    \<and> mset (js_sort more_bytes (int_totals ds)) = mset (int_totals ds)
    \<and> sorted_wrt (\<lambda>a b. snd b \<le> snd a) (js_sort more_bytes (int_totals ds))"
proof -
  have totals: "byUser ds = List.map as_number (int_totals ds)"
    by (simp add: byUser_totals [OF assms] int_totals_def as_number_def o_def)
  have bounded: "0 \<le> snd a \<and> snd a \<le> 2 ^ 53" if "a \<in> set (int_totals ds)" for a
  proof -
    from that obtain u where "a = (u, user_total ds u)" unfolding int_totals_def set_map by blast
    then show ?thesis using user_total_bounds [OF assms(1), of u] assms(2) by simp
  qed
  have numbers: "js_sort by_bytes (List.map as_number (int_totals ds)) = List.map as_number (js_sort more_bytes (int_totals ds))"
    by (rule js_sort_map) (use bounded in \<open>blast intro: by_bytes_numbers\<close>)
  have "sorted_wrt (\<lambda>a b. snd b \<le> snd a) (js_sort more_bytes (int_totals ds))"
    using ranking.sorted_js_sort [of "int_totals ds"]
    by (rule sorted_wrt_mono_rel [rotated]) (auto simp: more_bytes_def sgn_if split: if_splits)
  then show ?thesis by (simp add: userBars_def totals numbers take_map js_sort_mset)
qed

definition sample_stat :: "string \<Rightarrow> int \<Rightarrow> destination_stat" where
  "sample_stat u n =
     \<lparr>ds_username = u, ds_host = ''example.org'', ds_port = 443, ds_protocol = ''http'', ds_requests = 1,
      ds_blocked = 0, ds_bytes_in = n, ds_bytes_out = 0, ds_last_seen = ''2025-03-01T00:00:00Z''\<rparr>"

theorem ranking_equals_reference_witness:
  "userBars [sample_stat ''a'' 1, sample_stat ''b'' 5, sample_stat ''a'' 3] = [(''b'', jint 5), (''a'', jint 4)]"
proof -
  have "js_sort more_bytes (int_totals [sample_stat ''a'' 1, sample_stat ''b'' 5, sample_stat ''a'' 3]) = [(''b'', 5), (''a'', 4)]"
    by code_simp
  then show ?thesis
    using ranking_equals_reference [of "[sample_stat ''a'' 1, sample_stat ''b'' 5, sample_stat ''a'' 3]"]
    by (simp add: destination_sum_def sample_stat_def as_number_def)
qed

end
