(* ===== verification/ServerPage.thy ===== *)
theory ServerPage
  imports DataTable
begin

text \<open>
  The server page, \<open>web/src/pages/Server.tsx\<close>: two hooks, the live stream, what it shows of
  them, and the meter with its clamp.
\<close>

section \<open>State\<close>

record server_page =
  sv_status :: "system_status api_state"
  sv_resources :: "system_resources api_state"
  sv_stream :: live_stream

definition Server_init :: server_page where
  "Server_init =
     \<lparr>sv_status = useApi (Some ''/api/v1/system/status''),
      sv_resources = useApi (Some ''/api/v1/system/resources''), sv_stream = useLiveStream\<rparr>"

datatype server_event =
    StatusApi "system_status api_event"
  | ResourcesApi "system_resources api_event"
  | ServerStream stream_event

fun server_step :: "server_page \<Rightarrow> server_event \<Rightarrow> server_page" where
  "server_step s (StatusApi e) = s\<lparr>sv_status := api_step (sv_status s) e\<rparr>"
| "server_step s (ResourcesApi e) = s\<lparr>sv_resources := api_step (sv_resources s) e\<rparr>"
| "server_step s (ServerStream e) = s\<lparr>sv_stream := stream_step (sv_stream s) e\<rparr>"

definition first_of :: "'a option \<Rightarrow> 'a option \<Rightarrow> 'a option" where
  \<comment> \<open>\<open>a ?? b\<close> where both may be absent\<close>
  "first_of a b = (case a of None \<Rightarrow> b | Some x \<Rightarrow> Some x)"

definition cpu_of :: "server_page \<Rightarrow> jsnum option" where
  "cpu_of s =
     first_of (Option.bind (sm_tick (sv_stream s)) tk_cpu_percent)
       (map_option sr_cpu_percent (ap_data (sv_resources s)))"

definition ram_used_of :: "server_page \<Rightarrow> int option" where
  "ram_used_of s =
     first_of (Option.bind (sm_tick (sv_stream s)) tk_ram_used)
       (map_option sr_mem_used (ap_data (sv_resources s)))"

definition ram_total_of :: "server_page \<Rightarrow> int option" where
  "ram_total_of s =
     first_of (Option.bind (sm_tick (sv_stream s)) tk_ram_total)
       (map_option sr_mem_total (ap_data (sv_resources s)))"

section \<open>The meter\<close>

definition clamped :: "jsnum \<Rightarrow> jsnum" where
  "clamped pct = math_max (Fin 0) (math_min (Fin 100) pct)"

definition bar_class :: "jsnum \<Rightarrow> string" where
  "bar_class v =
     (if js_le (Fin 90) v then ''bg-error'' else if js_le (Fin 70) v then ''bg-warning'' else ''bg-brand'')"

definition MeterCard :: "string \<Rightarrow> string \<Rightarrow> jsnum \<Rightarrow> string option \<Rightarrow> 'm node" where
  "MeterCard title v pct sub =
     Elem ''div'' []
       [Elem ''div'' [] [Elem ''h2'' [] [Text title], Elem ''span'' [] [Text v]],
        Elem ''div'' []
          [Elem ''div''
             [cls (bar_class (clamped pct)),
              Attr ''style'' (''width: '' @ js_String (clamped pct) @ ''%'')] []],
        (case sub of None \<Rightarrow> nothing | Some t \<Rightarrow> show_if (t \<noteq> []) (Elem ''p'' [] [Text t]))]"

definition ratio :: "int \<Rightarrow> int \<Rightarrow> jsnum" where
  \<comment> \<open>\<open>(used / total) * 100\<close>\<close>
  "ratio used tot = js_mul (js_div (jint used) (jint tot)) (Fin 100)"

definition known_total :: "int option \<Rightarrow> int option \<Rightarrow> (int \<times> int) option" where
  \<comment> \<open>\<open>used !== null && ramTotal\<close>\<close>
  "known_total used tot =
     (case (used, tot) of
        (Some u, Some t) \<Rightarrow> if js_truthy (jint t) then Some (u, t) else None
      | _ \<Rightarrow> None)"

definition meter_of :: "env \<Rightarrow> string \<Rightarrow> (int \<times> int) option \<Rightarrow> 'm node" where
  \<comment> \<open>the meters of RAM and disk\<close>
  "meter_of e title ut =
     (case ut of
        None \<Rightarrow> MeterCard title mdash (Fin 0) None
      | Some (u, t) \<Rightarrow>
          MeterCard title (js_String (math_round (ratio u t)) @ ''%'') (ratio u t)
            (Some (formatBytes e (jint u) @ '' of '' @ formatBytes e (jint t))))"

section \<open>The view\<close>

definition fact_row :: "string \<Rightarrow> 'm node list \<Rightarrow> 'm node" where
  "fact_row label v = Elem ''div'' [] [Elem ''dt'' [] [Text label], Elem ''dd'' [] v]"

definition deploy_tone :: "string \<Rightarrow> tone" where
  "deploy_tone st =
     (if st = ''deployed'' \<or> st = ''unchanged'' then Success else if st = ''failed'' then Failing else Warning)"

definition deploy_panel :: "env \<Rightarrow> config_version option \<Rightarrow> 'm node" where
  "deploy_panel e d =
     (case d of
        None \<Rightarrow> Elem ''p'' [] [Text ''No deployments recorded yet.'']
      | Some v \<Rightarrow>
          Elem ''dl'' []
            [fact_row ''Revision'' [Text (''#'' @ js_String (jint (cv_revision v)))],
             fact_row ''When'' [Text (formatDateTime e (Some (cv_generated_at v)))],
             fact_row ''Trigger'' [Text (cv_reason v)],
             fact_row ''Status''
               [Elem ''span'' []
                 [StatusDot (deploy_tone (cv_deployment_status v)), Text (cv_deployment_status v)]]])"

definition identity_cards :: "system_status option \<Rightarrow> 'm node" where
  "identity_cards s =
     Elem ''div'' []
       [StatCard ''Host'' (Text (coalesce (map_option ss_hostname s) mdash))
          (map_option (\<lambda>s. ss_os s @ middot @ ss_arch s) s) None,
        StatCard ''Uptime''
          (Text (case s of None \<Rightarrow> mdash | Some s \<Rightarrow> formatUptime (jint (ss_uptime_seconds s))))
          (map_option (\<lambda>s. ''kernel '' @ ss_kernel s) s) None,
        StatCard ''Public IP''
          (Text (case s of None \<Rightarrow> ''unknown''
                 | Some s \<Rightarrow> if ss_public_ip s \<noteq> [] then ss_public_ip s else ''unknown''))
          (Some (if (case s of None \<Rightarrow> False | Some s \<Rightarrow> ss_tls_enabled s) then ''TLS enabled'' else ''plain HTTP''))
          None,
        StatCard ''Proxy ports''
          (Text (case s of None \<Rightarrow> mdash
                 | Some s \<Rightarrow> js_String (jint (ss_port_http s)) @ '' / '' @ js_String (jint (ss_port_socks5 s))))
          (Some ''HTTP / SOCKS5'') None]"

definition cpu_meter :: "jsnum option \<Rightarrow> system_resources option \<Rightarrow> 'm node" where
  "cpu_meter cpu r =
     MeterCard ''CPU'' (case cpu of None \<Rightarrow> mdash | Some c \<Rightarrow> toFixed 0 c @ ''%'') (coalesce cpu (Fin 0))
       (map_option (\<lambda>r. js_String (jint (sr_cores r)) @ '' cores'' @ middot @ ''load '' @ toFixed 2 (sr_load1 r)
          @ '' '' @ toFixed 2 (sr_load5 r) @ '' '' @ toFixed 2 (sr_load15 r)) r)"

definition Server :: "env \<Rightarrow> server_page \<Rightarrow> 'm node" where
  "Server e p =
     (if \<not> absent (ap_error (sv_status p))
      then Frag [PageHeader ''Server'' None, Elem ''p'' [] [Text (the (ap_error (sv_status p)))]]
      else
        let s = ap_data (sv_status p); r = ap_data (sv_resources p) in
        Frag
          [PageHeader ''Server''
             (map_option (\<lambda>s. Badge (if ss_engine_running s then Success else Failing)
                [Text (if ss_engine_running s then ''engine running'' else ''engine stopped'')]) s),
           identity_cards s,
           Elem ''div'' []
             [cpu_meter (cpu_of p) r,
              meter_of e ''RAM'' (known_total (ram_used_of p) (ram_total_of p)),
              meter_of e ''Disk'' (known_total (map_option sr_disk_used r) (map_option sr_disk_total r))],
           Elem ''div'' []
             [Elem ''div'' []
                [Elem ''h2'' [] [Text ''Network''],
                 Elem ''dl'' []
                   [fact_row ''Received''
                      [Text (case r of None \<Rightarrow> mdash | Some r \<Rightarrow> formatBytes e (jint (sr_net_rx_bytes r)))],
                    fact_row ''Sent''
                      [Text (case r of None \<Rightarrow> mdash | Some r \<Rightarrow> formatBytes e (jint (sr_net_tx_bytes r)))],
                    fact_row ''Platform'' [Text (coalesce (map_option ss_platform s) mdash)]]],
              Elem ''div'' []
                [Elem ''h2'' [] [Text ''Last deployment''],
                 deploy_panel e (Option.bind s ss_last_deploy),
                 (case s of None \<Rightarrow> nothing
                  | Some s \<Rightarrow> Elem ''p'' [] [Text (''xoxproxy v'' @ ss_version s)])]]])"

section \<open>Lemmas\<close>

lemma js_le_Fin [simp]: "js_le (Fin a) (Fin b) = (a \<le> b)"
  by (auto simp: js_le_def)

lemma clamped_Fin: "clamped (Fin x) = Fin (max 0 (min 100 x))"
  by (auto simp: clamped_def math_max_def math_min_def max_def min_def)

lemma ratio_finite:
  assumes "0 \<le> u" "u \<le> 2 ^ 53" "0 < t" "t \<le> 2 ^ 53"
  obtains x where "ratio u t = Fin x"
proof -
  have b: "\<bar>of_int u / of_int t :: rat\<bar> \<le> 2 ^ 53"
  proof -
    have "1 \<le> (of_int t :: rat)" using assms(3) by simp
    moreover have "0 \<le> (of_int u :: rat)" "(of_int u :: rat) \<le> of_int (2 ^ 53)" using assms by (simp_all only: of_int_0_le_iff of_int_le_iff)
    ultimately have "of_int u / of_int t \<le> (of_int u :: rat)" "0 \<le> (of_int u / of_int t :: rat)"
      by (auto simp: divide_le_eq mult_le_cancel_left1)
    then show ?thesis using \<open>(of_int u :: rat) \<le> of_int (2 ^ 53)\<close> by simp
  qed
  have big: "(2::rat) ^ 80 < 2 powi 1000" using power_int_strict_increasing [of 80 1000 "2::rat"] by simp
  then have d: "js_div (jint u) (jint t) = Fin (fl (of_int u / of_int t))"
    using b assms by (simp add: jint_small num_moderate)
  have "\<bar>fl (of_int u / of_int t)\<bar> \<le> (2 * 2 ^ 53 + 2 :: rat)"
    using fl_le [of "of_int u / of_int t"] b by linarith
  then have "\<bar>fl (of_int u / of_int t) * 100\<bar> < (2::rat) powi 1000"
    using big by (simp add: abs_mult)
  then show ?thesis using d that by (simp add: ratio_def num_moderate)
qed

lemma ratio_full: "0 < t \<Longrightarrow> t \<le> 2 ^ 53 \<Longrightarrow> ratio t t = Fin 100"
  using num_of_int [of 1] num_of_int [of 100] by (simp add: ratio_def jint_small)

section \<open>Properties\<close>

text \<open>
  A meter never leaves its track: for any usage and any capacity up to 2^53 bytes, also a
  usage above the capacity, the width is a number from 0 to 100, its colour is the one of the
  thresholds 70 and 90, and a full resource fills the track.
\<close>

theorem meter_stays_in_track:
  assumes "0 \<le> u" "u \<le> 2 ^ 53" "0 < t" "t \<le> 2 ^ 53"
  shows "(\<exists>y. clamped (ratio u t) = Fin y \<and> 0 \<le> y \<and> y \<le> 100
      \<and> bar_class (clamped (ratio u t)) =
          (if 90 \<le> y then ''bg-error'' else if 70 \<le> y then ''bg-warning'' else ''bg-brand''))
    \<and> clamped (ratio t t) = Fin 100"
proof -
  obtain x where "ratio u t = Fin x" using ratio_finite [OF assms] by blast
  then show ?thesis
    using ratio_full [OF assms(3,4)] by (auto simp: clamped_Fin bar_class_def max_def min_def)
qed

theorem meter_stays_in_track_witness: "\<exists>y. clamped (ratio 5 4) = Fin y \<and> 0 \<le> y \<and> y \<le> 100"
  using meter_stays_in_track [of 5 4] by auto

text \<open>
  The stream takes precedence over the fetched resources, field by field, and the fetched
  value is kept as the fallback for a field the tick does not carry.
\<close>

theorem stream_takes_precedence:
  "cpu_of (server_step p (ServerStream (TickEvent (Some d)))) =
     (if sm_open (sv_stream p)
      then (case tk_cpu_percent d of Some c \<Rightarrow> Some c | None \<Rightarrow> map_option sr_cpu_percent (ap_data (sv_resources p)))
      else cpu_of p)
   \<and> ram_used_of (server_step p (ServerStream (TickEvent (Some d)))) =
     (if sm_open (sv_stream p)
      then (case tk_ram_used d of Some c \<Rightarrow> Some c | None \<Rightarrow> map_option sr_mem_used (ap_data (sv_resources p)))
      else ram_used_of p)"
  by (auto simp: cpu_of_def ram_used_of_def first_of_def subscribeStream_def split: option.splits)

end
