(* ===== verification/OverviewPage.thy ===== *)
theory OverviewPage
  imports Charts UsersPage ServerPage
begin

text \<open>
  The overview, \<open>web/src/pages/Overview.tsx\<close>: three hooks, two of them reloaded every thirty
  seconds, the live stream, the totals it computes and its view.
\<close>

section \<open>State\<close>

record traffic =
  tr_days :: int
  tr_history :: "usage_period list"
  tr_live :: live_snapshot

record overview_page =
  ov_traffic :: "traffic api_state"
  ov_users :: "proxy_user list api_state"
  ov_system :: "system_status api_state"
  ov_stream :: live_stream

definition Overview_init :: overview_page where
  "Overview_init =
     \<lparr>ov_traffic = useApi (Some ''/api/v1/analytics/traffic?days=30''),
      ov_users = useApi (Some ''/api/v1/users''),
      ov_system = useApi (Some ''/api/v1/system/status''), ov_stream = useLiveStream\<rparr>"

datatype overview_event =
    OvTraffic nat "failure + traffic option"
  | OvUsers nat "failure + proxy_user list option"
  | OvSystem nat "failure + system_status option"
  | OvStream stream_event
  | OvTimer bool

definition overview_refresh :: "overview_page \<Rightarrow> overview_page" where
  "overview_refresh s = s\<lparr>ov_users := reload (ov_users s), ov_system := reload (ov_system s)\<rparr>"

fun overview_step :: "overview_page \<Rightarrow> overview_event \<Rightarrow> overview_page" where
  "overview_step s (OvTraffic i r) = s\<lparr>ov_traffic := api_step (ov_traffic s) (Settled i r)\<rparr>"
| "overview_step s (OvUsers i r) = s\<lparr>ov_users := api_step (ov_users s) (Settled i r)\<rparr>"
| "overview_step s (OvSystem i r) = s\<lparr>ov_system := api_step (ov_system s) (Settled i r)\<rparr>"
| "overview_step s (OvStream e) = s\<lparr>ov_stream := stream_step (ov_stream s) e\<rparr>"
| "overview_step s (OvTimer hidden) = useInterval overview_refresh hidden s"

section \<open>What it computes\<close>

definition ov_history :: "overview_page \<Rightarrow> usage_period list" where
  "ov_history s = (case ap_data (ov_traffic s) of None \<Rightarrow> [] | Some t \<Rightarrow> tr_history t)"

definition ov_live :: "overview_page \<Rightarrow> live_snapshot option" where
  "ov_live s =
     first_of (map_option tk_analytics (sm_tick (ov_stream s))) (map_option tr_live (ap_data (ov_traffic s)))"

definition activeUsers :: "overview_page \<Rightarrow> nat" where
  "activeUsers s = length (filter (\<lambda>u. u_status u = Active) (coalesce (ap_data (ov_users s)) []))"

definition totalUsers :: "overview_page \<Rightarrow> nat" where
  "totalUsers s = (case ap_data (ov_users s) of None \<Rightarrow> 0 | Some us \<Rightarrow> length us)"

definition monthlyIn :: "overview_page \<Rightarrow> jsnum" where
  "monthlyIn s = js_sum up_bytes_in (ov_history s)"

definition monthlyOut :: "overview_page \<Rightarrow> jsnum" where
  "monthlyOut s = js_sum up_bytes_out (ov_history s)"

definition engineRunning :: "overview_page \<Rightarrow> bool" where
  "engineRunning s = (case ap_data (ov_system s) of None \<Rightarrow> False | Some y \<Rightarrow> ss_engine_running y)"

definition overview_uptime :: "overview_page \<Rightarrow> int" where
  "overview_uptime s = (case ap_data (ov_system s) of None \<Rightarrow> 0 | Some y \<Rightarrow> ss_uptime_seconds y)"

section \<open>The view\<close>

definition LiveRow :: "string \<Rightarrow> string \<Rightarrow> tone option \<Rightarrow> 'm node" where
  "LiveRow label v t =
     Elem ''div'' []
       [Elem ''dt'' [] [Text label],
        Elem ''dd'' [cls (if t = Some Failing then ''text-error'' else ''text-primary'')] [Text v]]"

definition live_text :: "live_snapshot option \<Rightarrow> (live_snapshot \<Rightarrow> string) \<Rightarrow> string" where
  "live_text live f = (case live of None \<Rightarrow> mdash | Some l \<Rightarrow> f l)"

definition live_panel :: "env \<Rightarrow> overview_page \<Rightarrow> 'm node" where
  "live_panel e s =
     (let live = ov_live s; tick = sm_tick (ov_stream s) in
      Elem ''div'' []
        [Elem ''h2'' [] [Text (''Live '' @ mdash @ '' today'')],
         Elem ''dl'' []
           [LiveRow ''Requests'' (live_text live (\<lambda>l. formatNumber e (jint (ls_requests l)))) None,
            LiveRow ''Blocked'' (live_text live (\<lambda>l. formatNumber e (jint (ls_blocked l))))
              (case live of None \<Rightarrow> None | Some l \<Rightarrow> if 0 < ls_blocked l then Some Failing else None),
            LiveRow ''Downloaded'' (live_text live (\<lambda>l. formatBytes e (jint (ls_bytes_in l)))) None,
            LiveRow ''Uploaded'' (live_text live (\<lambda>l. formatBytes e (jint (ls_bytes_out l)))) None,
            LiveRow ''CPU''
              (case Option.bind tick tk_cpu_percent of None \<Rightarrow> mdash | Some c \<Rightarrow> toFixed 0 c @ ''%'') None,
            LiveRow ''RAM''
              (case known_total (Option.bind tick tk_ram_used) (Option.bind tick tk_ram_total) of
                 None \<Rightarrow> mdash
               | Some (u, t) \<Rightarrow> js_String (math_round (ratio u t)) @ ''%'') None],
         (case ap_data (ov_system s) of
            None \<Rightarrow> nothing
          | Some y \<Rightarrow> show_if (ss_version y \<noteq> [])
              (Elem ''p'' [] [Text (''xoxproxy v'' @ ss_version y @ (if ss_tls_enabled y then middot @ ''TLS'' else []))]))])"

definition stat_tiles :: "env \<Rightarrow> overview_page \<Rightarrow> 'm node" where
  "stat_tiles e s =
     Elem ''div'' []
       [StatCard ''Proxy status''
          (Elem ''span'' []
             [StatusDot (if engineRunning s then Success else Failing),
              Text (if engineRunning s then ''Running'' else ''Stopped'')])
          (Some (''uptime '' @ formatUptime (jint (overview_uptime s)))) None,
        StatCard ''Active users'' (Text (js_String (jint (int (activeUsers s)))))
          (Some (js_String (jint (int (totalUsers s))) @ '' total'')) None,
        StatCard ''Today's traffic''
          (Text (live_text (ov_live s) (\<lambda>l. formatBytes e (js_add (jint (ls_bytes_in l)) (jint (ls_bytes_out l))))))
          (map_option (\<lambda>l. formatNumber e (jint (ls_requests l)) @ '' requests'') (ov_live s)) None,
        StatCard ''30-day traffic'' (Text (formatBytes e (js_add (monthlyIn s) (monthlyOut s))))
          (Some (down_arrow @ '' '' @ formatBytes e (monthlyIn s) @ middot @ up_arrow @ '' ''
             @ formatBytes e (monthlyOut s))) None]"

definition Overview :: "env \<Rightarrow> overview_page \<Rightarrow> 'm node" where
  "Overview e s = Frag
     [PageHeader ''Overview''
        (Some (if sm_connected (ov_stream s)
               then Badge Success [Elem ''span'' [] [], Text ''live'']
               else Badge Warning [Text ''connecting''])),
      stat_tiles e s,
      Elem ''div'' []
        [Elem ''div'' []
           [Elem ''h2'' [] [Text (''Traffic '' @ mdash @ '' last 30 days'')],
            traffic_chart (chart_of e (ov_history s))
              [gradient ''gDown'' ''var(--brand-primary)'' ''0.28'', gradient ''gUp'' ''var(--success-500)'' ''0.24'']
              [area ''down'' None ''var(--brand-primary)'' ''url(#gDown)'',
               area ''up'' None ''var(--success-500)'' ''url(#gUp)'']],
         live_panel e s]]"

section \<open>Properties\<close>

text \<open>
  The totals of the overview are exact: as long as the thirty days stay below 2^53 bytes in
  each direction, adding them up as binary64 numbers gives the integer sum, and the number of
  active users never exceeds the number of users.
\<close>

theorem overview_totals_exact:
  assumes "\<forall>p \<in> set (ov_history s). 0 \<le> up_bytes_in p \<and> 0 \<le> up_bytes_out p"
    and "sum_list (List.map up_bytes_in (ov_history s)) \<le> 2 ^ 53"
    and "sum_list (List.map up_bytes_out (ov_history s)) \<le> 2 ^ 53"
  shows "monthlyIn s = jint (sum_list (List.map up_bytes_in (ov_history s)))
    \<and> monthlyOut s = jint (sum_list (List.map up_bytes_out (ov_history s)))
    \<and> activeUsers s \<le> totalUsers s"
  using assms by (auto simp: monthlyIn_def monthlyOut_def js_sum_exact activeUsers_def totalUsers_def
      split: option.splits)

definition sample_period :: "int \<Rightarrow> int \<Rightarrow> usage_period" where
  "sample_period i out =
     \<lparr>up_period_start = ''2025-03-01T00:00:00Z'', up_granularity = ''day'', up_bytes_in = i,
      up_bytes_out = out, up_connections = 1\<rparr>"

definition quiet_day :: live_snapshot where
  "quiet_day =
     \<lparr>ls_day = ''2025-03-01'', ls_bytes_in = 0, ls_bytes_out = 0, ls_requests = 0, ls_blocked = 0,
      ls_ingested = 0, ls_overflowed = 0, ls_dropped = 0, ls_log_offset = 0, ls_malformed_lines = 0,
      ls_ring_enabled = True\<rparr>"

theorem overview_totals_exact_witness:
  "monthlyIn (Overview_init\<lparr>ov_traffic := (useApi None)\<lparr>ap_data := Some \<lparr>tr_days = 30,
      tr_history = [sample_period 5 6, sample_period 7 8], tr_live = quiet_day\<rparr>\<rparr>\<rparr>) = jint 12"
  using overview_totals_exact [of "Overview_init\<lparr>ov_traffic := (useApi None)\<lparr>ap_data := Some \<lparr>tr_days = 30,
      tr_history = [sample_period 5 6, sample_period 7 8], tr_live = quiet_day\<rparr>\<rparr>\<rparr>"]
  by (simp add: ov_history_def sample_period_def)

end
