(* ===== verification/UserDetailPage.thy ===== *)
theory UserDetailPage
  imports AnalyticsPage RequestDecoding OverviewPage
begin

text \<open>
  The page of one user, \<open>web/src/pages/UserDetail.tsx\<close>: four hooks, a timer, the edit modal, three
  tables and the quota bars. The modal and the tables are part of the view only while the user
  is loaded and without an error; \<open>remount\<close> gives the state of what is unmounted and mounted
  again. The address can change while the page stays mounted, because the route of two users
  is the same.
\<close>

section \<open>State\<close>

record user_analytics =
  ua_user_id :: int
  ua_history :: "usage_period list"
  ua_destinations :: "destination_stat list"

record detail_page =
  ud_id :: string \<comment> \<open>the route parameter\<close>
  ud_user :: "proxy_user api_state"
  ud_analytics :: "user_analytics api_state"
  ud_live :: "live_connection list api_state"
  ud_audit :: "audit_entry list api_state"
  ud_editing :: bool
  ud_form :: "user_form option" \<comment> \<open>the state of the form while it is mounted\<close>
  ud_error :: "string option"
  ud_dest_sort :: sort_state
  ud_live_sort :: sort_state
  ud_audit_sort :: sort_state
  ud_pending :: nat \<comment> \<open>edits in flight\<close>

definition detail_user_path :: "string \<Rightarrow> string" where
  "detail_user_path i = ''/api/v1/users/'' @ i"

definition detail_analytics_path :: "string \<Rightarrow> string" where
  "detail_analytics_path i = ''/api/v1/analytics/users/'' @ i @ ''?days=30&limit=10''"

definition UserDetail_init :: "string \<Rightarrow> detail_page" where
  "UserDetail_init i =
     \<lparr>ud_id = i, ud_user = useApi (Some (detail_user_path i)),
      ud_analytics = useApi (Some (detail_analytics_path i)),
      ud_live = useApi (Some ''/api/v1/analytics/live''),
      ud_audit = useApi (Some ''/api/v1/audit-logs?limit=50''), ud_editing = False, ud_form = None,
      ud_error = None, ud_dest_sort = None, ud_live_sort = None, ud_audit_sort = None, ud_pending = 0\<rparr>"

definition loaded :: "'p api_state \<Rightarrow> 'p option" where
  "loaded h = (if absent (ap_error h) then ap_data h else None)"

definition shown_user :: "detail_page \<Rightarrow> proxy_user option" where
  \<comment> \<open>the two early returns of the component\<close>
  "shown_user s = loaded (ud_user s)"

definition remount :: "detail_page \<Rightarrow> detail_page" where
  "remount s =
     (case shown_user s of
        None \<Rightarrow> s\<lparr>ud_form := None, ud_dest_sort := None, ud_live_sort := None, ud_audit_sort := None\<rparr>
      | Some u \<Rightarrow>
          s\<lparr>ud_form :=
              (if ud_editing s
               then Some (case ud_form s of None \<Rightarrow> UserForm_init (Some u) | Some f \<Rightarrow> f) else None)\<rparr>)"

section \<open>Operations\<close>

datatype detail_msg =
    BackToUsers
  | StartEditing
  | CloseEditing
  | DetailForm form_msg
  | SortDetailDests string
  | SortLive string
  | SortAudit string
  | FullTrail

definition edit_call :: "'x proxy_user_scheme \<Rightarrow> form_values \<Rightarrow> call" where
  "edit_call u v = api_patch (user_url u []) (JObj (form_members v @ [version_of u]))"

fun detail_update :: "detail_msg \<Rightarrow> detail_page \<Rightarrow> detail_page \<times> effect list" where
  "detail_update BackToUsers s = (s, [Navigate ''/users'' False])"
| "detail_update StartEditing s = (remount (s\<lparr>ud_editing := True\<rparr>), [])"
| "detail_update CloseEditing s = (remount (s\<lparr>ud_editing := False\<rparr>), [])"
| "detail_update (DetailForm fm) s =
     (case (shown_user s, ud_form s) of
        (Some u, Some f) \<Rightarrow>
          (case fm of
             Submit \<Rightarrow>
               (case form_submit True f of
                  None \<Rightarrow> (s, [])
                | Some v \<Rightarrow> (s\<lparr>ud_pending := ud_pending s + 1\<rparr>, [Send (edit_call u v)]))
           | _ \<Rightarrow> (s\<lparr>ud_form := Some (form_update fm f)\<rparr>, []))
      | _ \<Rightarrow> (s, []))"
| "detail_update (SortDetailDests k) s = (s\<lparr>ud_dest_sort := toggleSort k (ud_dest_sort s)\<rparr>, [])"
| "detail_update (SortLive k) s = (s\<lparr>ud_live_sort := toggleSort k (ud_live_sort s)\<rparr>, [])"
| "detail_update (SortAudit k) s = (s\<lparr>ud_audit_sort := toggleSort k (ud_audit_sort s)\<rparr>, [])"
| "detail_update FullTrail s = (s, [Navigate ''/logs'' False])"

definition edit_answer :: "failure + proxy_user option \<Rightarrow> detail_page \<Rightarrow> detail_page" where
  \<comment> \<open>the rest of \<open>onEdit\<close>\<close>
  "edit_answer r s =
     (if ud_pending s = 0 then s
      else let s1 = s\<lparr>ud_pending := ud_pending s - 1\<rparr>
           in remount (case r of
                Inr _ \<Rightarrow> s1\<lparr>ud_editing := False, ud_user := reload (ud_user s)\<rparr>
              | Inl err \<Rightarrow> s1\<lparr>ud_error := Some (failure_message err)\<rparr>))"

definition detail_refresh :: "detail_page \<Rightarrow> detail_page" where
  "detail_refresh s = s\<lparr>ud_live := reload (ud_live s), ud_audit := reload (ud_audit s)\<rparr>"

definition change_id :: "string \<Rightarrow> detail_page \<Rightarrow> detail_page" where
  \<comment> \<open>the address of another user, with the component still mounted\<close>
  "change_id i s =
     s\<lparr>ud_id := i, ud_user := api_step (ud_user s) (Rerender (Some (detail_user_path i))),
       ud_analytics := api_step (ud_analytics s) (Rerender (Some (detail_analytics_path i)))\<rparr>"

datatype detail_event =
    DetailMsg detail_msg
  | EditAnswer "failure + proxy_user option"
  | DetailUser nat "failure + proxy_user option"
  | DetailAnalytics nat "failure + user_analytics option"
  | DetailLive nat "failure + live_connection list option"
  | DetailAudit nat "failure + audit_entry list option"
  | DetailTimer bool
  | ChangeId string

fun detail_step :: "detail_page \<Rightarrow> detail_event \<Rightarrow> detail_page" where
  "detail_step s (DetailMsg m) = fst (detail_update m s)"
| "detail_step s (EditAnswer r) = edit_answer r s"
| "detail_step s (DetailUser i r) = remount (s\<lparr>ud_user := api_step (ud_user s) (Settled i r)\<rparr>)"
| "detail_step s (DetailAnalytics i r) = s\<lparr>ud_analytics := api_step (ud_analytics s) (Settled i r)\<rparr>"
| "detail_step s (DetailLive i r) = s\<lparr>ud_live := api_step (ud_live s) (Settled i r)\<rparr>"
| "detail_step s (DetailAudit i r) = s\<lparr>ud_audit := api_step (ud_audit s) (Settled i r)\<rparr>"
| "detail_step s (DetailTimer hidden) = useInterval detail_refresh hidden s"
| "detail_step s (ChangeId i) = change_id i s"

section \<open>What it computes\<close>

definition user_connections :: "string \<Rightarrow> detail_page \<Rightarrow> live_connection list" where
  "user_connections name s = filter (\<lambda>c. lc_username c = name) (coalesce (ap_data (ud_live s)) [])"

definition auditRows :: "string \<Rightarrow> detail_page \<Rightarrow> audit_entry list" where
  "auditRows name s =
     filter (\<lambda>a. ae_target a = name \<or> ae_actor a = ''user:'' @ name) (coalesce (ap_data (ud_audit s)) [])"

definition detail_history :: "detail_page \<Rightarrow> usage_period list" where
  "detail_history s = (case ap_data (ud_analytics s) of None \<Rightarrow> [] | Some a \<Rightarrow> ua_history a)"

definition totalIn :: "detail_page \<Rightarrow> jsnum" where
  "totalIn s = js_sum up_bytes_in (detail_history s)"

definition totalOut :: "detail_page \<Rightarrow> jsnum" where
  "totalOut s = js_sum up_bytes_out (detail_history s)"

record quota_row =
  qr_label :: string
  qr_used :: jsnum
  qr_cap :: int

definition quotaRows :: "proxy_user \<Rightarrow> detail_page \<Rightarrow> quota_row list" where
  "quotaRows u s =
     filter (\<lambda>r. js_lt (Fin 0) (jint (qr_cap r)))
       [\<lparr>qr_label = ''Daily quota'', qr_used = js_add (totalIn s) (totalOut s), qr_cap = u_quota_bytes_daily u\<rparr>,
        \<lparr>qr_label = ''Monthly quota'', qr_used = js_add (totalIn s) (totalOut s), qr_cap = u_quota_bytes_monthly u\<rparr>]"

definition quota_pct :: "quota_row \<Rightarrow> jsnum" where
  "quota_pct r = math_min (Fin 100) (js_mul (js_div (qr_used r) (jint (qr_cap r))) (Fin 100))"

section \<open>The view\<close>

definition StatusBadge :: "user_status \<Rightarrow> 'm node" where
  "StatusBadge st = Badge (status_tone st) [Text (status_text st)]"

definition Row :: "string \<Rightarrow> string \<Rightarrow> 'm node" where
  "Row label v = Elem ''div'' [] [Elem ''dt'' [] [Text label], Elem ''dd'' [] [Text v]]"

definition profile_card :: "env \<Rightarrow> proxy_user \<Rightarrow> 'm node" where
  "profile_card e u =
     Elem ''div'' []
       [Elem ''div'' []
          [StatusBadge (u_status u),
           Elem ''span'' [] [Text (''created '' @ formatDateTime e (Some (u_created_at u)))]],
        Elem ''dl'' []
          [Row ''Protocols'' (join middot (List.map toUpperCase (u_allowed_protocols u))),
           Row ''Bandwidth''
             (if truthy (u_download_limit_bps u)
              then js_String (js_div (jint (u_download_limit_bps u)) (jint 1000000)) @ '' Mbps '' @ down_arrow
              else infinity @ '' '' @ down_arrow),
           Row ''Max connections''
             (if truthy (u_max_connections u) then js_String (jint (u_max_connections u)) else infinity),
           Row ''Expires''
             (if absent (u_expires_at u) then ''never'' else formatDateTime e (u_expires_at u)),
           Row ''Last seen'' (formatRelative e (u_last_seen_at u))]]"

definition quota_bar :: "env \<Rightarrow> quota_row \<Rightarrow> 'm node" where
  "quota_bar e r =
     Elem ''div'' []
       [Elem ''div'' []
          [Elem ''span'' [] [Text (qr_label r)],
           Elem ''span'' [] [Text (formatBytes e (qr_used r) @ '' / '' @ formatBytes e (jint (qr_cap r)))]],
        Elem ''div'' []
          [Elem ''div''
             [cls (bar_class (quota_pct r)), Attr ''style'' (''width: '' @ js_String (quota_pct r) @ ''%'')] []]]"

definition quota_card :: "env \<Rightarrow> proxy_user \<Rightarrow> detail_page \<Rightarrow> 'm node" where
  "quota_card e u s =
     Elem ''div'' []
       [Elem ''h2'' [] [Text ''Quota usage''],
        (if quotaRows u s = [] then Elem ''p'' [] [Text ''No quotas set for this user.'']
         else Elem ''div'' [] (List.map (quota_bar e) (quotaRows u s))),
        Elem ''p'' []
          [Text (''30-day total: '' @ down_arrow @ '' '' @ formatBytes e (totalIn s) @ middot @ up_arrow @ '' ''
             @ formatBytes e (totalOut s) @ '' '' @ mdash @ '' the usage window resets on quota reset.'')]]"

definition userDestColumns :: "env \<Rightarrow> (destination_stat, 'm) column list" where
  "userDestColumns e =
     [column ''host'' ''Destination'' (\<lambda>d. Text (destination_host d)),
      column ''protocol'' ''Protocol'' (\<lambda>d. plain_cell (ds_protocol d)),
      (column ''requests'' ''Requests'' (\<lambda>d. plain_cell (js_String (jint (ds_requests d)))))
        \<lparr>col_sort := Some (\<lambda>d. SNum (jint (ds_requests d))), col_right := True\<rparr>,
      (column ''blocked'' ''Blocked''
         (\<lambda>d. Elem ''span'' [cls (if js_lt (Fin 0) (jint (ds_blocked d)) then ''tabular-nums text-error'' else ''tabular-nums text-caption'')]
            [Text (js_String (jint (ds_blocked d)))]))
        \<lparr>col_sort := Some (\<lambda>d. SNum (jint (ds_blocked d))), col_right := True\<rparr>,
      (column ''bytes'' ''Traffic'' (\<lambda>d. plain_cell (formatBytes e (destination_bytes d))))
        \<lparr>col_sort := Some (\<lambda>d. SNum (destination_bytes d)), col_right := True\<rparr>,
      column ''last'' ''Last seen'' (\<lambda>d. plain_cell (formatRelative e (Some (ds_last_seen d))))]"

definition liveColumns :: "env \<Rightarrow> (live_connection, 'm) column list" where
  "liveColumns e =
     [(column ''time'' ''Time'' (\<lambda>c. plain_cell (formatDateTime e (Some (lc_time c)))))
        \<lparr>col_sort := Some (\<lambda>c. SStr (lc_time c))\<rparr>,
      column ''host'' ''Destination'' (\<lambda>c. Text (lc_host c @ '':'' @ js_String (jint (lc_port c)))),
      column ''protocol'' ''Protocol'' (\<lambda>c. plain_cell (lc_protocol c)),
      column ''client'' ''Client'' (\<lambda>c. plain_cell (lc_client_ip c)),
      column ''blocked'' ''Status''
        (\<lambda>c. if lc_blocked c then Badge Failing [Text ''blocked''] else Badge Success [Text ''ok''])]"

definition activityColumns :: "env \<Rightarrow> (audit_entry, 'm) column list" where
  "activityColumns e =
     [(column ''time'' ''Time'' (\<lambda>a. plain_cell (formatDateTime e (Some (ae_timestamp a)))))
        \<lparr>col_sort := Some (\<lambda>a. SStr (ae_timestamp a))\<rparr>,
      column ''action'' ''Action'' (\<lambda>a. Text (ae_action a)),
      column ''result'' ''Result''
        (\<lambda>a. if ae_result a = ''success'' then Badge Success [Text ''ok''] else Badge Failing [Text ''failure'']),
      column ''detail'' ''Detail'' (\<lambda>a. plain_cell (if ae_detail a \<noteq> [] then ae_detail a else mdash))]"

definition titled_table :: "string \<Rightarrow> 'm node list \<Rightarrow> 'm node" where
  "titled_table title content = Elem ''div'' [] (Elem ''h2'' [] [Text title] # content)"

definition detail_tables :: "env \<Rightarrow> proxy_user \<Rightarrow> detail_page \<Rightarrow> detail_msg node list" where
  "detail_tables e u s =
     [titled_table (''Top destinations '' @ mdash @ '' 30 days'')
        [map_node (table_msg SortDetailDests)
          (DataTable (userDestColumns e) (case ap_data (ud_analytics s) of None \<Rightarrow> [] | Some a \<Rightarrow> ua_destinations a)
             (ap_loading (ud_analytics s)) ''No destination stats recorded'' None (ud_dest_sort s))],
      titled_table ''Current connections''
        [map_node (table_msg SortLive)
          (DataTable (liveColumns e) (user_connections (u_username u) s) (ap_loading (ud_live s))
             ''No live connections for this user'' None (ud_live_sort s))],
      titled_table ''Recent activity''
        [map_node (table_msg SortAudit)
          (DataTable (activityColumns e) (auditRows (u_username u) s) (ap_loading (ud_audit s))
             ''No recorded activity for this user'' None (ud_audit_sort s)),
         Elem ''p'' []
           [Text ''Full trail on '',
            Elem ''a'' [Attr ''href'' ''/logs'', on_click FullTrail] [Text ''the Logs page''], Text ''.'']]]"

definition user_chart :: "env \<Rightarrow> detail_page \<Rightarrow> 'm node" where
  "user_chart e s =
     titled_table (''Traffic '' @ mdash @ '' last 30 days'')
       [traffic_chart (chart_of e (detail_history s)) [gradient ''gDown'' ''var(--brand-primary)'' ''0.28'']
          [area ''down'' None ''var(--brand-primary)'' ''url(#gDown)'',
           area ''up'' None ''var(--success-500)'' ''transparent'']]"

definition edit_modal :: "proxy_user \<Rightarrow> detail_page \<Rightarrow> detail_msg node" where
  "edit_modal u s =
     (case ud_form s of
        None \<Rightarrow> nothing
      | Some f \<Rightarrow>
          Modal True (''Edit '' @ u_username u) CloseEditing True
            [map_node DetailForm (UserForm True ''Save changes'' f)])"

definition UserDetail :: "env \<Rightarrow> detail_page \<Rightarrow> detail_msg node" where
  "UserDetail e s =
     (if \<not> absent (ap_error (ud_user s))
      then Frag [PageHeader ''User'' None, Elem ''p'' [] [Text (the (ap_error (ud_user s)))]]
      else case ap_data (ud_user s) of
        None \<Rightarrow> Frag [PageHeader ''User'' None, Elem ''p'' [] [Text (''Loading'' @ ellipsis)]]
      | Some u \<Rightarrow>
          Frag
            ([PageHeader (u_username u)
                (Some (Frag
                  [Button Elevated SizeM [on_click BackToUsers] [Text (left_arrow @ '' Users'')],
                   Button Primary SizeM [on_click StartEditing] [Text ''Edit'']])),
              alert_line (ud_error s),
              Elem ''div'' [] [profile_card e u, quota_card e u s],
              user_chart e s]
             @ detail_tables e u s @ [edit_modal u s]))"

section \<open>Lemmas\<close>

lemma loaded_simps [simp]:
  "loaded (reload h) = loaded h" "loaded (api_step h (Rerender p)) = loaded h" "loaded (useApi p) = None"
  by (auto simp: loaded_def reload_def run_effect_def cleanup_effect_def useApi_def split: option.splits)

lemma remount_fields [simp]:
  "ud_editing (remount s) = ud_editing s" "ud_user (remount s) = ud_user s"
  "ud_analytics (remount s) = ud_analytics s" "ud_live (remount s) = ud_live s"
  "ud_audit (remount s) = ud_audit s" "ud_error (remount s) = ud_error s"
  by (simp_all add: remount_def split: option.splits)

text \<open>
  The form is mounted exactly while the modal is open on a loaded user, and the hooks keep
  their own invariants.
\<close>

definition detail_inv :: "detail_page \<Rightarrow> bool" where
  "detail_inv s =
     (api_inv (ud_user s) \<and> api_inv (ud_analytics s) \<and> api_inv (ud_live s) \<and> api_inv (ud_audit s)
      \<and> (ud_form s \<noteq> None \<longleftrightarrow> ud_editing s \<and> shown_user s \<noteq> None))"

lemma remount_form: "ud_form (remount s) \<noteq> None \<longleftrightarrow> ud_editing s \<and> shown_user s \<noteq> None"
  by (simp add: remount_def split: option.splits)

lemma detail_inv_remount:
  "api_inv (ud_user s) \<Longrightarrow> api_inv (ud_analytics s) \<Longrightarrow> api_inv (ud_live s) \<Longrightarrow> api_inv (ud_audit s)
     \<Longrightarrow> detail_inv (remount s)"
  using remount_form [of s] unfolding detail_inv_def by (simp add: shown_user_def)

lemma api_inv_reload: "api_inv h \<Longrightarrow> api_inv (reload h)"
  unfolding reload_def by (rule api_inv_step)

lemma detail_inv_update: "detail_inv s \<Longrightarrow> detail_inv (fst (detail_update m s))"
proof (cases m)
  case (DetailForm fm)
  then show "detail_inv s \<Longrightarrow> ?thesis"
    by (cases fm) (auto simp: detail_inv_def shown_user_def split: option.splits)
next
  case StartEditing
  then show "detail_inv s \<Longrightarrow> ?thesis" by (auto simp: detail_inv_def [of s] intro!: detail_inv_remount)
next
  case CloseEditing
  then show "detail_inv s \<Longrightarrow> ?thesis" by (auto simp: detail_inv_def [of s] intro!: detail_inv_remount)
qed (simp_all add: detail_inv_def shown_user_def)

lemma detail_inv_step: "detail_inv s \<Longrightarrow> detail_inv (detail_step s e)"
proof (cases e)
  case (EditAnswer r)
  then show "detail_inv s \<Longrightarrow> ?thesis"
    by (cases r) (auto simp: edit_answer_def Let_def detail_inv_def [of s] intro!: detail_inv_remount api_inv_reload)
next
  case (DetailUser i r)
  then show "detail_inv s \<Longrightarrow> ?thesis"
    by (auto simp: detail_inv_def [of s] simp del: api_step.simps intro!: detail_inv_remount api_inv_step)
next
  case (DetailTimer h)
  then show "detail_inv s \<Longrightarrow> ?thesis"
    by (auto simp: detail_inv_def shown_user_def useInterval_def detail_refresh_def intro!: api_inv_reload)
next
  case (ChangeId i)
  then show "detail_inv s \<Longrightarrow> ?thesis"
    by (auto simp: detail_inv_def change_id_def shown_user_def simp del: api_step.simps intro: api_inv_step)
next
  case (DetailMsg m)
  then show "detail_inv s \<Longrightarrow> ?thesis" by (simp add: detail_inv_update)
qed (auto simp: detail_inv_def shown_user_def simp del: api_step.simps intro: api_inv_step)

interpretation detail: machine detail_step detail_inv
  by unfold_locales (rule detail_inv_step)

lemma detail_inv_init: "detail_inv (UserDetail_init i)"
  by (simp add: detail_inv_def UserDetail_init_def shown_user_def api_inv_useApi)

lemma detail_update_sends:
  "Send c \<in> set (snd (detail_update m s)) \<Longrightarrow>
     \<exists>u f v. m = DetailForm Submit \<and> shown_user s = Some u \<and> ud_form s = Some f
       \<and> form_submit True f = Some v \<and> c = edit_call u v"
  by (cases m) (auto split: option.splits form_msg.splits)

lemma remount_keeps_form:
  "ud_editing s \<Longrightarrow> shown_user s = Some w \<Longrightarrow> ud_form s = Some f \<Longrightarrow> ud_form (remount s) = Some f"
  by (simp add: remount_def)

lemma change_id_loads:
  assumes "api_inv h" "ap_mounted h" "ap_path h \<noteq> Some p"
  shows "loaded (api_step (api_step h (Rerender (Some p))) (Settled (length (ap_flights h)) (Inr (Some w)))) = Some w"
proof -
  let ?g = "api_step h (Rerender (Some p))"
  have g: "ap_cleanup ?g = Some (length (ap_flights h))" "ap_loading ?g"
    using assms by (auto simp: run_effect_def cleanup_effect_def split: option.splits)
  have "api_inv ?g" using assms(1) by (rule api_inv_step)
  from settled_current [OF this g] show ?thesis
    by (simp add: deliver_def loaded_def absent_def del: api_step.simps)
qed

lemma ratio_over:
  assumes "0 < c" "c \<le> t" "t \<le> 2 ^ 53"
  shows "\<exists>x \<ge> 100. js_mul (js_div (jint t) (jint c)) (Fin 100) = Fin x"
proof -
  obtain x where x: "ratio t c = Fin x" using ratio_finite [of t c] assms by auto
  let ?q = "of_int t / of_int c :: rat"
  have q: "1 \<le> ?q" using assms by (simp add: le_divide_eq)
  have "?q \<le> of_int t" using assms by (simp add: divide_le_eq mult_left_le)
  then have n: "num ?q = Fin (fl ?q)" "1 \<le> fl ?q" using num_between [of 1 ?q t] q assms by simp_all
  then have "ratio t c = num (fl ?q * 100)" using assms by (simp add: ratio_def jint_small)
  then have "x = fl (fl ?q * 100)" using x by (auto simp: num_def Let_def split: if_splits)
  moreover have "fl 100 \<le> fl (fl ?q * 100)" using n(2) by (intro fl_mono) simp_all
  ultimately show ?thesis using x fl_of_int [of 100] by (auto simp: ratio_def)
qed

section \<open>Properties\<close>

text \<open>
  C37. The edit form outlives its user. While the modal is open, an address change to another user,
  which keeps the component mounted, loads that user behind the modal but leaves the form as
  it was filled in; saving then patches the other user, with its version, by the values of the
  form of the first one.
\<close>

theorem edit_form_outlives_user:
  assumes "s = foldl detail_step (UserDetail_init k) es" and "ap_mounted (ud_user s)"
    and "ud_form s = Some f" and "form_submit True f = Some v"
    and "ap_path (ud_user s) \<noteq> Some (detail_user_path j)"
    and "t = detail_step (detail_step s (ChangeId j)) (DetailUser (length (ap_flights (ud_user s))) (Inr (Some w)))"
  shows "shown_user t = Some w \<and> ud_form t = Some f
    \<and> snd (detail_update (DetailForm Submit) t) = [Send (edit_call w v)]"
proof -
  have inv: "detail_inv s" unfolding assms(1) by (rule detail.inv_run) (rule detail_inv_init)
  then have h: "api_inv (ud_user s)" and ed: "ud_editing s" using assms(3) by (auto simp: detail_inv_def)
  have u: "shown_user t = Some w"
    using change_id_loads [OF h assms(2,5)] by (simp add: assms(6) shown_user_def change_id_def del: api_step.simps)
  moreover have "ud_form t = Some f"
  proof -
    let ?t = "(change_id j s)\<lparr>ud_user := api_step (ud_user (change_id j s)) (Settled (length (ap_flights (ud_user s))) (Inr (Some w)))\<rparr>"
    have "t = remount ?t" by (simp add: assms(6) del: api_step.simps)
    moreover have "ud_editing ?t" "ud_form ?t = Some f" using assms(3) ed by (simp_all add: change_id_def)
    moreover have "shown_user ?t = Some w" using u \<open>t = remount ?t\<close> by (simp add: shown_user_def del: api_step.simps)
    ultimately show ?thesis using remount_keeps_form by metis
  qed
  ultimately show ?thesis using assms(4) by simp
qed

definition other_user :: proxy_user where
  "other_user = sample_user\<lparr>u_id := 8, u_username := ''bob''\<rparr>"

theorem edit_form_outlives_user_witness:
  "\<exists>v. snd (detail_update (DetailForm Submit) (foldl detail_step (UserDetail_init ''7'')
     [DetailUser 0 (Inr (Some sample_user)), DetailMsg StartEditing, ChangeId ''8'', DetailUser 1 (Inr (Some other_user))]))
     = [Send (edit_call other_user v)]"
proof -
  let ?es = "[DetailUser 0 (Inr (Some sample_user)), DetailMsg StartEditing]"
  let ?s = "foldl detail_step (UserDetail_init ''7'') ?es"
  obtain v where v: "form_submit True (UserForm_init (Some sample_user)) = Some v" using sample_submits by blast
  have "shown_user ?s = Some sample_user" "ap_mounted (ud_user ?s)" "length (ap_flights (ud_user ?s)) = 1"
    "ap_path (ud_user ?s) = Some (detail_user_path ''7'')" "ud_form ?s = Some (UserForm_init (Some sample_user))"
    by (simp_all add: UserDetail_init_def useApi_def run_effect_def remount_def shown_user_def loaded_def deliver_def absent_def Let_def)
  then show ?thesis
    using edit_form_outlives_user [OF refl, of "''7''" ?es "UserForm_init (Some sample_user)" v "''8''" _ other_user] v
    by (auto simp: detail_user_path_def simp del: detail_update.simps detail_step.simps)
qed

text \<open>
  Saving on the page of a user never succeeds either: whatever is sent from it is one PATCH of
  the user on screen with the version on screen, the server refuses its body before it looks
  at the user, and the refusal leaves the modal open with the form as it was, the message
  behind it.
\<close>

theorem detail_edit_is_refused:
  assumes "detail_inv s" and "Send c \<in> set (snd (detail_update m s))"
  shows "(\<exists>u v. shown_user s = Some u \<and> c = edit_call u v \<and> readJSON updateUserRequest c \<noteq> None)
    \<and> ud_form (detail_step (fst (detail_update m s)) (EditAnswer (Inl err))) = ud_form s
    \<and> ud_error (detail_step (fst (detail_update m s)) (EditAnswer (Inl err))) = Some (failure_message err)"
proof -
  obtain u f v where e: "m = DetailForm Submit" "shown_user s = Some u" "ud_form s = Some f"
    "form_submit True f = Some v" "c = edit_call u v" using detail_update_sends [OF assms(2)] by blast
  then have "\<exists>u v. shown_user s = Some u \<and> c = edit_call u v \<and> readJSON updateUserRequest c \<noteq> None"
    using edit_body_refused by (auto simp: edit_call_def readJSON_def api_defs)
  then show ?thesis
    using e assms(1) by (auto simp: edit_answer_def remount_def shown_user_def detail_inv_def)
qed

theorem detail_edit_is_refused_witness:
  "\<exists>v. readJSON updateUserRequest (edit_call sample_user v) \<noteq> None"
proof -
  let ?s = "foldl detail_step (UserDetail_init ''7'') [DetailUser 0 (Inr (Some sample_user)), DetailMsg StartEditing]"
  obtain v where v: "form_submit True (UserForm_init (Some sample_user)) = Some v" using sample_submits by blast
  have s: "shown_user ?s = Some sample_user" "ud_form ?s = Some (UserForm_init (Some sample_user))"
    by (simp_all add: UserDetail_init_def useApi_def run_effect_def remount_def shown_user_def loaded_def deliver_def absent_def Let_def)
  have "detail_inv ?s" by (rule detail.inv_run) (rule detail_inv_init)
  moreover have "Send (edit_call sample_user v) \<in> set (snd (detail_update (DetailForm Submit) ?s))"
    using s v by (simp del: foldl.simps)
  ultimately show ?thesis using detail_edit_is_refused by blast
qed

text \<open>
  The bar of the daily quota does not show a day. Both quota bars compare the sum of the last
  thirty days with their quota: as soon as that sum reaches the daily quota the bar is full and
  in the colour of danger, however little was used on any one day.
\<close>

theorem daily_quota_bar_counts_month:
  assumes "\<forall>p \<in> set (detail_history s). 0 \<le> up_bytes_in p \<and> 0 \<le> up_bytes_out p"
    and "0 < u_quota_bytes_daily u"
    and "u_quota_bytes_daily u \<le> sum_list (List.map (\<lambda>p. up_bytes_in p + up_bytes_out p) (detail_history s))"
    and "sum_list (List.map (\<lambda>p. up_bytes_in p + up_bytes_out p) (detail_history s)) \<le> 2 ^ 53"
  shows "\<exists>r \<in> set (quotaRows u s). qr_label r = ''Daily quota''
    \<and> qr_used r = jint (sum_list (List.map (\<lambda>p. up_bytes_in p + up_bytes_out p) (detail_history s)))
    \<and> quota_pct r = Fin 100 \<and> bar_class (quota_pct r) = ''bg-error''"
proof -
  let ?h = "detail_history s"
  let ?i = "sum_list (List.map up_bytes_in ?h)" and ?o = "sum_list (List.map up_bytes_out ?h)"
  let ?t = "sum_list (List.map (\<lambda>p. up_bytes_in p + up_bytes_out p) ?h)"
  have t: "?t = ?i + ?o" by (simp add: sum_list_addf)
  have nn: "0 \<le> ?i" "0 \<le> ?o" using assms(1) by (simp_all add: sum_list_nonneg_int)
  then have "totalIn s = Fin (of_int ?i)" "totalOut s = jint ?o"
    using assms(1,4) t by (simp_all add: totalIn_def totalOut_def js_sum_exact jint_small)
  then have used: "js_add (totalIn s) (totalOut s) = jint ?t"
    using js_add_int [OF nn] assms(4) t nn by (simp add: jint_small)
  obtain x where x: "100 \<le> x" "js_mul (js_div (jint ?t) (jint (u_quota_bytes_daily u))) (Fin 100) = Fin x"
    using ratio_over [OF assms(2,3,4)] by blast
  let ?r = "\<lparr>qr_label = ''Daily quota'', qr_used = jint ?t, qr_cap = u_quota_bytes_daily u\<rparr>"
  have "js_lt (Fin 0) (jint (u_quota_bytes_daily u))" using assms(2,3,4) by (simp add: jint_small)
  then have "?r \<in> set (quotaRows u s)" by (simp add: quotaRows_def used)
  moreover have "quota_pct ?r = Fin 100" using x by (auto simp: quota_pct_def math_min_def)
  ultimately show ?thesis by (intro bexI [of _ ?r]) (simp_all add: bar_class_def)
qed

theorem daily_quota_bar_counts_month_witness:
  "\<exists>r \<in> set (quotaRows (sample_user\<lparr>u_quota_bytes_daily := 10\<rparr>) ((UserDetail_init ''7'')\<lparr>ud_analytics := (useApi None)\<lparr>ap_data :=
      Some \<lparr>ua_user_id = 7, ua_history = [sample_period 3 3, sample_period 4 2], ua_destinations = []\<rparr>\<rparr>\<rparr>)).
     quota_pct r = Fin 100"
  using daily_quota_bar_counts_month [of "(UserDetail_init ''7'')\<lparr>ud_analytics := (useApi None)\<lparr>ap_data :=
      Some \<lparr>ua_user_id = 7, ua_history = [sample_period 3 3, sample_period 4 2], ua_destinations = []\<rparr>\<rparr>\<rparr>"
      "sample_user\<lparr>u_quota_bytes_daily := 10\<rparr>"]
  by (auto simp: detail_history_def sample_period_def)

end
