(* ===== verification/Sparkline.thy ===== *)
theory Sparkline
  imports Ui
begin

text \<open>
  The inline chart, \<open>web/src/components/Sparkline.tsx\<close>: the points it computes in binary64
  arithmetic and the picture it draws of them.
\<close>

section \<open>Points\<close>

definition W :: int where "W = 96"

definition H :: int where "H = 28"

definition PAD :: int where "PAD = 2"

definition spark_max :: "jsnum list \<Rightarrow> jsnum" where
  \<comment> \<open>\<open>Math.max(...data, 1)\<close>\<close>
  "spark_max data = foldr math_max data (Fin 1)"

definition spark_x :: "nat \<Rightarrow> nat \<Rightarrow> jsnum" where
  \<comment> \<open>of point \<open>i\<close> of \<open>n\<close>\<close>
  "spark_x n i = js_add (jint PAD) (js_mul (js_div (jint (int i)) (jint (int n - 1))) (jint (W - 2 * PAD)))"

definition spark_y :: "jsnum \<Rightarrow> jsnum \<Rightarrow> jsnum" where
  "spark_y m v = js_add (jint (H - PAD)) (js_neg (js_mul (js_div v m) (jint (H - 2 * PAD))))"

definition points :: "jsnum list \<Rightarrow> (jsnum \<times> jsnum) list" where
  "points data =
     List.map (\<lambda>i. (spark_x (length data) i, spark_y (spark_max data) (data ! i))) [0..<length data]"

section \<open>The view\<close>

datatype spark_tone = BrandTone | SuccessTone | ErrorTone

fun spark_stroke :: "spark_tone \<Rightarrow> string" where
  "spark_stroke BrandTone = ''var(--brand-primary)''"
| "spark_stroke SuccessTone = ''var(--success-500)''"
| "spark_stroke ErrorTone = ''var(--error-500)''"

fun spark_fill :: "spark_tone \<Rightarrow> string" where
  "spark_fill BrandTone = ''var(--brand-100)''"
| "spark_fill SuccessTone = ''var(--success-100)''"
| "spark_fill ErrorTone = ''var(--error-100)''"

definition spark_line :: "jsnum list \<Rightarrow> string" where
  "spark_line data = join '' '' (List.map (\<lambda>(x, y). toFixed 1 x @ '','' @ toFixed 1 y) (points data))"

definition int_text :: "int \<Rightarrow> string" where
  "int_text n = js_String (jint n)"

definition spark_area :: "jsnum list \<Rightarrow> string" where
  "spark_area data =
     int_text PAD @ '','' @ int_text (H - PAD) @ '' '' @ spark_line data @ '' ''
     @ int_text (W - PAD) @ '','' @ int_text (H - PAD)"

definition Sparkline :: "jsnum list \<Rightarrow> spark_tone \<Rightarrow> 'm node" where
  "Sparkline data t =
     (if length data < 2 then nothing
      else Elem ''svg''
        [Attr ''width'' (int_text W), Attr ''height'' (int_text H),
         Attr ''viewBox'' (''0 0 '' @ int_text W @ '' '' @ int_text H), Attr ''aria-hidden'' ''true'']
        [Elem ''polygon'' [Attr ''points'' (spark_area data), Attr ''fill'' (spark_fill t)] [],
         Elem ''polyline''
           [Attr ''points'' (spark_line data), Attr ''fill'' ''none'', Attr ''stroke'' (spark_stroke t)] []])"

section \<open>Lemmas\<close>

lemma spark_max_Fin:
  "\<exists>m. spark_max (List.map Fin vs) = Fin m \<and> 1 \<le> m \<and> (\<forall>v \<in> set vs. v \<le> m)
     \<and> (m = 1 \<or> m \<in> set vs)"
proof (induction vs)
  case (Cons v vs)
  then obtain m where m: "spark_max (List.map Fin vs) = Fin m" "1 \<le> m" "\<forall>v \<in> set vs. v \<le> m" "m = 1 \<or> m \<in> set vs"
    by blast
  then show ?case by (cases "v < m") (auto simp: spark_max_def math_max_def)
qed (simp add: spark_max_def)

text \<open>A fraction of a scale, rounded twice, stays on the scale and is monotone.\<close>

definition scaled :: "rat \<Rightarrow> int \<Rightarrow> rat" where
  "scaled q n = fl (fl q * of_int n)"

lemma scaled_bounds:
  assumes "0 \<le> q" "q \<le> 1" "0 \<le> n" "n \<le> 2 ^ 53"
  shows "js_mul (num q) (jint n) = Fin (scaled q n)" "0 \<le> scaled q n" "scaled q n \<le> of_int n"
proof -
  have q: "num q = Fin (fl q)" "0 \<le> fl q" "fl q \<le> 1" using num_between [of 0 q 1] assms by simp_all
  have "fl q * of_int n \<le> 1 * of_int n" using q(3) assms(3) by (intro mult_right_mono) simp_all
  moreover have "0 \<le> fl q * of_int n" using q(2) assms(3) by simp
  ultimately have r: "num (fl q * of_int n) = Fin (scaled q n)" "0 \<le> scaled q n" "scaled q n \<le> of_int n"
    using num_between [of 0 "fl q * of_int n" n] assms by (simp_all add: scaled_def)
  then show "js_mul (num q) (jint n) = Fin (scaled q n)" "0 \<le> scaled q n" "scaled q n \<le> of_int n"
    using q assms by (simp_all add: jint_small)
qed

lemma scaled_mono: "0 \<le> p \<Longrightarrow> p \<le> q \<Longrightarrow> 0 \<le> n \<Longrightarrow> scaled p n \<le> scaled q n"
  unfolding scaled_def by (intro fl_mono mult_nonneg_nonneg mult_right_mono) (simp_all add: fl_nonneg fl_mono)

lemma scaled_1: "0 \<le> n \<Longrightarrow> n \<le> 2 ^ 53 \<Longrightarrow> scaled 1 n = of_int n" "scaled 0 n = 0"
  using fl_of_int [of 1] by (simp_all add: scaled_def)

lemma js_div_Fin: "b \<noteq> 0 \<Longrightarrow> js_div (Fin a) (Fin b) = num (a / b)"
  by simp

lemma spark_x_scaled:
  assumes "js_div (jint (int i)) (jint (int n - 1)) = num q" "0 \<le> q" "q \<le> 1"
  shows "spark_x n i = Fin (fl (2 + scaled q 92))" "2 \<le> fl (2 + scaled q 92)" "fl (2 + scaled q 92) \<le> 94"
proof -
  have s: "js_mul (num q) (jint 92) = Fin (scaled q 92)" "0 \<le> scaled q 92" "scaled q 92 \<le> 92"
    using scaled_bounds [of q 92] assms by simp_all
  then have "num (2 + scaled q 92) = Fin (fl (2 + scaled q 92))" "2 \<le> fl (2 + scaled q 92)" "fl (2 + scaled q 92) \<le> 94"
    using num_between [of 2 "2 + scaled q 92" 94] by simp_all
  then show "spark_x n i = Fin (fl (2 + scaled q 92))" "2 \<le> fl (2 + scaled q 92)" "fl (2 + scaled q 92) \<le> 94"
    using s by (simp_all add: spark_x_def W_def PAD_def assms(1)) (simp add: jint_small)
qed

lemma spark_x_between:
  assumes "i < n" "2 \<le> n" "n \<le> 2 ^ 53"
  shows "spark_x n i = Fin (fl (2 + scaled (of_nat i / of_nat (n - 1)) 92))"
    "2 \<le> fl (2 + scaled (of_nat i / of_nat (n - 1)) 92)" "fl (2 + scaled (of_nat i / of_nat (n - 1)) 92) \<le> 94"
proof -
  have "int n \<le> 2 ^ 53" using assms(3) by (metis of_nat_le_iff of_nat_numeral of_nat_power)
  then have "jint (int i) = Fin (of_nat i)" "jint (int n - 1) = Fin (of_nat (n - 1))"
    using assms(1,2) by (simp_all add: jint_small of_nat_diff)
  then have d: "js_div (jint (int i)) (jint (int n - 1)) = num (of_nat i / of_nat (n - 1))"
    using assms(2) js_div_Fin [of "of_nat (n - 1)" "of_nat i"] by simp
  have q: "of_nat i / of_nat (n - 1) \<le> (1 :: rat)" "0 \<le> of_nat i / (of_nat (n - 1) :: rat)"
    using assms(1,2) by (simp_all add: divide_le_eq)
  show "spark_x n i = Fin (fl (2 + scaled (of_nat i / of_nat (n - 1)) 92))"
    "2 \<le> fl (2 + scaled (of_nat i / of_nat (n - 1)) 92)" "fl (2 + scaled (of_nat i / of_nat (n - 1)) 92) \<le> 94"
    by (rule spark_x_scaled [OF d q(2,1)])+
qed

lemma spark_y_between:
  assumes "0 \<le> v" "v \<le> m" "1 \<le> m"
  shows "spark_y (Fin m) (Fin v) = Fin (fl (26 - scaled (v / m) 24))"
    "2 \<le> fl (26 - scaled (v / m) 24)" "fl (26 - scaled (v / m) 24) \<le> 26"
proof -
  let ?q = "v / m"
  have "0 \<le> ?q" "?q \<le> 1" using assms by (simp_all add: divide_le_eq)
  then have s: "js_mul (num ?q) (jint 24) = Fin (scaled ?q 24)" "0 \<le> scaled ?q 24" "scaled ?q 24 \<le> 24"
    using scaled_bounds [of ?q 24] by simp_all
  have d: "js_div (Fin v) (Fin m) = num ?q" using assms(3) by (intro js_div_Fin) simp
  have "num (26 - scaled ?q 24) = Fin (fl (26 - scaled ?q 24))" "2 \<le> fl (26 - scaled ?q 24)" "fl (26 - scaled ?q 24) \<le> 26"
    using num_between [of 2 "26 - scaled ?q 24" 26] s by simp_all
  then show "spark_y (Fin m) (Fin v) = Fin (fl (26 - scaled ?q 24))" "2 \<le> fl (26 - scaled ?q 24)" "fl (26 - scaled ?q 24) \<le> 26"
    using s by (simp_all add: spark_y_def H_def PAD_def d del: js_div.simps) (simp add: jint_small)
qed

section \<open>Properties\<close>

text \<open>
  C34. The chart stays inside its padding and tells the truth about order: for any non-negative
  series of two values or more, every point lies between 2 and 94 across and between 2 and 26
  down, the points advance from left to right from 2 to 94 exactly, and a larger value is never
  drawn below a smaller one.
\<close>

theorem sparkline_fits_box:
  assumes "\<forall>v \<in> set vs. 0 \<le> v" and "2 \<le> length vs" and "length vs \<le> 2 ^ 53"
  shows "\<exists>xs ys. points (List.map Fin vs) = zip (List.map Fin xs) (List.map Fin ys)
    \<and> length xs = length vs \<and> length ys = length vs
    \<and> sorted xs \<and> hd xs = 2 \<and> last xs = 94 \<and> (\<forall>x \<in> set xs. 2 \<le> x \<and> x \<le> 94)
    \<and> (\<forall>y \<in> set ys. 2 \<le> y \<and> y \<le> 26)
    \<and> (\<forall>i < length vs. \<forall>j < length vs. vs ! i \<le> vs ! j \<longrightarrow> ys ! j \<le> ys ! i)"
proof -
  let ?n = "length vs"
  obtain m where m: "spark_max (List.map Fin vs) = Fin m" "1 \<le> m" "\<forall>v \<in> set vs. v \<le> m"
    using spark_max_Fin [of vs] by blast
  define fx where "fx i = fl (2 + scaled (of_nat i / of_nat (?n - 1)) 92)" for i
  define fy where "fy v = fl (26 - scaled (v / m) 24)" for v
  define xs where "xs = List.map fx [0..<?n]"
  define ys where "ys = List.map fy vs"
  have x: "spark_x ?n i = Fin (fx i)" "2 \<le> fx i" "fx i \<le> 94" if "i < ?n" for i
    using spark_x_between [OF that assms(2,3)] by (simp_all add: fx_def)
  have y: "spark_y (Fin m) (Fin v) = Fin (fy v)" "2 \<le> fy v" "fy v \<le> 26" if "v \<in> set vs" for v
    using spark_y_between [of v m] that assms(1) m(2,3) by (simp_all add: fy_def)
  have pts: "points (List.map Fin vs) = zip (List.map Fin xs) (List.map Fin ys)"
    by (rule nth_equalityI) (simp_all add: points_def xs_def ys_def m(1) x y)
  have x_mono: "fx i \<le> fx j" if "i \<le> j" "j < ?n" for i j
  proof -
    have "of_nat i / of_nat (?n - 1) \<le> (of_nat j / of_nat (?n - 1) :: rat)" using that by (intro divide_right_mono) simp_all
    then have "scaled (of_nat i / of_nat (?n - 1)) 92 \<le> scaled (of_nat j / of_nat (?n - 1)) 92"
      by (intro scaled_mono) simp_all
    moreover have "0 \<le> scaled (of_nat i / of_nat (?n - 1)) 92" using that assms(2) by (intro scaled_bounds) (simp_all add: divide_le_eq)
    ultimately show ?thesis unfolding fx_def by (intro fl_mono) simp_all
  qed
  then have sorted: "sorted xs" by (auto simp: xs_def sorted_iff_nth_mono)
  have "fx 0 = 2" "fx (?n - 1) = 94"
    using assms(2) scaled_1 [of 92] fl_of_int [of 2] fl_of_int [of 94] by (simp_all add: fx_def)
  moreover have "vs \<noteq> []" using assms(2) by auto
  ultimately have ends: "hd xs = 2" "last xs = 94" by (auto simp: xs_def hd_conv_nth last_conv_nth)
  have y_mono: "fy w \<le> fy v" if "v \<in> set vs" "w \<in> set vs" "v \<le> w" for v w
  proof -
    have "v / m \<le> w / m" "0 \<le> v / m" "w / m \<le> 1" using that assms(1) m(2,3) by (simp_all add: divide_right_mono divide_le_eq)
    then have "scaled (v / m) 24 \<le> scaled (w / m) 24" "scaled (w / m) 24 \<le> 24"
      using scaled_mono [of "v / m" "w / m" 24] scaled_bounds(3) [of "w / m" 24] by simp_all
    then show ?thesis unfolding fy_def by (intro fl_mono) simp_all
  qed
  have "length xs = ?n" "length ys = ?n" "\<forall>x \<in> set xs. 2 \<le> x \<and> x \<le> 94" "\<forall>y \<in> set ys. 2 \<le> y \<and> y \<le> 26"
    "\<forall>i < ?n. \<forall>j < ?n. vs ! i \<le> vs ! j \<longrightarrow> ys ! j \<le> ys ! i"
    using x y by (auto simp: xs_def ys_def intro: y_mono)
  with pts sorted ends show ?thesis by blast
qed

theorem sparkline_fits_box_witness:
  "\<exists>xs ys. points [Fin 0, Fin 3, Fin 1] = zip (List.map Fin xs) (List.map Fin ys) \<and> hd xs = 2 \<and> last xs = 94
     \<and> ys ! 1 \<le> ys ! 2"
proof -
  have "length [0, 3, 1 :: rat] \<le> 2 ^ 53" by simp
  then obtain xs ys where "points (List.map Fin [0, 3, 1]) = zip (List.map Fin xs) (List.map Fin ys)"
      "hd xs = 2" "last xs = 94"
      "\<forall>i < length [0, 3, 1 :: rat]. \<forall>j < length [0, 3, 1 :: rat]. [0, 3, 1 :: rat] ! i \<le> [0, 3, 1] ! j \<longrightarrow> ys ! j \<le> ys ! i"
    using sparkline_fits_box [of "[0, 3, 1]"] by auto
  then have "ys ! 1 \<le> ys ! 2" by (auto dest: spec [of _ 2] spec [of _ 1])
  then show ?thesis using \<open>points _ = _\<close> \<open>hd xs = 2\<close> \<open>last xs = 94\<close> by (intro exI [of _ xs] exI [of _ ys]) simp
qed

end
