(* ===== verification/GoTime.thy ===== *)
theory GoTime
  imports JsDate
begin

text \<open>
  Times of the server. A \<open>time.Time\<close> in UTC is a number of nanoseconds since 1970. The store
  keeps times as text (\<open>formatTime\<close> of \<open>internal/store/sqlite/sqlite.go\<close>, the layout
  \<open>RFC3339Nano\<close>, which drops trailing zeros of the fraction) and SQL compares the text. The
  order of the texts is the order of the times up to the second, and not within one.
\<close>

type_synonym instant = int

definition second_text :: "int \<Rightarrow> string" where
  \<comment> \<open>a second since 1970, for the years 0 to 9999\<close>
  "second_text s =
     (let (y, m, d) = civil (s div 86400); r = s mod 86400
      in date_text y m d @ ''T'' @ pad 2 (r div 3600) @ '':'' @ pad 2 (r div 60 mod 60) @ '':'' @ pad 2 (r mod 60))"

definition fraction_text :: "int \<Rightarrow> string" where
  "fraction_text n =
     (if n = 0 then [] else ''.'' @ rev (dropWhile (\<lambda>c. c = CHR ''0'') (rev (pad 9 n))))"

definition formatTime :: "instant \<Rightarrow> string" where
  "formatTime t = second_text (t div 10 ^ 9) @ fraction_text (t mod 10 ^ 9) @ ''Z''"

definition sql_time_le :: "instant \<Rightarrow> instant \<Rightarrow> bool" where
  \<comment> \<open>the operator \<open><=\<close> of SQL on two stored times\<close>
  "sql_time_le a b = (\<not> str_lt (formatTime b) (formatTime a))"

definition in_years :: "int \<Rightarrow> bool" where
  \<comment> \<open>a second of the years 0 to 9999\<close>
  "in_years s \<longleftrightarrow> 86400 * day_from_year 0 \<le> s \<and> s < 86400 * day_from_year 10000"

definition go_day :: "instant \<Rightarrow> string" where
  \<comment> \<open>\<open>now.Format("2006-01-02")\<close>\<close>
  "go_day t = (let (y, m, d) = civil (t div 86400000000000) in date_text y m d)"

definition go_month :: "instant \<Rightarrow> string" where
  \<comment> \<open>\<open>now.Format("2006-01")\<close>\<close>
  "go_month t = (let (y, m, d) = civil (t div 86400000000000) in pad 4 y @ ''-'' @ pad 2 m)"

section \<open>The calendar backwards\<close>

lemma year_exists:
  "day_from_year 0 \<le> z \<Longrightarrow> z < day_from_year (int n)
   \<Longrightarrow> \<exists>y. 0 \<le> y \<and> y < int n \<and> day_from_year y \<le> z \<and> z < day_from_year (y + 1)"
proof (induction n)
  case (Suc n)
  show ?case
  proof (cases "z < day_from_year (int n)")
    case True
    then show ?thesis using Suc by force
  next
    case False
    then show ?thesis using Suc.prems by (intro exI [of _ "int n"]) (simp add: add.commute)
  qed
qed simp

lemma month_from_walk:
  "0 \<le> d \<Longrightarrow> d < sum_list ls \<Longrightarrow> month_from ls k d = (m, e)
   \<Longrightarrow> k \<le> m \<and> m < k + int (length ls) \<and> 1 \<le> e \<and> e \<le> ls ! nat (m - k)
       \<and> sum_list (take (nat (m - k)) ls) + e - 1 = d"
proof (induction ls arbitrary: k d)
  case (Cons l ls)
  show ?case
  proof (cases "d < l")
    case True
    then show ?thesis using Cons.prems by auto
  next
    case False
    then have "k + 1 \<le> m \<and> m < k + 1 + int (length ls) \<and> 1 \<le> e \<and> e \<le> ls ! nat (m - (k + 1))
       \<and> sum_list (take (nat (m - (k + 1))) ls) + e - 1 = d - l"
      using Cons.prems by (intro Cons.IH) auto
    moreover from this have "nat (m - k) = Suc (nat (m - (k + 1)))"
      by (elim conjE) (simp add: Suc_nat_eq_nat_zadd1)
    ultimately show ?thesis by simp
  qed
qed simp

lemma day_number_civil:
  assumes "day_from_year 0 \<le> z" "z < day_from_year 10000" and "civil z = (y, m, d)"
  shows "valid_date y m d" and "day_number y m d = z"
proof -
  obtain x where x: "0 \<le> x" "x < 10000" "day_from_year x \<le> z" "z < day_from_year (x + 1)"
    using year_exists [of z 10000] assms(1,2) by auto
  then have y: "y = x" "month_from (month_lengths (leap x)) 1 (z - day_from_year x) = (m, d)"
    using assms(3) year_from_day [OF x(3,4)] by (auto simp: civil_def Let_def split: prod.splits)
  have "sum_list (month_lengths (leap x)) = (if leap x then 366 else 365)" "length (month_lengths (leap x)) = 12"
    by (simp_all add: month_lengths_def)
  moreover from this have "z - day_from_year x < sum_list (month_lengths (leap x))"
    using x(4) by (simp add: day_from_year_Suc split: if_splits)
  ultimately have "1 \<le> m \<and> m < 13 \<and> 1 \<le> d \<and> d \<le> month_lengths (leap x) ! nat (m - 1)
      \<and> sum_list (take (nat (m - 1)) (month_lengths (leap x))) + d - 1 = z - day_from_year x"
    using month_from_walk [OF _ _ y(2)] x(3) by simp
  then show "valid_date y m d" "day_number y m d = z"
    using x y by (auto simp: valid_date_def day_number_def days_in_month_def days_before_month_def)
qed

lemma day_from_year_mono: "x \<le> y \<Longrightarrow> day_from_year x \<le> day_from_year y"
proof (induction y rule: int_ge_induct)
  case (step y)
  then show ?case using day_from_year_Suc [of y] by (simp split: if_splits)
qed simp

lemma sum_list_take_Suc_le:
  assumes "\<forall>x \<in> set ls. 0 \<le> (x :: int)" "i < j" "j \<le> length ls"
  shows "sum_list (take i ls) + ls ! i \<le> sum_list (take j ls)"
proof -
  have "take j ls = take (Suc i) ls @ take (j - Suc i) (drop (Suc i) ls)"
    using assms(2) by (metis Suc_leI le_add_diff_inverse take_add)
  moreover have "0 \<le> sum_list (take (j - Suc i) (drop (Suc i) ls))"
    using assms(1) by (intro sum_list_nonneg) (meson in_set_dropD in_set_takeD)
  ultimately show ?thesis using assms(2,3) by (simp add: take_Suc_conv_app_nth)
qed

lemma days_before_month_step:
  assumes "1 \<le> m" "m < n" "n \<le> 12"
  shows "days_before_month y m + days_in_month y m \<le> days_before_month y n"
  unfolding days_before_month_def days_in_month_def
  using assms by (intro sum_list_take_Suc_le) (auto simp: month_lengths_def)

lemma day_number_less:
  assumes v: "valid_date y m d" "valid_date y' m' d'"
    and less: "y < y' \<or> y = y' \<and> (m < m' \<or> m = m' \<and> d < d')"
  shows "day_number y m d < day_number y' m' d'"
  using less
proof (elim disjE conjE)
  assume "y < y'"
  have "day_number y m d < day_from_year (y + 1)"
    using days_before_month_bounds(2) [of m d y] v(1)
    by (auto simp: valid_date_def day_number_def day_from_year_Suc split: if_splits)
  also have "\<dots> \<le> day_from_year y'" using \<open>y < y'\<close> by (intro day_from_year_mono) simp
  also have "\<dots> \<le> day_number y' m' d'"
    using days_before_month_bounds(1) [of m' d' y'] v(2) by (auto simp: valid_date_def day_number_def)
  finally show ?thesis .
next
  assume "y = y'" "m < m'"
  then show ?thesis
    using days_before_month_step [of m m' y] v by (auto simp: valid_date_def day_number_def)
qed (simp add: day_number_def)

lemma day_number_order:
  assumes v: "valid_date y m d" "valid_date y' m' d'" and less: "day_number y m d < day_number y' m' d'"
  shows "y < y' \<or> y = y' \<and> (m < m' \<or> m = m' \<and> d < d')"
proof (rule ccontr)
  assume "\<not> ?thesis"
  then consider "y' < y \<or> y' = y \<and> (m' < m \<or> m' = m \<and> d' < d)" | "y' = y" "m' = m" "d' = d" by fastforce
  then show False
  proof cases
    case 1
    then show ?thesis using day_number_less [OF v(2,1)] less by simp
  qed (use less in simp)
qed

section \<open>The order of the texts\<close>

lemma str_lt_append:
  "length a = length b \<Longrightarrow> str_lt (a @ x) (b @ y) \<longleftrightarrow> str_lt a b \<or> a = b \<and> str_lt x y"
  by (induction a b rule: list_induct2) auto

lemma digits_val_bounds: "list_all is_digit s \<Longrightarrow> 0 \<le> digits_val s \<and> digits_val s < 10 ^ length s"
proof (induction s)
  case (Cons c s)
  then have "0 \<le> digit_val c \<and> digit_val c \<le> 9" by (auto simp: is_digit_def digit_val_def)
  moreover from this have "digit_val c * 10 ^ length s \<le> 9 * 10 ^ length s"
    by (intro mult_right_mono) auto
  moreover have "0 \<le> digits_val s" "digits_val s < 10 ^ length s" using Cons by auto
  moreover have "0 \<le> digit_val c * 10 ^ length s" using calculation(1) by simp
  ultimately show ?case unfolding digits_val_Cons by (simp only: length_Cons power_Suc) linarith
qed simp

lemma str_lt_digits:
  "length s = length t \<Longrightarrow> list_all is_digit s \<Longrightarrow> list_all is_digit t
   \<Longrightarrow> str_lt s t \<longleftrightarrow> digits_val s < digits_val t"
proof (induction s t rule: list_induct2)
  case (Cons c s e t)
  have b: "0 \<le> digits_val s" "digits_val s < 10 ^ length t" "0 \<le> digits_val t" "digits_val t < 10 ^ length t"
    using digits_val_bounds [of s] digits_val_bounds [of t] Cons.prems Cons.hyps by auto
  consider "digit_val c < digit_val e" | "c = e" | "digit_val e < digit_val c"
    by (force simp: digit_val_def)
  then show ?case
  proof cases
    case 1
    then have "(digit_val c + 1) * 10 ^ length t \<le> digit_val e * 10 ^ length t"
      by (intro mult_right_mono) auto
    then have "digits_val (c # s) < digits_val (e # t)"
      using b Cons.hyps by (simp add: digits_val_Cons distrib_right)
    then show ?thesis using 1 by (simp add: digit_val_def)
  next
    case 2
    then show ?thesis using Cons by (simp add: digits_val_Cons)
  next
    case 3
    then have "(digit_val e + 1) * 10 ^ length t \<le> digit_val c * 10 ^ length t"
      by (intro mult_right_mono) auto
    then have "\<not> digits_val (c # s) < digits_val (e # t)"
      using b Cons.hyps by (simp add: digits_val_Cons distrib_right)
    then show ?thesis using 3 by (auto simp: digit_val_def)
  qed
qed simp

lemma str_lt_pad:
  assumes "0 \<le> a" "a < 10 ^ k" "0 \<le> b" "b < 10 ^ k" "1 \<le> k"
  shows "str_lt (pad k a @ x) (pad k b @ y) \<longleftrightarrow> a < b \<or> a = b \<and> str_lt x y"
proof -
  note p = pad_props [OF assms(1,2,5)] pad_props [OF assms(3,4,5)]
  have "pad k a = pad k b \<longleftrightarrow> a = b" using p(3,6) by metis
  then show ?thesis using p by (simp add: str_lt_append str_lt_digits)
qed

lemma str_lt_date_text:
  assumes "valid_date y m d" "valid_date y' m' d'"
  shows "str_lt (date_text y m d @ u) (date_text y' m' d' @ v) \<longleftrightarrow>
    y < y' \<or> y = y' \<and> (m < m' \<or> m = m' \<and> (d < d' \<or> d = d' \<and> str_lt u v))"
  using valid_date_bounds [OF assms(1)] valid_date_bounds [OF assms(2)]
  by (simp add: date_text_def str_lt_pad)

lemma div_between:
  fixes s k :: int
  assumes "0 < k"
  shows "k * a \<le> s \<Longrightarrow> a \<le> s div k" and "s < k * b \<Longrightarrow> s div k < b"
proof -
  note q = div_bounds [OF assms, of s]
  show "a \<le> s div k" if "k * a \<le> s"
  proof (rule ccontr)
    assume "\<not> a \<le> s div k"
    then have "k * (s div k + 1) \<le> k * a" using assms by (intro mult_left_mono) auto
    then show False using q that by (simp add: distrib_left)
  qed
  show "s div k < b" if "s < k * b"
  proof (rule ccontr)
    assume "\<not> s div k < b"
    then have "k * b \<le> k * (s div k)" using assms by (intro mult_left_mono) auto
    then show False using q that by linarith
  qed
qed

lemma div_less_cases:
  fixes r r' k :: int
  assumes "0 < k" "r < r'"
  shows "r div k < r' div k \<or> r div k = r' div k \<and> r mod k < r' mod k"
proof -
  have "r div k \<le> r' div k" using assms by (intro zdiv_mono1) auto
  then consider "r div k < r' div k" | "r div k = r' div k" by linarith
  then show ?thesis
  proof cases
    case 2
    then have "k * (r div k) = k * (r' div k)" by simp
    then show ?thesis
      using 2 mult_div_mod_eq [of k r] mult_div_mod_eq [of k r'] assms(2) by linarith
  qed simp
qed

lemma clock_less:
  fixes r r' :: int
  assumes "r < r'"
  shows "r div 3600 < r' div 3600 \<or> r div 3600 = r' div 3600 \<and>
    (r div 60 mod 60 < r' div 60 mod 60 \<or> r div 60 mod 60 = r' div 60 mod 60 \<and> r mod 60 < r' mod 60)"
proof -
  have h: "x div 3600 = x div 60 div 60" for x :: int using zdiv_zmult2_eq [of 60 x 60] by simp
  have "r div 60 < r' div 60 \<or> r div 60 = r' div 60 \<and> r mod 60 < r' mod 60"
    by (rule div_less_cases) (use assms in simp_all)
  moreover have "r div 60 < r' div 60 \<Longrightarrow> r div 60 div 60 < r' div 60 div 60 \<or>
      r div 60 div 60 = r' div 60 div 60 \<and> r div 60 mod 60 < r' div 60 mod 60"
    by (rule div_less_cases) simp_all
  ultimately show ?thesis unfolding h by fastforce
qed

lemma clock_text_less:
  assumes "0 \<le> h \<and> h < (100 :: int)" "0 \<le> h' \<and> h' < 100" "0 \<le> m \<and> m < (100 :: int)" "0 \<le> m' \<and> m' < 100"
    "0 \<le> s \<and> s < (100 :: int)" "0 \<le> s' \<and> s' < 100"
    and "h < h' \<or> h = h' \<and> (m < m' \<or> m = m' \<and> s < s')"
  shows "str_lt (pad 2 h @ '':'' @ pad 2 m @ '':'' @ pad 2 s @ u) (pad 2 h' @ '':'' @ pad 2 m' @ '':'' @ pad 2 s' @ v)"
  using assms by (auto simp: str_lt_pad)

lemma second_text_less:
  assumes "in_years s" "in_years s'" "s < s'"
  shows "str_lt (second_text s @ u) (second_text s' @ v)"
proof -
  define z z' r r' where "z = s div 86400" "z' = s' div 86400" "r = s mod 86400" "r' = s' mod 86400"
  note defs = this
  obtain y m d where c: "civil z = (y, m, d)" by (cases "civil z")
  obtain y' m' d' where c': "civil z' = (y', m', d')" by (cases "civil z'")
  have v: "valid_date y m d" "day_number y m d = z" "valid_date y' m' d'" "day_number y' m' d' = z'"
    using assms(1,2) day_number_civil [OF _ _ c] day_number_civil [OF _ _ c']
    by (auto simp: in_years_def defs div_between)
  have r: "0 \<le> r" "r < 86400" "0 \<le> r'" "r' < 86400" "s = 86400 * z + r" "s' = 86400 * z' + r'"
    by (simp_all add: defs)
  have t: "str_lt (pad 2 (r div 3600) @ '':'' @ pad 2 (r div 60 mod 60) @ '':'' @ pad 2 (r mod 60) @ u)
      (pad 2 (r' div 3600) @ '':'' @ pad 2 (r' div 60 mod 60) @ '':'' @ pad 2 (r' mod 60) @ v)" if "r < r'"
  proof -
    have "0 \<le> r div 3600 \<and> r div 3600 < 100" "0 \<le> r' div 3600 \<and> r' div 3600 < 100"
      using r by (simp_all add: div_between)
    moreover have "0 \<le> x mod 60 \<and> x mod 60 < 100" for x :: int
      using pos_mod_sign [of 60 x] pos_mod_bound [of 60 x] by simp
    ultimately show ?thesis using clock_less [OF that] by (intro clock_text_less)
  qed
  have e: "second_text s @ u = date_text y m d @ ''T'' @ pad 2 (r div 3600) @ '':'' @ pad 2 (r div 60 mod 60)
        @ '':'' @ pad 2 (r mod 60) @ u"
    "second_text s' @ v = date_text y' m' d' @ ''T'' @ pad 2 (r' div 3600) @ '':'' @ pad 2 (r' div 60 mod 60)
        @ '':'' @ pad 2 (r' mod 60) @ v"
    by (simp_all add: second_text_def Let_def c c' flip: defs)
  consider "z < z'" | "z = z'" "r < r'" using r assms(3) by linarith
  then show ?thesis
  proof cases
    case 1
    then have "y < y' \<or> y = y' \<and> (m < m' \<or> m = m' \<and> d < d')"
      using day_number_order [OF v(1,3)] v(2,4) by simp
    then show ?thesis unfolding e str_lt_date_text [OF v(1,3)] by blast
  next
    case 2
    then have "y = y' \<and> m = m' \<and> d = d'" using c c' by simp
    then show ?thesis unfolding e str_lt_date_text [OF v(1,3)] using t [OF 2(2)] by simp
  qed
qed

lemma formatTime_less:
  assumes "in_years (a div 10 ^ 9)" "in_years (b div 10 ^ 9)" "a div 10 ^ 9 < b div 10 ^ 9"
  shows "str_lt (formatTime a) (formatTime b)"
  unfolding formatTime_def by (rule second_text_less [OF assms])

lemma sql_time_le_seconds:
  assumes "in_years (a div 10 ^ 9)" "in_years (b div 10 ^ 9)"
  shows "a div 10 ^ 9 < b div 10 ^ 9 \<Longrightarrow> sql_time_le a b"
    and "b div 10 ^ 9 < a div 10 ^ 9 \<Longrightarrow> \<not> sql_time_le a b"
  using formatTime_less [OF assms] formatTime_less [OF assms(2,1)] str_lt_trans str_lt_irrefl
  unfolding sql_time_le_def by blast+

lemma sql_time_le_refl: "sql_time_le a a"
  by (simp add: sql_time_le_def)

end
