(* ===== verification/Requests.thy ===== *)
theory Requests
  imports Prelude
begin

text \<open>
  Requests that share one store. The server answers requests in goroutines over a single
  SQLite connection (\<open>internal/store/sqlite/sqlite.go\<close>, \<open>SetMaxOpenConns(1)\<close>), so statements and
  transactions run one at a time and requests interleave between them. A request is a
  \<open>prog\<close>: a result, or an atomic step that maps the store to the rest of the request and the
  store afterwards. \<open>run\<close> is a request on its own; \<open>steps\<close> is any interleaving of a pool of
  requests; \<open>outcome\<close> is one request while others change the store between its steps.
\<close>

section \<open>Programs\<close>

datatype ('s, 'a) prog = Done 'a | Atomic "'s \<Rightarrow> ('s, 'a) prog \<times> 's"

definition step_then :: "('s \<Rightarrow> 'a \<times> 's) \<Rightarrow> ('a \<Rightarrow> ('s, 'b) prog) \<Rightarrow> ('s, 'b) prog" where
  \<comment> \<open>one step, and what the request does with its result\<close>
  "step_then f k = Atomic (\<lambda>s. map_prod k id (f s))"

primrec run :: "('s, 'a) prog \<Rightarrow> 's \<Rightarrow> 'a \<times> 's" where
  "run (Done a) = (\<lambda>s. (a, s))"
| "run (Atomic f) = (\<lambda>s. case map_prod run id (f s) of (r, s') \<Rightarrow> r s')"

lemma run_step_then [simp]: "run (step_then f k) s = (case f s of (a, s') \<Rightarrow> run (k a) s')"
  by (simp add: step_then_def split: prod.splits)

lemma run_map_prog: "run (map_prog f p) s = map_prod f id (run p s)"
proof (induction p arbitrary: s)
  case (Atomic g)
  obtain q t where g: "g s = (q, t)" by fastforce
  then have "(q, t) \<in> range g" by (metis rangeI)
  then have "run (map_prog f q) t = map_prod f id (run q t)"
    using Atomic [of "(q, t)" q t] by (simp add: Basic_BNFs.fsts.simps id_def)
  then show ?case using g by (simp add: id_def)
qed simp

section \<open>One request among others\<close>

inductive outcome :: "('s, 'a) prog \<Rightarrow> ('s \<times> 's) list \<Rightarrow> 'a \<Rightarrow> bool" where
  Done: "outcome (Done a) [] a"
| Atomic: "f s = (p, s') \<Longrightarrow> outcome p ts a \<Longrightarrow> outcome (Atomic f) ((s, s') # ts) a"

inductive_cases outcome_DoneE: "outcome (Done a) ts b"
inductive_cases outcome_AtomicE: "outcome (Atomic f) ts b"

lemma outcome_Done [simp]: "outcome (Done a) ts b \<longleftrightarrow> ts = [] \<and> b = a"
  by (auto intro: outcome.Done elim: outcome_DoneE)

lemma outcome_step_then:
  "outcome (step_then f k) ts b \<longleftrightarrow>
     (\<exists>s a s' us. f s = (a, s') \<and> ts = (s, s') # us \<and> outcome (k a) us b)"
  unfolding step_then_def by (auto intro!: outcome.Atomic elim!: outcome_AtomicE simp: map_prod_def split: prod.splits)

section \<open>Interleaving\<close>

inductive steps ::
  "('s, 'a) prog list \<Rightarrow> 's \<Rightarrow> (nat \<times> 's \<times> 's) list \<Rightarrow> ('s, 'a) prog list \<Rightarrow> 's \<Rightarrow> bool" where
  Stop: "steps ps s [] ps s"
| Step: "i < length ps \<Longrightarrow> ps ! i = Atomic f \<Longrightarrow> f s = (p, s') \<Longrightarrow> steps (ps[i := p]) s' ts qs u
         \<Longrightarrow> steps ps s ((i, s, s') # ts) qs u"

definition own :: "nat \<Rightarrow> (nat \<times> 's \<times> 's) list \<Rightarrow> ('s \<times> 's) list" where
  \<comment> \<open>the steps of request \<open>i\<close>\<close>
  "own i ts = List.map snd (filter (\<lambda>t. fst t = i) ts)"

lemma own_Cons: "own i (t # ts) = (if fst t = i then [snd t] else []) @ own i ts"
  by (simp add: own_def)

lemma set_own: "x \<in> set (own i ts) \<longleftrightarrow> (i, x) \<in> set ts"
  by (force simp: own_def)

lemma steps_length: "steps ps s ts qs u \<Longrightarrow> length qs = length ps"
  by (induction rule: steps.induct) auto

lemma steps_outcome:
  "steps ps s ts qs u \<Longrightarrow> i < length ps \<Longrightarrow> qs ! i = Done a \<Longrightarrow> outcome (ps ! i) (own i ts) a"
proof (induction rule: steps.induct)
  case (Stop ps s)
  then show ?case by (simp add: own_def)
next
  case (Step j ps f s p s' ts qs u)
  then show ?case
    by (cases "j = i") (auto simp: own_Cons intro: outcome.Atomic)
qed

fun schedule ::
  "nat list \<Rightarrow> ('s, 'a) prog list \<Rightarrow> 's \<Rightarrow> (nat \<times> 's \<times> 's) list \<times> ('s, 'a) prog list \<times> 's" where
  \<comment> \<open>the interleaving that gives the turns in this order\<close>
  "schedule [] ps s = ([], ps, s)"
| "schedule (i # is) ps s =
     (if length ps \<le> i then schedule is ps s
      else case ps ! i of
        Done _ \<Rightarrow> schedule is ps s
      | Atomic f \<Rightarrow>
          (let (p, s') = f s; (ts, rest) = schedule is (ps[i := p]) s' in ((i, s, s') # ts, rest)))"

lemma schedule_steps: "schedule is ps s = (ts, qs, u) \<Longrightarrow> steps ps s ts qs u"
proof (induction "is" ps s arbitrary: ts rule: schedule.induct)
  case (1 ps s)
  then show ?case by (auto intro: steps.Stop)
next
  case (2 i "is" ps s)
  show ?case
  proof (cases "length ps \<le> i \<or> (\<exists>a. ps ! i = Done a)")
    case True
    then show ?thesis using 2 by (auto split: if_splits)
  next
    case False
    then obtain f p s' where f: "i < length ps" "ps ! i = Atomic f" "f s = (p, s')"
      by (metis not_le prod.exhaust prog.exhaust)
    then obtain us where "schedule is (ps[i := p]) s' = (us, qs, u)" "ts = (i, s, s') # us"
      using 2(4) by (auto split: prod.splits)
    then show ?thesis using 2(3) f by (auto intro: steps.Step)
  qed
qed

definition finished :: "('s, 'a) prog \<Rightarrow> 'a option" where
  "finished p = (case p of Done a \<Rightarrow> Some a | Atomic _ \<Rightarrow> None)"

lemma finished_iff: "finished p = Some a \<longleftrightarrow> p = Done a"
  by (auto simp: finished_def split: prog.splits)

inductive safe :: "('s \<Rightarrow> bool) \<Rightarrow> ('s \<Rightarrow> 's \<Rightarrow> bool) \<Rightarrow> ('s, 'a) prog \<Rightarrow> bool" for ok rely where
  Done: "safe ok rely (Done a)"
| Atomic: "(\<And>s. ok s \<Longrightarrow> ok (snd (f s)) \<and> rely s (snd (f s)) \<and> safe ok rely (fst (f s)))
           \<Longrightarrow> safe ok rely (Atomic f)"

inductive_cases safe_AtomicE: "safe ok rely (Atomic f)"

declare safe.Done [simp, intro]

lemma safe_step_then:
  "(\<And>s a s'. ok s \<Longrightarrow> f s = (a, s') \<Longrightarrow> ok s' \<and> rely s s' \<and> safe ok rely (k a))
   \<Longrightarrow> safe ok rely (step_then f k)"
  unfolding step_then_def by (intro safe.Atomic) (auto split: prod.splits simp: map_prod_def)

text \<open>
  The laws an invariant and a guarantee have to obey, and what every interleaving of safe
  requests inherits: the invariant always holds, and any later store is related to any
  earlier one, so that each request sees only changes the guarantee allows.
\<close>

locale interleaving =
  fixes ok :: "'s \<Rightarrow> bool" and rely :: "'s \<Rightarrow> 's \<Rightarrow> bool"
  assumes rely_refl: "ok s \<Longrightarrow> rely s s"
    and rely_trans: "rely s t \<Longrightarrow> rely t u \<Longrightarrow> rely s u"
begin

lemma safe_update:
  assumes "ok s" and "\<forall>p \<in> set ps. safe ok rely p" and "i < length ps" "ps ! i = Atomic f" "f s = (p, s')"
  shows "ok s'" and "rely s s'" and "\<forall>q \<in> set (ps[i := p]). safe ok rely q"
proof -
  have "safe ok rely (Atomic f)" using assms(2-4) nth_mem by metis
  then have *: "ok (snd (f s)) \<and> rely s (snd (f s)) \<and> safe ok rely (fst (f s))"
    using assms(1) by (auto elim: safe_AtomicE)
  then show "ok s'" "rely s s'" using assms(5) by auto
  show "\<forall>q \<in> set (ps[i := p]). safe ok rely q"
    using * assms(2,5) set_update_subset_insert [of ps i p] by auto
qed

lemma steps_safe:
  "steps ps s ts qs u \<Longrightarrow> ok s \<Longrightarrow> \<forall>p \<in> set ps. safe ok rely p
   \<Longrightarrow> ok u \<and> rely s u \<and> (\<forall>(i, a, b) \<in> set ts. ok a \<and> ok b \<and> rely s a \<and> rely a b \<and> rely b u)"
proof (induction rule: steps.induct)
  case (Stop ps s)
  then show ?case by (simp add: rely_refl)
next
  case (Step i ps f s p s' ts qs u)
  then have *: "ok s'" "rely s s'" "\<forall>q \<in> set (ps[i := p]). safe ok rely q"
    using safe_update [OF Step.prems Step.hyps(1-3)] by simp_all
  have **: "ok u \<and> rely s' u \<and> (\<forall>(i, a, b) \<in> set ts. ok a \<and> ok b \<and> rely s' a \<and> rely a b \<and> rely b u)"
    by (rule Step.IH [OF *(1,3)])
  then have "rely s u" and "\<forall>(i, a, b) \<in> set ts. rely s a" using *(2) rely_trans by blast+
  with * ** Step.prems show ?case by (auto intro: rely_refl)
qed

lemma steps_ordered:
  "steps ps s ts qs u \<Longrightarrow> ok s \<Longrightarrow> \<forall>p \<in> set ps. safe ok rely p
   \<Longrightarrow> sorted_wrt (\<lambda>t t'. rely (snd (snd t)) (fst (snd t'))) ts"
proof (induction rule: steps.induct)
  case (Step i ps f s p s' ts qs u)
  then have *: "ok s'" "\<forall>q \<in> set (ps[i := p]). safe ok rely q"
    using safe_update [OF Step.prems Step.hyps(1-3)] by simp_all
  with Step.IH steps_safe [OF Step.hyps(4) *] show ?case by fastforce
qed simp

lemma steps_own:
  assumes "steps ps s ts qs u" and "ok s" and "\<forall>p \<in> set ps. safe ok rely p"
  shows "sorted_wrt (\<lambda>t t'. rely (snd t) (fst t')) (own i ts)"
    and "\<forall>(a, b) \<in> set (own i ts). ok a \<and> ok b \<and> rely a b"
proof -
  have "sorted_wrt (\<lambda>t t'. rely (snd (snd t)) (fst (snd t'))) (filter (\<lambda>t. fst t = i) ts)"
    using steps_ordered [OF assms] by (rule sorted_wrt_filter)
  then show "sorted_wrt (\<lambda>t t'. rely (snd t) (fst t')) (own i ts)"
    by (simp add: own_def sorted_wrt_map)
  show "\<forall>(a, b) \<in> set (own i ts). ok a \<and> ok b \<and> rely a b"
    using steps_safe [OF assms] by (auto simp: set_own)
qed

lemma steps_apart:
  \<comment> \<open>of two steps one comes first, and the store it left leads to the one the other met\<close>
  assumes "steps ps s ts qs u" and "ok s" and "\<forall>p \<in> set ps. safe ok rely p"
    and "t \<in> set ts" "t' \<in> set ts" "fst t \<noteq> fst t'"
  shows "rely (snd (snd t)) (fst (snd t')) \<or> rely (snd (snd t')) (fst (snd t))"
proof -
  obtain m n where mn: "m < length ts" "n < length ts" "t = ts ! m" "t' = ts ! n" "m \<noteq> n"
    using assms(4-6) by (metis in_set_conv_nth)
  then show ?thesis
    using steps_ordered [OF assms(1-3)] by (cases "m < n") (auto simp: sorted_wrt_iff_nth_less)
qed

end

end
