(* ===== verification/UserStore.thy ===== *)
theory UserStore
  imports Client GoTime Requests "HOL-Library.List_Lexorder" "HOL-Library.Char_ord"
begin

text \<open>
  The store of the server: the tables \<open>users\<close>, \<open>credentials\<close>, \<open>usage_periods\<close> and
  \<open>destination_stats\<close> of \<open>internal/store/sqlite/migrations\<close>, and the repositories of \<open>user.go\<close>
  and \<open>credential.go\<close>. A row is what scanning it gives: times are instants (their text is
  \<open>formatTime\<close>, and SQL compares the text). Any statement may fail: \<open>db_faults\<close> says which of
  the next ones do. An operation is one atomic step per statement, or per transaction.
\<close>

section \<open>Tables\<close>

record stored_user =
  pu_id :: int
  pu_server_id :: string
  pu_username :: string
  pu_status :: user_status
  pu_protocols :: "string list"
  pu_download :: int
  pu_upload :: int
  pu_max_connections :: int
  pu_quota_daily :: int
  pu_quota_monthly :: int
  pu_expires_at :: "instant option"
  pu_version :: int
  pu_created_at :: instant
  pu_updated_at :: instant
  pu_last_seen_at :: "instant option"

datatype credential_status = CredentialActive | CredentialRevoked

record credential =
  cr_id :: int
  cr_user_id :: int
  cr_engine_hash :: string
  cr_api_hash :: string
  cr_status :: credential_status
  cr_created_at :: instant
  cr_rotated_at :: "instant option"

datatype granularity = DayPeriod | MonthPeriod

record ledger_row =
  lr_user_id :: int
  lr_period_start :: string
  lr_granularity :: granularity
  lr_bytes_in :: int
  lr_bytes_out :: int
  lr_connections :: int

record dest_row =
  dr_user_id :: int
  dr_day :: string
  dr_host :: string
  dr_port :: int
  dr_protocol :: string
  dr_requests :: int
  dr_blocked :: int
  dr_bytes_in :: int
  dr_bytes_out :: int
  dr_last_seen :: instant

record log_cursor =
  lc_path :: string
  lc_offset :: int

record audit_row =
  ar_timestamp :: instant
  ar_actor :: string
  ar_action :: string
  ar_target :: string
  ar_request_id :: string
  ar_source_ip :: string
  ar_user_agent :: string
  ar_result :: string
  ar_detail :: string

record server_db =
  db_users :: "stored_user list"
  db_creds :: "credential list"
  db_user_seq :: int \<comment> \<open>\<open>sqlite_sequence\<close> of \<open>users\<close>: the largest id ever given\<close>
  db_cred_seq :: int
  db_usage :: "ledger_row list"
  db_dests :: "dest_row list"
  db_cursor :: "log_cursor option"
  db_audit :: "audit_row list"
  db_hooks :: "(string \<times> string) list" \<comment> \<open>calls of \<open>onChange\<close>: actor and reason\<close>
  db_clock :: instant \<comment> \<open>what \<open>time.Now\<close> reads\<close>
  db_faults :: "bool list" \<comment> \<open>whether each of the next statements fails\<close>

datatype store_error = NotFound | Conflict | StoreFailure

section \<open>Statements and transactions\<close>

type_synonym 'a statement = "server_db \<Rightarrow> (store_error + 'a) \<times> server_db"

definition sql :: "'a statement \<Rightarrow> 'a statement" where
  \<comment> \<open>a statement the driver may refuse\<close>
  "sql f db =
     (case db_faults db of
        [] \<Rightarrow> f db
      | b # bs \<Rightarrow> if b then (Inl StoreFailure, db\<lparr>db_faults := bs\<rparr>) else f (db\<lparr>db_faults := bs\<rparr>))"

definition after :: "'a statement \<Rightarrow> ('a \<Rightarrow> 'b statement) \<Rightarrow> 'b statement" where
  "after m k db = (case m db of (Inl e, db') \<Rightarrow> (Inl e, db') | (Inr x, db') \<Rightarrow> k x db')"

definition begin_commit :: "unit statement" where
  \<comment> \<open>\<open>BEGIN\<close> and \<open>COMMIT\<close>, which change no table\<close>
  "begin_commit = sql (Pair (Inr ()))"

definition transaction :: "'a statement \<Rightarrow> 'a statement" where
  \<comment> \<open>on any error the tables are those before \<open>BEGIN\<close>\<close>
  "transaction body db =
     (case after begin_commit (\<lambda>_. after body (\<lambda>x. after begin_commit (\<lambda>_. Pair (Inr x)))) db of
        (Inl e, db') \<Rightarrow> (Inl e, db\<lparr>db_faults := db_faults db'\<rparr>)
      | (Inr x, db') \<Rightarrow> (Inr x, db'))"

definition select :: "(server_db \<Rightarrow> store_error + 'a) \<Rightarrow> 'a statement" where
  "select q = sql (\<lambda>db. (q db, db))"

definition update_users :: "(stored_user \<Rightarrow> bool) \<Rightarrow> (stored_user \<Rightarrow> stored_user) \<Rightarrow> nat statement" where
  \<comment> \<open>\<open>UPDATE users SET \<dots> WHERE \<dots>\<close>, with the number of rows affected\<close>
  "update_users P f = sql (\<lambda>db.
     (Inr (length (filter P (db_users db))),
      db\<lparr>db_users := List.map (\<lambda>u. if P u then f u else u) (db_users db)\<rparr>))"

definition insert_user :: "stored_user \<Rightarrow> int statement" where
  \<comment> \<open>\<open>INSERT INTO users\<close>: the id is new, the version 1, and the username unique\<close>
  "insert_user u = sql (\<lambda>db.
     if \<exists>v \<in> set (db_users db). pu_username v = pu_username u then (Inl Conflict, db)
     else if 2 ^ 63 - 1 \<le> db_user_seq db then (Inl StoreFailure, db)
     else let i = db_user_seq db + 1
          in (Inr i, db\<lparr>db_user_seq := i,
                db_users := db_users db @ [u\<lparr>pu_id := i, pu_version := 1, pu_last_seen_at := None\<rparr>]\<rparr>))"

definition insert_credential :: "credential \<Rightarrow> unit statement" where
  "insert_credential c = sql (\<lambda>db.
     if 2 ^ 63 - 1 \<le> db_cred_seq db then (Inl StoreFailure, db)
     else let i = db_cred_seq db + 1
          in (Inr (), db\<lparr>db_cred_seq := i,
                db_creds := db_creds db @ [c\<lparr>cr_id := i, cr_status := CredentialActive, cr_rotated_at := None\<rparr>]\<rparr>))"

definition revoked_by :: "int \<Rightarrow> instant \<Rightarrow> credential \<Rightarrow> credential" where
  "revoked_by i now c = (if cr_user_id c = i \<and> cr_status c = CredentialActive
     then c\<lparr>cr_status := CredentialRevoked, cr_rotated_at := Some now\<rparr> else c)"

definition revoke_credentials :: "int \<Rightarrow> instant \<Rightarrow> unit statement" where
  "revoke_credentials i now = sql (\<lambda>db.
     (Inr (), db\<lparr>db_creds := List.map (revoked_by i now) (db_creds db)\<rparr>))"

definition delete_user :: "int \<Rightarrow> nat statement" where
  \<comment> \<open>\<open>DELETE FROM users\<close>, with the rows that refer to it (\<open>ON DELETE CASCADE\<close>)\<close>
  "delete_user i = sql (\<lambda>db.
     (Inr (length (filter (\<lambda>u. pu_id u = i) (db_users db))),
      db\<lparr>db_users := filter (\<lambda>u. pu_id u \<noteq> i) (db_users db),
         db_creds := filter (\<lambda>c. cr_user_id c \<noteq> i) (db_creds db),
         db_usage := filter (\<lambda>r. lr_user_id r \<noteq> i) (db_usage db),
         db_dests := filter (\<lambda>r. dr_user_id r \<noteq> i) (db_dests db)\<rparr>))"

section \<open>User repository\<close>

definition joinProtocols :: "string list \<Rightarrow> string" where
  "joinProtocols ps = join '','' ps"

definition splitProtocols :: "string \<Rightarrow> string list" where
  "splitProtocols s = (if s = [] then [] else split_on CHR '','' s)"

definition stored_protocols :: "string list \<Rightarrow> string list" where
  \<comment> \<open>written and scanned\<close>
  "stored_protocols ps = splitProtocols (joinProtocols ps)"

definition row_by_id :: "int \<Rightarrow> server_db \<Rightarrow> store_error + stored_user" where
  "row_by_id i db = (case List.find (\<lambda>u. pu_id u = i) (db_users db) of None \<Rightarrow> Inl NotFound | Some u \<Rightarrow> Inr u)"

definition row_by_username :: "string \<Rightarrow> server_db \<Rightarrow> store_error + stored_user" where
  "row_by_username n db =
     (case List.find (\<lambda>u. pu_username u = n) (db_users db) of None \<Rightarrow> Inl NotFound | Some u \<Rightarrow> Inr u)"

type_synonym ('a, 'r) handler = "store_error + 'a \<Rightarrow> (server_db, 'r) prog"

definition GetUserByID :: "int \<Rightarrow> (stored_user, 'r) handler \<Rightarrow> (server_db, 'r) prog" where
  "GetUserByID i k = step_then (select (row_by_id i)) k"

definition GetUserByUsername :: "string \<Rightarrow> (stored_user, 'r) handler \<Rightarrow> (server_db, 'r) prog" where
  "GetUserByUsername n k = step_then (select (row_by_username n)) k"

definition create_user :: "stored_user \<Rightarrow> credential \<Rightarrow> stored_user statement" where
  "create_user u initial = transaction (
     after (insert_user (u\<lparr>pu_protocols := stored_protocols (pu_protocols u)\<rparr>)) (\<lambda>i.
     after (insert_credential (initial\<lparr>cr_user_id := i, cr_created_at := pu_created_at u\<rparr>)) (\<lambda>_.
     Pair (Inr (u\<lparr>pu_id := i, pu_version := 1\<rparr>)))))"

definition CreateUser ::
  "stored_user \<Rightarrow> credential \<Rightarrow> (stored_user, 'r) handler \<Rightarrow> (server_db, 'r) prog" where
  "CreateUser u initial k =
     (if cr_user_id initial \<noteq> 0 \<and> cr_user_id initial \<noteq> pu_id u then k (Inl StoreFailure)
      else step_then (create_user u initial) k)"

record user_filter =
  uf_status :: "user_status option"
  uf_username :: string
  uf_before_id :: int
  uf_limit :: int
  uf_offset :: int

definition list_users :: "user_filter \<Rightarrow> stored_user list \<Rightarrow> stored_user list" where
  "list_users f us =
     (let lim = (if uf_limit f \<le> 0 \<or> 500 < uf_limit f then 100 else uf_limit f);
          hits = filter (\<lambda>u. (case uf_status f of None \<Rightarrow> True | Some s \<Rightarrow> pu_status u = s)
                   \<and> (uf_username f = [] \<or> pu_username u = uf_username f)
                   \<and> (uf_before_id f \<le> 0 \<or> pu_id u < uf_before_id f)) us
      in take (nat lim) (drop (nat (uf_offset f)) (rev (sort_key pu_id hits))))"

definition ListUsers :: "user_filter \<Rightarrow> (stored_user list, 'r) handler \<Rightarrow> (server_db, 'r) prog" where
  "ListUsers f k = step_then (select (\<lambda>db. Inr (list_users f (db_users db)))) k"

definition versionConflict :: "int \<Rightarrow> (store_error \<Rightarrow> (server_db, 'r) prog) \<Rightarrow> (server_db, 'r) prog" where
  \<comment> \<open>a row that is missing, or one that changed under us\<close>
  "versionConflict i k =
     step_then (select (row_by_id i)) (\<lambda>r. case r of Inl e \<Rightarrow> k e | Inr _ \<Rightarrow> k Conflict)"

definition written_by :: "stored_user \<Rightarrow> instant \<Rightarrow> stored_user \<Rightarrow> stored_user" where
  \<comment> \<open>the columns an \<open>UPDATE\<close> of a user writes\<close>
  "written_by u now v =
     v\<lparr>pu_protocols := stored_protocols (pu_protocols u), pu_download := pu_download u,
       pu_upload := pu_upload u, pu_max_connections := pu_max_connections u,
       pu_quota_daily := pu_quota_daily u, pu_quota_monthly := pu_quota_monthly u,
       pu_expires_at := pu_expires_at u, pu_version := pu_version v + 1, pu_updated_at := now\<rparr>"

definition at_version :: "int \<Rightarrow> int \<Rightarrow> stored_user \<Rightarrow> bool" where
  \<comment> \<open>\<open>WHERE id = ? AND version = ?\<close>\<close>
  "at_version i v u = (pu_id u = i \<and> pu_version u = v)"

definition write_user :: "stored_user \<Rightarrow> nat statement" where
  "write_user u db = update_users (at_version (pu_id u) (pu_version u)) (written_by u (db_clock db)) db"

definition UpdateUser :: "stored_user \<Rightarrow> (stored_user, 'r) handler \<Rightarrow> (server_db, 'r) prog" where
  "UpdateUser u k =
     step_then (write_user u) (\<lambda>r. case r of
       Inl e \<Rightarrow> k (Inl e)
     | Inr n \<Rightarrow> if n = 0 then versionConflict (pu_id u) (\<lambda>e. k (Inl e)) else GetUserByID (pu_id u) k)"

definition DeleteUser :: "int \<Rightarrow> (unit, 'r) handler \<Rightarrow> (server_db, 'r) prog" where
  "DeleteUser i k =
     step_then (delete_user i) (\<lambda>r. case r of
       Inl e \<Rightarrow> k (Inl e) | Inr n \<Rightarrow> if n = 0 then k (Inl NotFound) else k (Inr ()))"

definition write_status :: "int \<Rightarrow> user_status \<Rightarrow> int \<Rightarrow> nat statement" where
  "write_status i s v db = update_users (at_version i v)
     (\<lambda>u. u\<lparr>pu_status := s, pu_version := pu_version u + 1, pu_updated_at := db_clock db\<rparr>) db"

definition SetUserStatus ::
  "int \<Rightarrow> user_status \<Rightarrow> int \<Rightarrow> (stored_user, 'r) handler \<Rightarrow> (server_db, 'r) prog" where
  "SetUserStatus i s v k =
     step_then (write_status i s v) (\<lambda>r. case r of
       Inl e \<Rightarrow> k (Inl e)
     | Inr n \<Rightarrow> if n = 0 then versionConflict i (\<lambda>e. k (Inl e)) else GetUserByID i k)"

definition lapsed :: "instant \<Rightarrow> stored_user \<Rightarrow> bool" where
  \<comment> \<open>\<open>expires_at IS NOT NULL AND expires_at <= ?\<close>, on the text of the times\<close>
  "lapsed now u = (case pu_expires_at u of None \<Rightarrow> False | Some e \<Rightarrow> sql_time_le e now)"

definition sweep_statement :: "nat statement" where
  "sweep_statement db = update_users (\<lambda>u. pu_status u = Active \<and> lapsed (db_clock db) u)
     (\<lambda>u. u\<lparr>pu_status := Expired, pu_version := pu_version u + 1, pu_updated_at := db_clock db\<rparr>) db"

definition engine_rows :: "instant \<Rightarrow> server_db \<Rightarrow> (stored_user \<times> string) list" where
  \<comment> \<open>\<open>ListEngineUsers\<close>: active users that have not lapsed, with the hash of each active
    credential, by username\<close>
  "engine_rows now db =
     concat (List.map (\<lambda>u. List.map (\<lambda>c. (u, cr_engine_hash c))
         (filter (\<lambda>c. cr_user_id c = pu_id u \<and> cr_status c = CredentialActive) (db_creds db)))
       (sort_key pu_username (filter (\<lambda>u. pu_status u = Active \<and> \<not> lapsed now u) (db_users db))))"

section \<open>Credential repository\<close>

definition rotate_credential :: "int \<Rightarrow> credential \<Rightarrow> int \<Rightarrow> instant \<Rightarrow> unit statement" where
  "rotate_credential i next_cred v now = transaction (
     after (update_users (at_version i v) (\<lambda>u. u\<lparr>pu_version := pu_version u + 1, pu_updated_at := now\<rparr>)) (\<lambda>n.
     if n = 0 then
       after (select (row_by_id i)) (\<lambda>_. Pair (Inl Conflict))
     else
       after (revoke_credentials i now) (\<lambda>_.
       insert_credential (next_cred\<lparr>cr_user_id := i\<rparr>))))"

definition RotateCredential ::
  "int \<Rightarrow> credential \<Rightarrow> int \<Rightarrow> instant \<Rightarrow> (stored_user, 'r) handler \<Rightarrow> (server_db, 'r) prog" where
  "RotateCredential i next_cred v now k =
     (if cr_user_id next_cred \<noteq> 0 \<and> cr_user_id next_cred \<noteq> i then k (Inl StoreFailure)
      else step_then (rotate_credential i next_cred v now) (\<lambda>r. case r of
        Inl e \<Rightarrow> k (Inl e) | Inr _ \<Rightarrow> GetUserByID i k))"

definition active_credentials :: "int \<Rightarrow> server_db \<Rightarrow> credential list" where
  "active_credentials i db = filter (\<lambda>c. cr_user_id c = i \<and> cr_status c = CredentialActive) (db_creds db)"

definition GetActiveForUser :: "int \<Rightarrow> (credential, 'r) handler \<Rightarrow> (server_db, 'r) prog" where
  "GetActiveForUser i k = step_then (select (\<lambda>db.
     case rev (sort_key cr_id (active_credentials i db)) of [] \<Rightarrow> Inl NotFound | c # _ \<Rightarrow> Inr c)) k"

section \<open>Usage ledger\<close>

definition delete_usage :: "(ledger_row \<Rightarrow> bool) \<Rightarrow> nat statement" where
  "delete_usage P = sql (\<lambda>db. (Inr (length (filter P (db_usage db))),
     db\<lparr>db_usage := filter (\<lambda>r. \<not> P r) (db_usage db)\<rparr>))"

definition reset_usage :: "int \<Rightarrow> string \<Rightarrow> string \<Rightarrow> nat statement" where
  \<comment> \<open>\<open>ResetUsage\<close>; periods are compared as text\<close>
  "reset_usage i day month = transaction (
     after (delete_usage (\<lambda>r. lr_user_id r = i \<and> lr_granularity r = DayPeriod \<and> day \<le> lr_period_start r)) (\<lambda>n.
     after (delete_usage (\<lambda>r. lr_user_id r = i \<and> lr_granularity r = MonthPeriod \<and> month \<le> lr_period_start r)) (\<lambda>m.
     Pair (Inr (n + m)))))"

section \<open>Audit trail\<close>

definition truncate :: "string \<Rightarrow> string" where
  "truncate s = take 256 s"

definition record_audit :: "audit_row \<Rightarrow> unit statement" where
  \<comment> \<open>\<open>audit.Service.Record\<close> and the \<open>Record\<close> of the repository, which cuts the detail\<close>
  "record_audit e db =
     (if ar_action e = [] then (Inl StoreFailure, db)
      else sql (\<lambda>db. (Inr (), db\<lparr>db_audit := db_audit db @
             [e\<lparr>ar_timestamp := db_clock db,
                ar_actor := truncate (if ar_actor e = [] then ''unknown'' else ar_actor e),
                ar_action := truncate (ar_action e), ar_target := truncate (ar_target e),
                ar_result := truncate (ar_result e), ar_detail := take 2000 (ar_detail e)\<rparr>]\<rparr>)) db)"

end
