(* ===== verification/Engine.thy ===== *)
theory Engine
  imports JsText "HOL-Library.Word" "HOL-Library.List_Lexorder" "HOL-Library.Char_ord"
begin

text \<open>
  The contract between the server and the proxy: the desired state of \<open>internal/engine/engine.go\<close>
  with its validation, the password verifiers of \<open>threeproxy/crypt.go\<close> (BLAKE2b is an argument),
  and the configuration \<open>threeproxy/config.go\<close> renders. A configuration is text; it is built as
  lines. Paths are text in printable UTF-8, which \<open>strconv.Quote\<close> leaves as it is but for
  quotes and backslashes.
\<close>

section \<open>Usernames\<close>

definition MiB :: int where
  "MiB = 1048576"

definition username_punctuation :: "char \<Rightarrow> bool" where
  "username_punctuation c = (c = CHR ''.'' \<or> c = CHR ''_'' \<or> c = CHR ''-'')"

definition ValidateUsername :: "string \<Rightarrow> bool" where
  \<comment> \<open>whether there is no error\<close>
  "ValidateUsername s =
     (s \<noteq> [] \<and> length s \<le> 64 \<and> \<not> username_punctuation (hd s)
      \<and> list_all (\<lambda>c. alnum c \<or> username_punctuation c) s)"

section \<open>Password verifiers\<close>

definition itoa64 :: string where
  "itoa64 = ''./0123456789ABCDEFGHIJKLMNOPQRSTUVWXYZabcdefghijklmnopqrstuvwxyz''"

fun put_b64 :: "32 word \<Rightarrow> nat \<Rightarrow> string" where
  "put_b64 v 0 = []"
| "put_b64 v (Suc n) = itoa64 ! unat (take_bit 6 v) # put_b64 (drop_bit 6 v) n"

definition triple :: "8 word list \<Rightarrow> nat \<Rightarrow> nat \<Rightarrow> nat \<Rightarrow> 32 word" where
  \<comment> \<open>\<open>uint32(f[i])<<16 | uint32(f[j])<<8 | uint32(f[k])\<close>\<close>
  "triple f i j k = or (or (push_bit 16 (ucast (f ! i))) (push_bit 8 (ucast (f ! j)))) (ucast (f ! k))"

definition cryptB64 :: "8 word list \<Rightarrow> string" where
  "cryptB64 f =
     put_b64 (triple f 0 6 12) 4 @ put_b64 (triple f 1 7 13) 4 @ put_b64 (triple f 2 8 14) 4
     @ put_b64 (triple f 3 9 15) 4 @ put_b64 (triple f 4 10 5) 4 @ put_b64 (ucast (f ! 11)) 2"

definition CRHash :: "(string \<Rightarrow> 8 word list) \<Rightarrow> string \<Rightarrow> string \<Rightarrow> string" where
  "CRHash blake2b password salt = ''$3$'' @ salt @ ''$'' @ cryptB64 (blake2b (password @ [CHR 0x00] @ salt))"

definition saltAlphabet :: string where
  "saltAlphabet = ''ABCDEFGHIJKLMNOPQRSTUVWXYZabcdefghijklmnopqrstuvwxyz0123456789''"

definition NewSalt :: "8 word list \<Rightarrow> string" where
  \<comment> \<open>of sixteen random bytes\<close>
  "NewSalt buf = List.map (\<lambda>b. saltAlphabet ! (unat b mod length saltAlphabet)) (take 16 buf)"

definition NewEngineHash :: "(string \<Rightarrow> 8 word list) \<Rightarrow> 8 word list \<Rightarrow> string \<Rightarrow> string" where
  "NewEngineHash blake2b buf password = CRHash blake2b password (NewSalt buf)"

definition engineHashRe :: "string \<Rightarrow> bool" where
  \<comment> \<open>\<open>^\$3\$[A-Za-z0-9]{1,64}\$[./0-9A-Za-z]{22}$\<close>\<close>
  "engineHashRe s =
     (let r = drop 3 s; salt = takeWhile alnum r; rest = dropWhile alnum r
      in startsWith s ''$3$'' \<and> 1 \<le> length salt \<and> length salt \<le> 64 \<and> startsWith rest ''$''
         \<and> length (tl rest) = 22 \<and> list_all (\<lambda>c. c \<in> set itoa64) (tl rest))"

section \<open>Desired state\<close>

record engine_quota =
  eq_period :: string
  eq_limit :: int
  eq_direction :: string

record engine_user =
  eu_username :: string
  eu_hash :: string
  eu_record :: int
  eu_protocols :: "string list"
  eu_download :: int
  eu_upload :: int
  eu_quota :: "engine_quota option"

datatype engine_problem =
    EUsername | ERepeatedUsername | ERecord | ERepeatedRecord | ENegativeLimit
  | EProtocol | ERepeatedProtocol | EPeriod | EDirection | ESmallQuota

fun proto_problems :: "string list \<Rightarrow> string list \<Rightarrow> engine_problem list" where
  "proto_problems _ [] = []"
| "proto_problems seen (p # ps) =
     (if p = ''http'' \<or> p = ''socks5'' then [] else [EProtocol])
     @ (if p \<in> set seen then [ERepeatedProtocol] else []) @ proto_problems (p # seen) ps"

definition quota_problems :: "engine_quota \<Rightarrow> engine_problem list" where
  "quota_problems q =
     (if eq_period q \<in> {''daily'', ''weekly'', ''monthly''} then [] else [EPeriod])
     @ (if eq_direction q \<in> {''in'', ''out'', ''all''} then [] else [EDirection])
     @ (if eq_limit q < MiB then [ESmallQuota] else [])"

fun state_problems :: "string list \<Rightarrow> int list \<Rightarrow> engine_user list \<Rightarrow> engine_problem list" where
  \<comment> \<open>the loop of \<open>State.Validate\<close> with its \<open>seenNames\<close> and \<open>seenRecords\<close>\<close>
  "state_problems _ _ [] = []"
| "state_problems names records (u # us) =
     (if \<not> ValidateUsername (eu_username u) then [EUsername]
      else if eu_username u \<in> set names then [ERepeatedUsername] else [])
     @ (if eu_record u < 1 then [ERecord] else if eu_record u \<in> set records then [ERepeatedRecord] else [])
     @ (if eu_download u < 0 \<or> eu_upload u < 0 then [ENegativeLimit] else [])
     @ proto_problems [] (eu_protocols u)
     @ (case eu_quota u of None \<Rightarrow> [] | Some q \<Rightarrow> quota_problems q)
     @ state_problems (eu_username u # names) (eu_record u # records) us"

definition state_valid :: "engine_user list \<Rightarrow> bool" where
  "state_valid us = (state_problems [] [] us = [])"

section \<open>Settings\<close>

record settings =
  ConfigFile :: string
  PidFile :: string
  CounterFile :: string
  LogFile :: string
  HTTPPort :: int
  SOCKS5Port :: int
  MaxConns :: int
  Rotate_logs :: int
  Nameservers :: "string list"
  SetUID :: string
  SetGID :: string

fun fields_on :: "(char \<Rightarrow> bool) \<Rightarrow> string \<Rightarrow> string list" where
  \<comment> \<open>the pieces between separators, empty ones left out or not: only membership is asked\<close>
  "fields_on P [] = [[]]"
| "fields_on P (c # s) =
     (if P c then [] # fields_on P s
      else case fields_on P s of [] \<Rightarrow> [[c]] | p # ps \<Rightarrow> (c # p) # ps)"

definition hasTraversal :: "string \<Rightarrow> bool" where
  "hasTraversal p = (''..'' \<in> set (fields_on (\<lambda>c. c = CHR ''/'' \<or> c = CHR 0x5C) p))"

definition control_byte :: "char \<Rightarrow> bool" where
  "control_byte c = ((of_char c :: int) < 32 \<or> (of_char c :: int) = 127)"

definition path_valid :: "string \<Rightarrow> bool" where
  "path_valid p = (startsWith p ''/'' \<and> \<not> hasTraversal p \<and> \<not> list_ex control_byte p)"

definition validatePort :: "int \<Rightarrow> bool" where
  "validatePort p = (1 \<le> p \<and> p \<le> 65535)"

definition ipRe :: "string \<Rightarrow> bool" where
  \<comment> \<open>\<open>^[0-9a-fA-F:.]+$\<close>\<close>
  "ipRe s = (s \<noteq> [] \<and> list_all (\<lambda>c. c \<in> set ''0123456789abcdefABCDEF:.'') s)"

definition settings_valid :: "settings \<Rightarrow> bool" where
  "settings_valid st =
     (path_valid (ConfigFile st) \<and> path_valid (PidFile st) \<and> path_valid (CounterFile st) \<and> path_valid (LogFile st)
      \<and> validatePort (HTTPPort st) \<and> validatePort (SOCKS5Port st) \<and> HTTPPort st \<noteq> SOCKS5Port st
      \<and> 0 \<le> MaxConns st \<and> 0 \<le> Rotate_logs st \<and> list_all ipRe (Nameservers st))"

section \<open>Rendering\<close>

definition newline :: char where
  "newline = CHR 0x0A"

definition Quote :: "string \<Rightarrow> string" where
  \<comment> \<open>\<open>strconv.Quote\<close> of text without control bytes\<close>
  "Quote s = [CHR 0x22] @ concat (List.map (\<lambda>c. if c = CHR 0x22 \<or> c = CHR 0x5C then [CHR 0x5C, c] else [c]) s) @ [CHR 0x22]"

definition LogFormat :: string where
  "LogFormat = ''G%t.%. %N.%p %E %U %C:%c %R:%r %O %I %h %T''"

definition periodLetters :: "string \<Rightarrow> string" where
  "periodLetters p =
     (if p = ''daily'' then ''D'' else if p = ''weekly'' then ''W'' else if p = ''monthly'' then ''M'' else [])"

definition hasProtocol :: "engine_user \<Rightarrow> string \<Rightarrow> bool" where
  "hasProtocol u p = (p \<in> set (eu_protocols u))"

definition limit_lines :: "engine_user \<Rightarrow> string list" where
  "limit_lines u =
     (if 0 < eu_download u then [''bandlimin '' @ int_string (eu_download u) @ '' '' @ eu_username u] else [])
     @ (if 0 < eu_upload u then [''bandlimout '' @ int_string (eu_upload u) @ '' '' @ eu_username u] else [])
     @ (case eu_quota u of None \<Rightarrow> []
        | Some q \<Rightarrow> [''count'' @ eq_direction q @ '' '' @ int_string (eu_record u) @ '' '' @ periodLetters (eq_period q)
                     @ '' '' @ int_string (eq_limit q div MiB) @ '' '' @ eu_username u])"

definition service_lines :: "engine_user list \<Rightarrow> string \<Rightarrow> string \<Rightarrow> int \<Rightarrow> string \<Rightarrow> string list" where
  "service_lines us name directive port proto =
     [[], ''# --- '' @ name @ '' ---'', ''flush'']
     @ List.map (\<lambda>u. ''allow '' @ eu_username u) (filter (\<lambda>u. hasProtocol u proto) us)
     @ [directive @ '' -p'' @ int_string port]"

definition header_lines :: "string \<Rightarrow> settings \<Rightarrow> string list" where
  "header_lines buildinfo st =
     [''# Managed by xoxproxy '' @ [CHR 0xE2, CHR 0x80, CHR 0x94] @ '' DO NOT EDIT.'',
      ''# Regenerated and deployed by the control plane; manual changes are lost.'',
      ''# generated by '' @ buildinfo,
      ''config '' @ Quote (ConfigFile st),
      ''pidfile '' @ Quote (PidFile st)]
     @ (if SetGID st = [] then [] else [''setgid '' @ SetGID st])
     @ (if SetUID st = [] then [] else [''setuid '' @ SetUID st])
     @ List.map (\<lambda>ns. ''nserver '' @ ns) (Nameservers st)
     @ (if Nameservers st = [] then [] else [''nscache 65535'', ''nscache6 65535''])
     @ (if 0 < MaxConns st then [''maxconn '' @ int_string (MaxConns st)] else [])
     @ [''log '' @ Quote (LogFile st) @ '' D'']
     @ (if 0 < Rotate_logs st then [''rotate '' @ int_string (Rotate_logs st)] else [])
     @ [''logformat '' @ Quote LogFormat, ''counter '' @ Quote (CounterFile st)]"

definition account_lines :: "engine_user list \<Rightarrow> string list" where
  "account_lines us =
     [[], ''# --- accounts ---'', ''auth strong'']
     @ List.map (\<lambda>u. ''users '' @ Quote (eu_username u @ '':CR:'' @ eu_hash u)) us"

definition config_lines :: "string \<Rightarrow> engine_user list \<Rightarrow> settings \<Rightarrow> string list" where
  "config_lines buildinfo us st =
     header_lines buildinfo st @ account_lines us @ [[], ''# --- limits ---''] @ concat (List.map limit_lines us)
     @ service_lines us ''HTTP proxy'' ''proxy'' (HTTPPort st) ''http''
     @ service_lines us ''SOCKS5 proxy'' ''socks'' (SOCKS5Port st) ''socks5''"

definition unlines :: "string list \<Rightarrow> string" where
  "unlines ls = concat (List.map (\<lambda>l. l @ [newline]) ls)"

definition Render :: "string \<Rightarrow> engine_user list \<Rightarrow> settings \<Rightarrow> string option" where
  "Render buildinfo state st =
     (if \<not> settings_valid st then None
      else if \<not> state_valid state then None
      else let us = sort_key eu_username state
      in if list_all (\<lambda>u. engineHashRe (eu_hash u)) us then Some (unlines (config_lines buildinfo us st)) else None)"

section \<open>Reading a configuration back\<close>

text \<open>
  What a configuration grants a service: the names on the \<open>allow\<close> lines since the last
  \<open>flush\<close> before the line that starts the service.
\<close>

fun service_acl :: "string \<Rightarrow> string list \<Rightarrow> string list \<Rightarrow> string list" where
  "service_acl d acc [] = []"
| "service_acl d acc (l # ls) =
     (if l = ''flush'' then service_acl d [] ls
      else if startsWith l (d @ '' -p'') then acc
      else if startsWith l ''allow '' then service_acl d (acc @ [drop 6 l]) ls
      else service_acl d acc ls)"

definition acl :: "string \<Rightarrow> string \<Rightarrow> string list" where
  "acl d text = service_acl d [] (split_on newline text)"

section \<open>Verifiers have the shape the renderer asks for\<close>

lemma itoa64_nth: "unat (take_bit 6 (v :: 32 word)) < length itoa64"
proof -
  have "unat (take_bit 6 v) = unat v mod 2 ^ 6"
    unfolding unsigned_take_bit_eq by (simp add: take_bit_eq_mod)
  moreover have "length itoa64 = 2 ^ 6" by (simp add: itoa64_def)
  ultimately show ?thesis by simp
qed

lemma put_b64_chars: "length (put_b64 v n) = n" "c \<in> set (put_b64 v n) \<Longrightarrow> c \<in> set itoa64"
  by (induction v n rule: put_b64.induct) (auto intro: nth_mem itoa64_nth)

lemma cryptB64_chars: "length (cryptB64 f) = 22" "list_all (\<lambda>c. c \<in> set itoa64) (cryptB64 f)"
  by (auto simp: cryptB64_def put_b64_chars(1) list_all_iff dest: put_b64_chars(2))

lemma saltAlphabet_alnum: "list_all alnum saltAlphabet"
  by code_simp

lemma NewSalt_props:
  assumes "16 \<le> length buf"
  shows "length (NewSalt buf) = 16" "list_all alnum (NewSalt buf)"
proof -
  have "saltAlphabet ! (unat (b :: 8 word) mod length saltAlphabet) \<in> set saltAlphabet" for b
    by (rule nth_mem) (simp add: saltAlphabet_def)
  then show "length (NewSalt buf) = 16" "list_all alnum (NewSalt buf)"
    using assms saltAlphabet_alnum by (auto simp: NewSalt_def list_all_iff)
qed

lemma engineHashRe_CRHash:
  assumes "1 \<le> length salt" "length salt \<le> 64" "list_all alnum salt"
  shows "engineHashRe (CRHash blake2b password salt)"
proof -
  let ?r = "salt @ ''$'' @ cryptB64 (blake2b (password @ [CHR 0x00] @ salt))"
  have "\<not> alnum (hd (''$'' @ cryptB64 (blake2b (password @ [CHR 0x00] @ salt))))" by (simp add: alnum_def)
  then have "takeWhile alnum ?r = salt" "dropWhile alnum ?r = ''$'' @ cryptB64 (blake2b (password @ [CHR 0x00] @ salt))"
    using assms(3) by (auto intro!: takeWhile_append_stop dropWhile_append_stop simp: list_all_iff)
  then show ?thesis
    using assms cryptB64_chars by (simp add: engineHashRe_def CRHash_def startsWith_def Let_def)
qed

lemma engineHashRe_NewEngineHash:
  "16 \<le> length buf \<Longrightarrow> engineHashRe (NewEngineHash blake2b buf password)"
  unfolding NewEngineHash_def by (rule engineHashRe_CRHash) (simp_all add: NewSalt_props)

section \<open>Lines\<close>

lemma split_on_unlines:
  "\<forall>l \<in> set ls. newline \<notin> set l \<Longrightarrow> split_on newline (unlines ls) = ls @ [[]]"
proof (induction ls)
  case (Cons l ls)
  then show ?case using split_on_sep [of newline l "unlines ls"] by (simp add: unlines_def)
qed (simp add: unlines_def)

lemma service_acl_skip:
  "\<forall>l \<in> set pre. \<not> startsWith l (d @ '' -p'') \<Longrightarrow> \<exists>acc'. service_acl d acc (pre @ ls) = service_acl d acc' ls"
  by (induction pre arbitrary: acc) (auto split: if_splits)

lemma service_acl_service:
  assumes "d \<in> {''proxy'', ''socks''}"
  shows "service_acl d acc (List.map (\<lambda>u. ''allow '' @ eu_username u) us @ [d @ '' -p'' @ int_string port] @ ls)
     = acc @ List.map eu_username us"
  using assms by (induction us arbitrary: acc) (auto simp: startsWith_def)

lemma acl_of_service:
  assumes "\<forall>l \<in> set pre. \<not> startsWith l (d @ '' -p'')" "d \<in> {''proxy'', ''socks''}"
  shows "service_acl d [] (pre @ service_lines us name d port proto @ post)
     = List.map eu_username (filter (\<lambda>u. hasProtocol u proto) us)"
proof -
  let ?pre = "pre @ [[], ''# --- '' @ name @ '' ---'']"
  let ?post = "List.map (\<lambda>u. ''allow '' @ eu_username u) (filter (\<lambda>u. hasProtocol u proto) us)
        @ [d @ '' -p'' @ int_string port] @ post"
  have "\<forall>l \<in> set ?pre. \<not> startsWith l (d @ '' -p'')"
    using assms by (auto simp: startsWith_def)
  then obtain acc where "service_acl d [] (?pre @ ''flush'' # ?post) = service_acl d acc (''flush'' # ?post)"
    using service_acl_skip by blast
  then show ?thesis
    using service_acl_service [OF assms(2), of "[]" "filter (\<lambda>u. hasProtocol u proto) us" port post]
    by (simp add: service_lines_def)
qed

section \<open>Valid states\<close>

definition engine_user_ok :: "engine_user \<Rightarrow> bool" where
  "engine_user_ok u =
     (ValidateUsername (eu_username u) \<and> 1 \<le> eu_record u \<and> 0 \<le> eu_download u \<and> 0 \<le> eu_upload u
      \<and> set (eu_protocols u) \<subseteq> {''http'', ''socks5''} \<and> distinct (eu_protocols u)
      \<and> (case eu_quota u of None \<Rightarrow> True
         | Some q \<Rightarrow> eq_period q \<in> {''daily'', ''weekly'', ''monthly''} \<and> eq_direction q \<in> {''in'', ''out'', ''all''}
             \<and> MiB \<le> eq_limit q))"

lemma proto_problems_Nil:
  "proto_problems seen ps = [] \<longleftrightarrow>
     set ps \<subseteq> {''http'', ''socks5''} \<and> distinct ps \<and> set ps \<inter> set seen = {}"
  by (induction seen ps rule: proto_problems.induct) (auto split: if_splits)

lemma quota_problems_Nil:
  "quota_problems q = [] \<longleftrightarrow> eq_period q \<in> {''daily'', ''weekly'', ''monthly''}
     \<and> eq_direction q \<in> {''in'', ''out'', ''all''} \<and> MiB \<le> eq_limit q"
  by (simp add: quota_problems_def not_less)

lemma state_problems_Nil:
  "state_problems names records us = [] \<longleftrightarrow>
     (\<forall>u \<in> set us. engine_user_ok u)
     \<and> distinct (List.map eu_username us) \<and> set names \<inter> eu_username ` set us = {}
     \<and> distinct (List.map eu_record us) \<and> set records \<inter> eu_record ` set us = {}"
proof (induction names records us rule: state_problems.induct)
  case (2 names records u us)
  have q: "(case eu_quota u of None \<Rightarrow> [] | Some q \<Rightarrow> quota_problems q) = [] \<longleftrightarrow>
      (case eu_quota u of None \<Rightarrow> True | Some q \<Rightarrow> eq_period q \<in> {''daily'', ''weekly'', ''monthly''}
         \<and> eq_direction q \<in> {''in'', ''out'', ''all''} \<and> MiB \<le> eq_limit q)"
    by (simp only: quota_problems_Nil split: option.split) simp
  have "state_problems names records (u # us) = [] \<longleftrightarrow>
      engine_user_ok u \<and> eu_username u \<notin> set names \<and> eu_record u \<notin> set records
      \<and> state_problems (eu_username u # names) (eu_record u # records) us = []"
    by (simp only: state_problems.simps append_is_Nil_conv q proto_problems_Nil engine_user_ok_def) (simp add: not_less)
  then show ?case unfolding 2 by auto
qed simp

lemma state_valid_iff:
  "state_valid us \<longleftrightarrow> (\<forall>u \<in> set us. engine_user_ok u)
     \<and> distinct (List.map eu_username us) \<and> distinct (List.map eu_record us)"
  by (simp add: state_valid_def state_problems_Nil)

section \<open>A line holds no line break\<close>

lemma newline_in_int_string [simp]: "newline \<notin> set (int_string n)"
proof -
  have "\<not> is_digit newline" "newline \<noteq> CHR ''-''" by code_simp+
  moreover have "newline \<notin> set (digits k)" if "0 \<le> k" for k
    using digits_are_digits [OF that] calculation(1) by blast
  ultimately show ?thesis by (simp add: int_string_def)
qed

lemma newline_in_Quote: "newline \<notin> set s \<Longrightarrow> newline \<notin> set (Quote s)"
  by (auto simp: Quote_def newline_def split: if_splits)

lemma newline_in_username: "ValidateUsername s \<Longrightarrow> newline \<notin> set s"
  by (auto simp: ValidateUsername_def list_all_iff newline_def alnum_def username_punctuation_def)

lemma newline_in_hash:
  assumes "engineHashRe s"
  shows "newline \<notin> set s"
proof -
  let ?r = "drop 3 s"
  have "newline \<notin> set itoa64" "newline \<notin> set ''$''" "newline \<notin> set ''$3$''" by code_simp+
  note n = this
  have "newline \<notin> set (takeWhile alnum ?r)" by (auto dest!: set_takeWhileD simp: newline_def alnum_def)
  moreover have "newline \<notin> set (dropWhile alnum ?r)"
  proof (cases "dropWhile alnum ?r")
    case (Cons c cs)
    then have "c = CHR ''$''" "list_all (\<lambda>c. c \<in> set itoa64) cs"
      using assms by (simp_all add: engineHashRe_def Let_def startsWith_def)
    then show ?thesis using n Cons by (auto simp: list_all_iff)
  next
    case Nil
    then show ?thesis by (simp only: list.set) simp
  qed
  moreover have "take 3 s = ''$3$''"
    using assms by (simp add: engineHashRe_def Let_def startsWith_def eval_nat_numeral)
  then have "newline \<notin> set (take 3 s)" using n(3) by simp
  moreover have "s = take 3 s @ takeWhile alnum ?r @ dropWhile alnum ?r" by simp
  ultimately show ?thesis by (metis Un_iff set_append)
qed

lemma newline_in_path: "path_valid p \<Longrightarrow> newline \<notin> set p"
  by (auto simp: path_valid_def list_ex_iff control_byte_def newline_def)

lemma newline_in_ip: "ipRe s \<Longrightarrow> newline \<notin> set s"
proof -
  have "newline \<notin> set ''0123456789abcdefABCDEF:.''" by code_simp
  then show "ipRe s \<Longrightarrow> newline \<notin> set s" by (auto simp only: ipRe_def list_all_iff)
qed

section \<open>What a rendered configuration grants\<close>

definition plain_settings :: "string \<Rightarrow> settings \<Rightarrow> bool" where
  \<comment> \<open>the three texts that are rendered without a check hold no line break\<close>
  "plain_settings buildinfo st = (newline \<notin> set buildinfo \<and> newline \<notin> set (SetUID st) \<and> newline \<notin> set (SetGID st))"

lemma Render_Some:
  assumes "Render buildinfo state st = Some text"
  shows "settings_valid st" "state_valid state" "\<forall>u \<in> set state. engineHashRe (eu_hash u)"
    "text = unlines (config_lines buildinfo (sort_key eu_username state) st)"
  using assms by (auto simp: Render_def Let_def list_all_iff split: if_splits)

lemma newline_free_header:
  assumes "settings_valid st" "plain_settings buildinfo st" "l \<in> set (header_lines buildinfo st)"
  shows "newline \<notin> set l"
proof -
  have n: "newline \<notin> set (Quote (ConfigFile st))" "newline \<notin> set (Quote (PidFile st))"
    "newline \<notin> set (Quote (LogFile st))" "newline \<notin> set (Quote (CounterFile st))"
    using assms(1) by (simp_all add: settings_valid_def newline_in_Quote newline_in_path)
  have ns: "\<forall>x \<in> set (Nameservers st). newline \<notin> set x"
    using assms(1) by (auto simp: settings_valid_def list_all_iff dest: newline_in_ip)
  have q: "newline \<notin> set (Quote LogFormat)" by code_simp
  show ?thesis
    using assms(3) assms(2)[unfolded plain_settings_def] n ns q newline_in_int_string
    unfolding header_lines_def set_append set_map
    by (elim UnE) (auto simp: newline_def split: if_splits)
qed

lemma newline_free_limits:
  assumes "engine_user_ok u" "l \<in> set (limit_lines u)"
  shows "newline \<notin> set l"
proof -
  have "newline \<notin> set (eu_username u)" using assms(1) by (simp add: engine_user_ok_def newline_in_username)
  moreover have "newline \<notin> set (periodLetters p)" for p by (simp add: periodLetters_def newline_def)
  moreover have "newline \<notin> set (eq_direction q)" if "eu_quota u = Some q" for q
    using assms(1) that by (auto simp: engine_user_ok_def newline_def)
  ultimately show ?thesis
    using assms(2) newline_in_int_string unfolding limit_lines_def set_append
    by (elim UnE) (auto simp: newline_def split: if_splits option.splits)
qed

lemma newline_free_service:
  assumes "\<forall>u \<in> set us. engine_user_ok u" "newline \<notin> set name" "newline \<notin> set d"
    and "l \<in> set (service_lines us name d port proto)"
  shows "newline \<notin> set l"
proof -
  have "\<forall>u \<in> set us. newline \<notin> set (eu_username u)"
    using assms(1) by (auto simp: engine_user_ok_def newline_in_username)
  then show ?thesis
    using assms(2-4) newline_in_int_string unfolding service_lines_def set_append
    by (elim UnE) (auto simp: newline_def)
qed

lemma newline_free_accounts:
  assumes "\<forall>u \<in> set us. engine_user_ok u \<and> engineHashRe (eu_hash u)" "l \<in> set (account_lines us)"
  shows "newline \<notin> set l"
proof -
  have "newline \<notin> set (Quote (eu_username u @ '':CR:'' @ eu_hash u))" if "u \<in> set us" for u
    using assms(1) that
    by (intro newline_in_Quote) (auto simp: engine_user_ok_def newline_in_username newline_in_hash, simp_all add: newline_def)
  then show ?thesis using assms(2) unfolding account_lines_def set_append
    by (elim UnE) (auto simp: newline_def)
qed

lemma newline_free_config:
  assumes "settings_valid st" "plain_settings buildinfo st" "\<forall>u \<in> set us. engine_user_ok u \<and> engineHashRe (eu_hash u)"
  shows "\<forall>l \<in> set (config_lines buildinfo us st). newline \<notin> set l"
proof -
  have "newline \<notin> set ''HTTP proxy''" "newline \<notin> set ''proxy''" "newline \<notin> set ''SOCKS5 proxy''" "newline \<notin> set ''socks''"
    "newline \<notin> set ''# --- limits ---''" by code_simp+
  note n = this
  have ok: "\<forall>u \<in> set us. engine_user_ok u" using assms(3) by simp
  show ?thesis
    unfolding config_lines_def
  proof (intro ballI, unfold set_append Un_iff, elim disjE)
    fix l
    show "l \<in> set (header_lines buildinfo st) \<Longrightarrow> newline \<notin> set l" by (rule newline_free_header [OF assms(1,2)])
    show "l \<in> set (account_lines us) \<Longrightarrow> newline \<notin> set l" by (rule newline_free_accounts [OF assms(3)])
    show "l \<in> set [[], ''# --- limits ---''] \<Longrightarrow> newline \<notin> set l" using n(5) by auto
    show "l \<in> set (concat (List.map limit_lines us)) \<Longrightarrow> newline \<notin> set l"
      using ok newline_free_limits by (auto simp only: set_concat set_map)
    show "l \<in> set (service_lines us ''HTTP proxy'' ''proxy'' (HTTPPort st) ''http'') \<Longrightarrow> newline \<notin> set l"
      by (rule newline_free_service [OF ok n(1,2)])
    show "l \<in> set (service_lines us ''SOCKS5 proxy'' ''socks'' (SOCKS5Port st) ''socks5'') \<Longrightarrow> newline \<notin> set l"
      by (rule newline_free_service [OF ok n(3,4)])
  qed
qed

lemma header_starts:
  assumes "d \<in> {''proxy'', ''socks''}" "l \<in> set (header_lines buildinfo st @ account_lines us)"
  shows "\<not> startsWith l (d @ '' -p'')"
  using assms unfolding header_lines_def account_lines_def set_append set_map
  by (elim insertE emptyE UnE) (auto simp: startsWith_def split: if_splits)

lemma limits_start:
  assumes "d \<in> {''proxy'', ''socks''}" "l \<in> set (limit_lines u)"
  shows "\<not> startsWith l (d @ '' -p'')"
  using assms by (auto simp: limit_lines_def startsWith_def split: if_splits option.splits)

lemma service_starts:
  assumes "l \<in> set (service_lines us ''HTTP proxy'' ''proxy'' port proto)"
  shows "\<not> startsWith l (''socks'' @ '' -p'')"
  using assms by (auto simp: service_lines_def startsWith_def)

lemma acl_Render:
  assumes "Render buildinfo state st = Some text" "plain_settings buildinfo st"
  shows "acl ''proxy'' text = List.map eu_username (filter (\<lambda>u. hasProtocol u ''http'') (sort_key eu_username state))"
    and "acl ''socks'' text = List.map eu_username (filter (\<lambda>u. hasProtocol u ''socks5'') (sort_key eu_username state))"
proof -
  let ?us = "sort_key eu_username state"
  let ?pre = "header_lines buildinfo st @ account_lines ?us @ [[], ''# --- limits ---''] @ concat (List.map limit_lines ?us)"
  let ?http = "service_lines ?us ''HTTP proxy'' ''proxy'' (HTTPPort st) ''http''"
  let ?socks = "service_lines ?us ''SOCKS5 proxy'' ''socks'' (SOCKS5Port st) ''socks5''"
  note r = Render_Some [OF assms(1)]
  have "\<forall>u \<in> set ?us. engine_user_ok u \<and> engineHashRe (eu_hash u)"
    using r(2,3) by (auto simp: state_valid_iff)
  then have t: "split_on newline text = ?pre @ ?http @ ?socks @ [[]]"
    unfolding r(4) using split_on_unlines [OF newline_free_config [OF r(1) assms(2)]] by (simp add: config_lines_def)
  have p: "\<forall>l \<in> set ?pre. \<not> startsWith l (d @ '' -p'')" if "d \<in> {''proxy'', ''socks''}" for d
    using header_starts [OF that] limits_start [OF that] that by (auto simp: startsWith_def)
  show "acl ''proxy'' text = List.map eu_username (filter (\<lambda>u. hasProtocol u ''http'') ?us)"
    unfolding acl_def t by (rule acl_of_service [OF p]) simp_all
  have "\<forall>l \<in> set (?pre @ ?http). \<not> startsWith l (''socks'' @ '' -p'')"
    using p [of "''socks''"] service_starts by auto
  then show "acl ''socks'' text = List.map eu_username (filter (\<lambda>u. hasProtocol u ''socks5'') ?us)"
    using acl_of_service [of "?pre @ ?http" "''socks''"] unfolding acl_def t by simp
qed

end
