(* ===== verification/UserService.thy ===== *)
theory UserService
  imports UserStore Engine
begin

text \<open>
  The user service of the server, \<open>internal/users/service.go\<close>: validation, the operations on
  proxy users, their audit entries and the notifications that trigger a deployment. An
  operation is a program over the store; hashing and the random source are a \<open>crypto\<close>
  argument. Text is a list of bytes; letters are folded in ASCII.
\<close>

section \<open>Validation\<close>

datatype problem =
    BadUsername
  | NoProtocol
  | UnknownProtocol string
  | RepeatedProtocol string
  | NegativeLimit string
  | SmallQuota string
  | PastExpiry
  | BadPassword

definition validProtocols :: "string \<Rightarrow> bool" where
  "validProtocols p = (p = ''http'' \<or> p = ''socks5'')"

fun protocol_problems :: "string list \<Rightarrow> string list \<Rightarrow> problem list" where
  "protocol_problems _ [] = []"
| "protocol_problems seen (p # ps) =
     (if validProtocols p then [] else [UnknownProtocol p])
     @ (if p \<in> set seen then [RepeatedProtocol p] else []) @ protocol_problems (p # seen) ps"

definition validateProtocols :: "string list \<Rightarrow> problem list" where
  "validateProtocols ps = (if ps = [] then [NoProtocol] else protocol_problems [] ps)"

definition validateLimits :: "int \<Rightarrow> int \<Rightarrow> int \<Rightarrow> int \<Rightarrow> int \<Rightarrow> problem list" where
  \<comment> \<open>the code walks two maps; the order of its messages is not fixed\<close>
  "validateLimits download upload conns daily monthly =
     List.map (\<lambda>(n, v). NegativeLimit n)
       (filter (\<lambda>(n, v). v < 0)
         [(''download_limit_bps'', download), (''upload_limit_bps'', upload), (''max_connections'', conns)])
     @ List.map (\<lambda>(n, v). SmallQuota n)
       (filter (\<lambda>(n, v). v \<noteq> 0 \<and> v < MiB)
         [(''quota_bytes_daily'', daily), (''quota_bytes_monthly'', monthly)])"

definition lower :: "char \<Rightarrow> char" where
  "lower c = (let n = (of_char c :: int) in if 65 \<le> n \<and> n \<le> 90 then char_of (n + 32) else c)"

definition toLower :: "string \<Rightarrow> string" where
  "toLower = List.map lower"

fun contains :: "string \<Rightarrow> string \<Rightarrow> bool" where
  "contains [] p = (p = [])"
| "contains (c # s) p = (startsWith (c # s) p \<or> contains s p)"

definition validatePassword :: "string \<Rightarrow> string \<Rightarrow> bool" where
  \<comment> \<open>whether the policy for passwords of proxy users accepts\<close>
  "validatePassword password username =
     (8 \<le> length password \<and> length password \<le> 256
      \<and> \<not> (3 \<le> length username \<and> contains (toLower password) (toLower username)))"

section \<open>Inputs and results\<close>

record create_input =
  ci_username :: string
  ci_password :: string
  ci_protocols :: "string list"
  ci_download :: int
  ci_upload :: int
  ci_max_connections :: int
  ci_quota_daily :: int
  ci_quota_monthly :: int
  ci_expires_at :: "instant option"

record update_input =
  ui_version :: int
  ui_protocols :: "string list option"
  ui_download :: "int option"
  ui_upload :: "int option"
  ui_max_connections :: "int option"
  ui_quota_daily :: "int option"
  ui_quota_monthly :: "int option"
  ui_expires_at :: "instant option"
  ui_clear_expiration :: bool

record actor =
  ac_name :: string
  ac_request_id :: string
  ac_source_ip :: string
  ac_user_agent :: string

datatype service_error =
    Missing \<comment> \<open>\<open>store.ErrNotFound\<close>\<close>
  | UsernameTaken
  | VersionConflict
  | ExpiredUser
  | InvalidInput "problem list"
  | WeakPassword
  | Internal \<comment> \<open>any other error\<close>

datatype reply =
    UserReply stored_user
  | SecretReply stored_user string \<comment> \<open>with the password, this once\<close>
  | ListReply "stored_user list"
  | CountReply nat
  | DoneReply

type_synonym request = "(server_db, service_error + reply) prog"

record crypto =
  newEngineHash :: "string \<Rightarrow> string option"
  newAPIHash :: "string \<Rightarrow> string option"
  generatePassword :: string

fun from_store :: "store_error \<Rightarrow> service_error" where
  "from_store NotFound = Missing"
| "from_store _ = Internal"

definition validateNew :: "instant \<Rightarrow> create_input \<Rightarrow> problem list" where
  "validateNew now i =
     (if ValidateUsername (ci_username i) then [] else [BadUsername])
     @ validateProtocols (ci_protocols i)
     @ validateLimits (ci_download i) (ci_upload i) (ci_max_connections i) (ci_quota_daily i) (ci_quota_monthly i)
     @ (case ci_expires_at i of None \<Rightarrow> [] | Some e \<Rightarrow> if now < e then [] else [PastExpiry])
     @ (if ci_password i = [] \<or> validatePassword (ci_password i) (ci_username i) then [] else [BadPassword])"

definition validateMutated :: "stored_user \<Rightarrow> problem list" where
  "validateMutated u =
     validateProtocols (pu_protocols u)
     @ validateLimits (pu_download u) (pu_upload u) (pu_max_connections u) (pu_quota_daily u) (pu_quota_monthly u)"

section \<open>Audit and notification\<close>

definition auditAction ::
  "actor \<Rightarrow> string \<Rightarrow> string \<Rightarrow> string \<Rightarrow> string \<Rightarrow> request \<Rightarrow> request" where
  \<comment> \<open>an entry that cannot be written does not fail the operation; \<open>Record\<close> sets the time\<close>
  "auditAction a action target result detail k =
     step_then (record_audit \<lparr>ar_timestamp = 0, ar_actor = ac_name a, ar_action = action, ar_target = target,
       ar_request_id = ac_request_id a, ar_source_ip = ac_source_ip a, ar_user_agent = ac_user_agent a,
       ar_result = result, ar_detail = detail\<rparr>) (\<lambda>_. k)"

definition notify :: "string \<Rightarrow> string \<Rightarrow> request \<Rightarrow> request" where
  "notify actor_name reason k =
     step_then (\<lambda>db. ((), db\<lparr>db_hooks := db_hooks db @ [(actor_name, reason)]\<rparr>)) (\<lambda>_. k)"

definition with_now :: "(instant \<Rightarrow> request) \<Rightarrow> request" where
  "with_now k = step_then (\<lambda>db. (db_clock db, db)) k"

definition sameProtocols :: "string list \<Rightarrow> string list \<Rightarrow> bool" where
  "sameProtocols a b = (length a = length b \<and> sort a = sort b)"

definition updateSummary :: "stored_user \<Rightarrow> stored_user \<Rightarrow> string" where
  "updateSummary b a =
     (let arrow = (\<lambda>f. int_string (f b) @ ''->'' @ int_string (f a));
          parts = (if pu_download b \<noteq> pu_download a then [''download '' @ arrow pu_download @ '' bps''] else [])
            @ (if pu_upload b \<noteq> pu_upload a then [''upload '' @ arrow pu_upload @ '' bps''] else [])
            @ (if pu_max_connections b \<noteq> pu_max_connections a then [''max_connections '' @ arrow pu_max_connections] else [])
            @ (if pu_quota_daily b \<noteq> pu_quota_daily a then [''daily quota '' @ arrow pu_quota_daily @ '' bytes''] else [])
            @ (if pu_quota_monthly b \<noteq> pu_quota_monthly a then [''monthly quota '' @ arrow pu_quota_monthly @ '' bytes''] else [])
            @ (if sameProtocols (pu_protocols b) (pu_protocols a) then []
               else [''protocols ['' @ join '' '' (pu_protocols a) @ '']''])
            @ (if pu_expires_at b = pu_expires_at a then [] else [''expiry changed''])
      in if parts = [] then ''no field changes'' else join '', '' parts)"

section \<open>Operations\<close>

definition create_reply :: "actor \<Rightarrow> string \<Rightarrow> string \<Rightarrow> store_error + stored_user \<Rightarrow> request" where
  "create_reply a username password r = (case r of
     Inl Conflict \<Rightarrow> auditAction a ''user.create'' username ''failure'' ''username taken''
       (Done (Inl UsernameTaken))
   | Inl e \<Rightarrow> Done (Inl (from_store e))
   | Inr created \<Rightarrow> auditAction a ''user.create'' username ''success'' []
       (notify (ac_name a) (''user.create:'' @ username) (Done (Inr (SecretReply created password)))))"

definition Create :: "crypto \<Rightarrow> create_input \<Rightarrow> actor \<Rightarrow> request" where
  "Create c i a = with_now (\<lambda>checked.
     if validateNew checked i \<noteq> [] then Done (Inl (InvalidInput (validateNew checked i)))
     else let password = (if ci_password i = [] then generatePassword c else ci_password i)
     in case (newEngineHash c password, newAPIHash c password) of
       (Some engineHash, Some apiHash) \<Rightarrow> with_now (\<lambda>now.
         CreateUser \<lparr>pu_id = 0, pu_server_id = ''local'', pu_username = ci_username i, pu_status = Active,
             pu_protocols = ci_protocols i, pu_download = ci_download i, pu_upload = ci_upload i,
             pu_max_connections = ci_max_connections i, pu_quota_daily = ci_quota_daily i,
             pu_quota_monthly = ci_quota_monthly i, pu_expires_at = ci_expires_at i, pu_version = 0,
             pu_created_at = now, pu_updated_at = now, pu_last_seen_at = None\<rparr>
           \<lparr>cr_id = 0, cr_user_id = 0, cr_engine_hash = engineHash, cr_api_hash = apiHash,
             cr_status = CredentialActive, cr_created_at = now, cr_rotated_at = None\<rparr>
           (create_reply a (ci_username i) password))
     | _ \<Rightarrow> Done (Inl Internal))"

definition Get :: "int \<Rightarrow> request" where
  "Get i = GetUserByID i (\<lambda>r. case r of Inl e \<Rightarrow> Done (Inl (from_store e)) | Inr u \<Rightarrow> Done (Inr (UserReply u)))"

definition List_users :: "user_filter \<Rightarrow> request" where
  "List_users f = ListUsers f (\<lambda>r. case r of Inl e \<Rightarrow> Done (Inl (from_store e)) | Inr us \<Rightarrow> Done (Inr (ListReply us)))"

definition merge_update :: "update_input \<Rightarrow> stored_user \<Rightarrow> stored_user" where
  "merge_update i u =
     u\<lparr>pu_protocols := coalesce (ui_protocols i) (pu_protocols u),
       pu_download := coalesce (ui_download i) (pu_download u),
       pu_upload := coalesce (ui_upload i) (pu_upload u),
       pu_max_connections := coalesce (ui_max_connections i) (pu_max_connections u),
       pu_quota_daily := coalesce (ui_quota_daily i) (pu_quota_daily u),
       pu_quota_monthly := coalesce (ui_quota_monthly i) (pu_quota_monthly u),
       pu_expires_at := (if ui_clear_expiration i then None
          else case ui_expires_at i of None \<Rightarrow> pu_expires_at u | Some e \<Rightarrow> Some e)\<rparr>"

definition update_reply :: "actor \<Rightarrow> stored_user \<Rightarrow> store_error + stored_user \<Rightarrow> request" where
  "update_reply a current r = (case r of
     Inl Conflict \<Rightarrow> auditAction a ''user.update'' (pu_username current) ''failure'' ''version conflict''
       (Done (Inl VersionConflict))
   | Inl e \<Rightarrow> Done (Inl (from_store e))
   | Inr updated \<Rightarrow> auditAction a ''user.update'' (pu_username current) ''success'' (updateSummary current updated)
       (notify (ac_name a) (''user.update:'' @ pu_username current) (Done (Inr (UserReply updated)))))"

definition Update :: "int \<Rightarrow> update_input \<Rightarrow> actor \<Rightarrow> request" where
  "Update uid i a = GetUserByID uid (\<lambda>r. case r of
     Inl e \<Rightarrow> Done (Inl (from_store e))
   | Inr current \<Rightarrow>
       if ui_version i = 0 \<or> ui_version i \<noteq> pu_version current then Done (Inl VersionConflict)
       else let new = merge_update i current
       in if validateMutated new \<noteq> [] then Done (Inl (InvalidInput (validateMutated new)))
       else UpdateUser new (update_reply a current))"

definition Delete :: "int \<Rightarrow> actor \<Rightarrow> request" where
  "Delete i a = GetUserByID i (\<lambda>r. case r of
     Inl e \<Rightarrow> Done (Inl (from_store e))
   | Inr current \<Rightarrow> DeleteUser i (\<lambda>r. case r of
       Inl e \<Rightarrow> Done (Inl (from_store e))
     | Inr _ \<Rightarrow> auditAction a ''user.delete'' (pu_username current) ''success'' []
         (notify (ac_name a) (''user.delete:'' @ pu_username current) (Done (Inr DoneReply)))))"

definition rotate_reply :: "actor \<Rightarrow> stored_user \<Rightarrow> string \<Rightarrow> store_error + stored_user \<Rightarrow> request" where
  "rotate_reply a current password r = (case r of
     Inl Conflict \<Rightarrow> auditAction a ''user.rotate_credentials'' (pu_username current) ''failure'' ''version conflict''
       (Done (Inl VersionConflict))
   | Inl e \<Rightarrow> Done (Inl (from_store e))
   | Inr updated \<Rightarrow> auditAction a ''user.rotate_credentials'' (pu_username current) ''success'' []
       (notify (ac_name a) (''user.rotate_credentials:'' @ pu_username current)
         (Done (Inr (SecretReply updated password)))))"

definition RotateCredentials :: "crypto \<Rightarrow> int \<Rightarrow> string \<Rightarrow> actor \<Rightarrow> request" where
  "RotateCredentials c i given a = GetUserByID i (\<lambda>r. case r of
     Inl e \<Rightarrow> Done (Inl (from_store e))
   | Inr current \<Rightarrow>
       if given \<noteq> [] \<and> \<not> validatePassword given (pu_username current) then Done (Inl WeakPassword)
       else let password = (if given = [] then generatePassword c else given)
       in case (newEngineHash c password, newAPIHash c password) of
         (Some engineHash, Some apiHash) \<Rightarrow> with_now (\<lambda>created. with_now (\<lambda>now.
           RotateCredential i \<lparr>cr_id = 0, cr_user_id = 0, cr_engine_hash = engineHash, cr_api_hash = apiHash,
               cr_status = CredentialActive, cr_created_at = created, cr_rotated_at = None\<rparr>
             (pu_version current) now (rotate_reply a current password)))
       | _ \<Rightarrow> Done (Inl Internal))"

definition transition_reply :: "actor \<Rightarrow> string \<Rightarrow> stored_user \<Rightarrow> store_error + stored_user \<Rightarrow> request" where
  "transition_reply a action current r = (case r of
     Inl Conflict \<Rightarrow> auditAction a action (pu_username current) ''failure'' ''version conflict''
       (Done (Inl VersionConflict))
   | Inl e \<Rightarrow> Done (Inl (from_store e))
   | Inr updated \<Rightarrow> auditAction a action (pu_username current) ''success'' []
       (notify (ac_name a) (action @ '':'' @ pu_username current) (Done (Inr (UserReply updated)))))"

definition transition :: "int \<Rightarrow> user_status \<Rightarrow> int \<Rightarrow> actor \<Rightarrow> string \<Rightarrow> request" where
  "transition i st v a action = GetUserByID i (\<lambda>r. case r of
     Inl e \<Rightarrow> Done (Inl (from_store e))
   | Inr current \<Rightarrow> SetUserStatus i st v (transition_reply a action current))"

definition Disable_user :: "int \<Rightarrow> int \<Rightarrow> actor \<Rightarrow> request" where
  "Disable_user i v a = transition i Disabled v a ''user.disable''"

definition Enable_user :: "int \<Rightarrow> int \<Rightarrow> actor \<Rightarrow> request" where
  "Enable_user i v a = GetUserByID i (\<lambda>r. case r of
     Inl e \<Rightarrow> Done (Inl (from_store e))
   | Inr current \<Rightarrow> with_now (\<lambda>now.
       if (case pu_expires_at current of None \<Rightarrow> False | Some e \<Rightarrow> e \<le> now) then Done (Inl ExpiredUser)
       else transition i Active v a ''user.enable''))"

definition ResetQuota :: "int \<Rightarrow> actor \<Rightarrow> request" where
  "ResetQuota i a = GetUserByID i (\<lambda>r. case r of
     Inl e \<Rightarrow> Done (Inl (from_store e))
   | Inr current \<Rightarrow> with_now (\<lambda>now.
       step_then (reset_usage i (go_day now) (go_month now)) (\<lambda>r. case r of
         Inl e \<Rightarrow> Done (Inl (from_store e))
       | Inr n \<Rightarrow> auditAction a ''user.reset_quota'' (pu_username current) ''success''
           (digits (int n) @ '' ledger rows'') (Done (Inr (UserReply current))))))"

definition SweepExpired :: request where
  "SweepExpired = step_then sweep_statement (\<lambda>r. case r of
     Inl e \<Rightarrow> Done (Inl (from_store e))
   | Inr n \<Rightarrow>
       if n = 0 then Done (Inr (CountReply n))
       else auditAction \<lparr>ac_name = ''system'', ac_request_id = [], ac_source_ip = [], ac_user_agent = []\<rparr>
         ''user.expire_sweep'' [] ''success'' (''expired '' @ digits (int n) @ '' user(s)'')
         (notify ''system'' ''expiry-sweep'' (Done (Inr (CountReply n)))))"

end
