(* ===== verification/UserInvariant.thy ===== *)
theory UserInvariant
  imports UserService
begin

text \<open>
  What every statement of the user service keeps of the store, alone and in any interleaving of
  requests: the invariant \<open>store_ok\<close>, and the guarantee \<open>store_rely\<close> that a version names one
  content of a row, that versions grow, and that ids are not given twice.
\<close>

section \<open>Invariant and guarantee\<close>

definition user_ok :: "stored_user \<Rightarrow> bool" where
  "user_ok u = (ValidateUsername (pu_username u) \<and> validateMutated u = [] \<and> 1 \<le> pu_version u)"

definition store_ok :: "server_db \<Rightarrow> bool" where
  "store_ok db =
     ((\<forall>u \<in> set (db_users db). user_ok u \<and> 1 \<le> pu_id u \<and> pu_id u \<le> db_user_seq db
         \<and> length (active_credentials (pu_id u) db) = 1)
      \<and> distinct (List.map pu_id (db_users db)) \<and> distinct (List.map pu_username (db_users db))
      \<and> (\<forall>c \<in> set (db_creds db). cr_user_id c \<in> pu_id ` set (db_users db) \<and> engineHashRe (cr_engine_hash c))
      \<and> 0 \<le> db_user_seq db)"

definition same_row :: "stored_user \<Rightarrow> stored_user \<Rightarrow> bool" where
  \<comment> \<open>equal but for \<open>last_seen_at\<close>, which is written without a new version\<close>
  "same_row u v = (v = u\<lparr>pu_last_seen_at := pu_last_seen_at v\<rparr>)"

definition newer :: "stored_user \<Rightarrow> stored_user \<Rightarrow> bool" where
  "newer u v = (pu_username v = pu_username u \<and> (pu_version u < pu_version v \<or> same_row u v))"

definition store_rely :: "server_db \<Rightarrow> server_db \<Rightarrow> bool" where
  "store_rely db db' =
     (db_user_seq db \<le> db_user_seq db'
      \<and> (\<forall>v \<in> set (db_users db'). pu_id v \<le> db_user_seq db \<longrightarrow>
           (\<exists>u \<in> set (db_users db). pu_id u = pu_id v)
           \<and> (\<forall>u \<in> set (db_users db). pu_id u = pu_id v \<longrightarrow> newer u v)))"

definition same_tables :: "server_db \<Rightarrow> server_db \<Rightarrow> bool" where
  "same_tables db db' =
     (db_users db' = db_users db \<and> db_creds db' = db_creds db \<and> db_user_seq db' = db_user_seq db)"

lemma same_row_refl [simp]: "same_row u u"
  by (simp add: same_row_def)

lemma same_row_version: "same_row u v \<Longrightarrow> pu_version v = pu_version u"
  unfolding same_row_def by (metis stored_user.select_convs(12) stored_user.surjective stored_user.update_convs(15))

lemma same_row_trans: "same_row u v \<Longrightarrow> same_row v w \<Longrightarrow> same_row u w"
  by (cases u, cases v, cases w) (simp add: same_row_def)

lemma newer_refl [simp]: "newer u u"
  by (simp add: newer_def)

lemma newer_version: "newer u v \<Longrightarrow> pu_version u \<le> pu_version v"
  by (auto simp: newer_def dest: same_row_version)

lemma newer_trans: "newer u v \<Longrightarrow> newer v w \<Longrightarrow> newer u w"
  by (auto simp: newer_def dest: same_row_version intro: same_row_trans)

lemma same_tables_refl [simp]: "same_tables db db"
  by (simp add: same_tables_def)

lemma same_tables_trans: "same_tables a b \<Longrightarrow> same_tables b c \<Longrightarrow> same_tables a c"
  by (simp add: same_tables_def)

lemma row_unique:
  assumes "store_ok db" "u \<in> set (db_users db)" "v \<in> set (db_users db)" "pu_id u = pu_id v"
  shows "u = v"
proof -
  have "inj_on pu_id (set (db_users db))" using assms(1) by (simp add: store_ok_def distinct_map)
  then show ?thesis using assms(2-4) by (metis inj_onD)
qed

lemma store_rely_refl: "store_ok db \<Longrightarrow> store_rely db db"
  using row_unique newer_refl unfolding store_rely_def by blast

lemma store_rely_trans:
  assumes ab: "store_rely a b" and bc: "store_rely b c"
  shows "store_rely a c"
  unfolding store_rely_def
proof (intro conjI ballI impI)
  show "db_user_seq a \<le> db_user_seq c" using assms by (simp add: store_rely_def)
next
  fix w assume w: "w \<in> set (db_users c)" "pu_id w \<le> db_user_seq a"
  then have "pu_id w \<le> db_user_seq b" using ab by (simp add: store_rely_def)
  then obtain v where v: "v \<in> set (db_users b)" "pu_id v = pu_id w" "newer v w"
    using bc w by (auto simp: store_rely_def)
  then show "\<exists>u \<in> set (db_users a). pu_id u = pu_id w"
    using ab w unfolding store_rely_def by metis
  fix u assume u: "u \<in> set (db_users a)" "pu_id u = pu_id w"
  then have "newer u v" using ab v w by (auto simp: store_rely_def)
  then show "newer u w" using v(3) by (rule newer_trans)
qed

interpretation requests: interleaving store_ok store_rely
  by unfold_locales (auto intro: store_rely_refl store_rely_trans)

lemma same_tables_ok: "same_tables db db' \<Longrightarrow> store_ok db' = store_ok db"
  by (simp add: same_tables_def store_ok_def active_credentials_def)

lemma same_tables_rely: "same_tables db db' \<Longrightarrow> store_ok db \<Longrightarrow> store_rely db db'"
  using store_rely_refl by (simp add: same_tables_def store_rely_def)

lemmas same_tablesI = same_tables_ok same_tables_rely

section \<open>Statements and transactions\<close>

lemma sql_cases:
  assumes "sql f db = (r, db')"
  obtains fs where "r = Inl StoreFailure" "db' = db\<lparr>db_faults := fs\<rparr>"
  | fs where "f (db\<lparr>db_faults := fs\<rparr>) = (r, db')"
proof (cases "db_faults db")
  case Nil
  then have eq: "db\<lparr>db_faults := []\<rparr> = db" by (cases db) simp
  have "f db = (r, db')" using assms Nil by (simp add: sql_def)
  then show ?thesis using that(2) [of "[]"] unfolding eq by blast
next
  case (Cons b bs)
  then show ?thesis using assms that by (auto simp: sql_def split: if_splits)
qed

lemma after_cases:
  assumes "after m k db = (r, db')"
  obtains e where "m db = (Inl e, db')" "r = Inl e"
  | x d where "m db = (Inr x, d)" "k x d = (r, db')"
  using assms by (auto simp: after_def split: prod.splits sum.splits)

lemma begin_commit_cases:
  assumes "begin_commit db = (r, db')"
  obtains fs where "db' = db\<lparr>db_faults := fs\<rparr>"
  using assms unfolding begin_commit_def by (auto elim!: sql_cases)

lemma transaction_cases:
  assumes "transaction body db = (r, db')"
  obtains e where "r = Inl e" "same_tables db db'"
  | x fs fs' d where "r = Inr x" "body (db\<lparr>db_faults := fs\<rparr>) = (Inr x, d)" "db' = d\<lparr>db_faults := fs'\<rparr>"
proof -
  obtain q d where q: "after begin_commit (\<lambda>_. after body (\<lambda>x. after begin_commit (\<lambda>_. Pair (Inr x)))) db = (q, d)"
    by fastforce
  show ?thesis
  proof (cases q)
    case (Inl e)
    then have "r = Inl e" "same_tables db db'" using assms q by (auto simp: transaction_def same_tables_def)
    then show ?thesis by (rule that(1))
  next
    case (Inr x)
    then have r: "r = Inr x" "db' = d" using assms q by (simp_all add: transaction_def)
    from q Inr show ?thesis
      by (elim after_cases begin_commit_cases) (use r that(2) in auto)
  qed
qed

lemma select_cases:
  assumes "select q db = (r, db')"
  shows "same_tables db db'" "r = Inl StoreFailure \<or> r = q db'"
  using assms unfolding select_def by (auto elim!: sql_cases simp: same_tables_def)

lemma update_users_cases:
  assumes "update_users P f db = (r, db')"
  obtains "r = Inl StoreFailure" "same_tables db db'"
  | "r = Inr (length (filter P (db_users db)))" "db_creds db' = db_creds db" "db_user_seq db' = db_user_seq db"
    "db_users db' = List.map (\<lambda>u. if P u then f u else u) (db_users db)"
  using assms unfolding update_users_def by (auto elim!: sql_cases simp: same_tables_def)

section \<open>Changes of the tables\<close>

definition keeps_identity :: "(stored_user \<Rightarrow> stored_user) \<Rightarrow> bool" where
  "keeps_identity f = (\<forall>u. pu_id (f u) = pu_id u \<and> pu_username (f u) = pu_username u)"

lemma keeps_identity_ids: "keeps_identity f \<Longrightarrow> pu_id ` f ` A = pu_id ` A"
  by (simp add: keeps_identity_def image_image)

lemma map_users_ok:
  assumes ok: "store_ok db" and f: "keeps_identity f" "\<And>u. u \<in> set (db_users db) \<Longrightarrow> user_ok (f u)"
    and db': "db_users db' = List.map f (db_users db)" "db_creds db' = db_creds db" "db_user_seq db' = db_user_seq db"
  shows "store_ok db'"
proof -
  have "pu_id ` set (List.map f (db_users db)) = pu_id ` set (db_users db)"
    using keeps_identity_ids [OF f(1)] by simp
  moreover have "pu_id \<circ> f = pu_id" "pu_username \<circ> f = pu_username"
    using f(1) by (auto simp: keeps_identity_def)
  ultimately show ?thesis
    using ok f unfolding store_ok_def active_credentials_def db' by (auto simp: keeps_identity_def)
qed

lemma map_users_rely:
  assumes ok: "store_ok db" and f: "keeps_identity f" "\<And>u. u \<in> set (db_users db) \<Longrightarrow> newer u (f u)"
    and db': "db_users db' = List.map f (db_users db)" "db_user_seq db' = db_user_seq db"
  shows "store_rely db db'"
  unfolding store_rely_def db'
proof (intro conjI ballI impI)
  fix v assume "v \<in> set (List.map f (db_users db))"
  then obtain u where u: "u \<in> set (db_users db)" "v = f u" by auto
  then show "\<exists>u \<in> set (db_users db). pu_id u = pu_id v" using f(1) by (auto simp: keeps_identity_def)
  fix w assume "w \<in> set (db_users db)" "pu_id w = pu_id v"
  then have "w = u" using u f(1) row_unique [OF ok] by (auto simp: keeps_identity_def)
  then show "newer w v" using u f(2) by simp
qed simp

section \<open>Each statement keeps the invariant\<close>

definition keeps :: "'a statement \<Rightarrow> bool" where
  "keeps m = (\<forall>db r db'. store_ok db \<longrightarrow> m db = (r, db') \<longrightarrow> store_ok db' \<and> store_rely db db')"

lemma keepsI:
  "(\<And>db r db'. store_ok db \<Longrightarrow> m db = (r, db') \<Longrightarrow> store_ok db' \<and> store_rely db db') \<Longrightarrow> keeps m"
  by (simp add: keeps_def)

lemma keeps_same: "(\<And>db r db'. m db = (r, db') \<Longrightarrow> same_tables db db') \<Longrightarrow> keeps m"
  using same_tablesI by (blast intro: keepsI)

lemma same_select: "select q db = (r, db') \<Longrightarrow> same_tables db db'"
  by (rule select_cases)

lemma same_record_audit: "record_audit e db = (r, db') \<Longrightarrow> same_tables db db'"
  unfolding record_audit_def by (auto elim!: sql_cases simp: same_tables_def split: if_splits)

lemma same_delete_usage: "delete_usage Q db = (r, db') \<Longrightarrow> same_tables db db'"
  unfolding delete_usage_def by (auto elim!: sql_cases simp: same_tables_def)

lemma same_reset_usage:
  assumes "reset_usage i day month db = (r, db')"
  shows "same_tables db db'"
  using assms unfolding reset_usage_def
proof (rule transaction_cases)
  fix x fs fs' d
  let ?m = "after (delete_usage (\<lambda>r. lr_user_id r = i \<and> lr_granularity r = DayPeriod \<and> day \<le> lr_period_start r)) (\<lambda>n.
     after (delete_usage (\<lambda>r. lr_user_id r = i \<and> lr_granularity r = MonthPeriod \<and> month \<le> lr_period_start r)) (\<lambda>m.
     Pair (Inr (n + m))))"
  assume m: "?m (db\<lparr>db_faults := fs\<rparr>) = (Inr x, d)" and d: "db' = d\<lparr>db_faults := fs'\<rparr>"
  have "same_tables (db\<lparr>db_faults := fs\<rparr>) d"
    using m by (elim after_cases) (auto dest!: same_delete_usage intro: same_tables_trans)
  then show ?thesis using d by (simp add: same_tables_def)
qed

lemma keeps_update_users:
  assumes "keeps_identity f" "\<And>u. store_ok db \<Longrightarrow> u \<in> set (db_users db) \<Longrightarrow> P u \<Longrightarrow> user_ok (f u) \<and> newer u (f u)"
    and "store_ok db" "update_users P f db = (r, db')"
  shows "store_ok db' \<and> store_rely db db'"
  using assms(4)
proof (cases rule: update_users_cases)
  case 1
  then show ?thesis using assms(3) same_tablesI by blast
next
  case 2
  let ?f = "\<lambda>u. if P u then f u else u"
  have i: "keeps_identity ?f" using assms(1) by (simp add: keeps_identity_def)
  have o: "user_ok (?f u) \<and> newer u (?f u)" if "u \<in> set (db_users db)" for u
    using assms(2,3) that by (auto simp: store_ok_def)
  show ?thesis
    using map_users_ok [OF assms(3) i _ 2(4,2,3)] map_users_rely [OF assms(3) i _ 2(4,3)] o by blast
qed

lemma protocol_problems_Nil:
  "protocol_problems seen ps = [] \<longleftrightarrow> (\<forall>p \<in> set ps. validProtocols p) \<and> distinct ps \<and> set ps \<inter> set seen = {}"
  by (induction seen ps rule: protocol_problems.induct) auto

lemma validateProtocols_Nil:
  "validateProtocols ps = [] \<longleftrightarrow> ps \<noteq> [] \<and> set ps \<subseteq> {''http'', ''socks5''} \<and> distinct ps"
  by (auto simp: validateProtocols_def protocol_problems_Nil validProtocols_def)

lemma stored_protocols_id:
  assumes "validateProtocols ps = []"
  shows "stored_protocols ps = ps"
proof -
  have ps: "ps \<noteq> []" "set ps \<subseteq> {''http'', ''socks5''}" using assms by (auto simp: validateProtocols_Nil)
  then have "\<forall>p \<in> set ps. CHR '','' \<notin> set p" by auto
  moreover have "joinProtocols ps \<noteq> []"
    using ps by (cases ps rule: remdups_adj.cases) (auto simp: joinProtocols_def)
  ultimately show ?thesis
    using ps(1) split_on_join [of ps "CHR '',''"] by (simp add: stored_protocols_def splitProtocols_def joinProtocols_def)
qed

lemma validateMutated_cong:
  assumes "pu_protocols v = pu_protocols u" "pu_download v = pu_download u" "pu_upload v = pu_upload u"
    "pu_max_connections v = pu_max_connections u" "pu_quota_daily v = pu_quota_daily u" "pu_quota_monthly v = pu_quota_monthly u"
  shows "validateMutated v = validateMutated u"
  using assms by (simp add: validateMutated_def)

lemma user_ok_written:
  assumes "validateMutated u = []" "user_ok v"
  shows "user_ok (written_by u now v)"
proof -
  have "stored_protocols (pu_protocols u) = pu_protocols u"
    using assms(1) by (intro stored_protocols_id) (simp add: validateMutated_def)
  then have "validateMutated (written_by u now v) = validateMutated u"
    by (intro validateMutated_cong) (simp_all add: written_by_def)
  then show ?thesis using assms by (simp add: user_ok_def) (simp add: written_by_def)
qed

lemma keeps_write_user: "validateMutated u = [] \<Longrightarrow> keeps (write_user u)"
  unfolding write_user_def
  by (rule keepsI, erule (1) keeps_update_users [rotated 2])
    (auto simp: keeps_identity_def written_by_def [symmetric] at_version_def newer_def intro!: user_ok_written
       simp: store_ok_def, simp_all add: written_by_def)

lemma keeps_bump:
  \<comment> \<open>a new version that changes neither name nor limits\<close>
  assumes "\<And>u. pu_id (f u) = pu_id u \<and> pu_username (f u) = pu_username u \<and> pu_version (f u) = pu_version u + 1
      \<and> validateMutated (f u) = validateMutated u"
    and "store_ok db" "update_users P f db = (r, db')"
  shows "store_ok db' \<and> store_rely db db'"
  using assms(2,3)
  by (rule keeps_update_users [rotated 2]) (use assms(1) in \<open>auto simp: keeps_identity_def newer_def user_ok_def store_ok_def\<close>)

lemma keeps_write_status: "keeps (write_status i s v)"
  unfolding write_status_def by (rule keepsI, erule (1) keeps_bump [rotated]) (simp add: validateMutated_def)

lemma keeps_sweep: "keeps sweep_statement"
  unfolding sweep_statement_def by (rule keepsI, erule (1) keeps_bump [rotated]) (simp add: validateMutated_def)

lemma delete_user_cases:
  assumes "delete_user i db = (r, db')"
  obtains "r = Inl StoreFailure" "same_tables db db'"
  | "r = Inr (length (filter (\<lambda>u. pu_id u = i) (db_users db)))" "db_user_seq db' = db_user_seq db"
    "db_users db' = filter (\<lambda>u. pu_id u \<noteq> i) (db_users db)" "db_creds db' = filter (\<lambda>c. cr_user_id c \<noteq> i) (db_creds db)"
  using assms unfolding delete_user_def by (auto elim!: sql_cases simp: same_tables_def)

lemma keeps_delete_user: "keeps (delete_user i)"
proof (rule keepsI)
  fix db r db' assume ok: "store_ok db" and "delete_user i db = (r, db')"
  from this(2) show "store_ok db' \<and> store_rely db db'"
  proof (cases rule: delete_user_cases)
    case 1
    then show ?thesis using ok same_tablesI by blast
  next
    case 2
    have a: "active_credentials (pu_id u) db' = active_credentials (pu_id u) db" if "pu_id u \<noteq> i" for u
      using that by (auto simp: active_credentials_def 2 intro: filter_cong)
    have "store_ok db'"
      using ok unfolding store_ok_def 2 by (auto simp: distinct_map_filter a)
    moreover have "store_rely db db'" using store_rely_refl [OF ok] by (auto simp: store_rely_def 2)
    ultimately show ?thesis ..
  qed
qed

lemma insert_user_cases:
  assumes "insert_user u db = (r, db')"
  obtains e where "r = Inl e"
  | fs where "r = Inr (db_user_seq db + 1)" "\<forall>v \<in> set (db_users db). pu_username v \<noteq> pu_username u"
    "db' = db\<lparr>db_faults := fs, db_user_seq := db_user_seq db + 1,
      db_users := db_users db @ [u\<lparr>pu_id := db_user_seq db + 1, pu_version := 1, pu_last_seen_at := None\<rparr>]\<rparr>"
proof (cases rule: sql_cases [OF assms [unfolded insert_user_def]])
  case 1
  then show ?thesis using that(1) by blast
next
  case (2 fs)
  show ?thesis
  proof (cases "(\<exists>v \<in> set (db_users db). pu_username v = pu_username u) \<or> 2 ^ 63 - 1 \<le> db_user_seq db")
    case True
    then show ?thesis using 2 that(1) by (auto split: if_splits)
  next
    case False
    then have "r = Inr (db_user_seq db + 1)" "db' = db\<lparr>db_faults := fs, db_user_seq := db_user_seq db + 1,
        db_users := db_users db @ [u\<lparr>pu_id := db_user_seq db + 1, pu_version := 1, pu_last_seen_at := None\<rparr>]\<rparr>"
      using 2 by (simp_all add: Let_def)
    then show ?thesis using False that(2) by blast
  qed
qed

lemma insert_credential_cases:
  assumes "insert_credential c db = (r, db')"
  obtains e where "r = Inl e"
  | fs where "r = Inr ()" "db' = db\<lparr>db_faults := fs, db_cred_seq := db_cred_seq db + 1,
      db_creds := db_creds db @ [c\<lparr>cr_id := db_cred_seq db + 1, cr_status := CredentialActive, cr_rotated_at := None\<rparr>]\<rparr>"
proof (cases rule: sql_cases [OF assms [unfolded insert_credential_def]])
  case 1
  then show ?thesis using that(1) by blast
next
  case (2 fs)
  show ?thesis
  proof (cases "2 ^ 63 - 1 \<le> db_cred_seq db")
    case True
    then show ?thesis using 2 that(1) by (auto split: if_splits)
  next
    case False
    then have "r = Inr ()" "db' = db\<lparr>db_faults := fs, db_cred_seq := db_cred_seq db + 1,
        db_creds := db_creds db @ [c\<lparr>cr_id := db_cred_seq db + 1, cr_status := CredentialActive, cr_rotated_at := None\<rparr>]\<rparr>"
      using 2 by (simp_all add: Let_def)
    then show ?thesis by (rule that(2))
  qed
qed

lemma revoke_credentials_cases:
  assumes "revoke_credentials i now db = (r, db')"
  obtains e where "r = Inl e"
  | fs where "r = Inr ()" "db' = db\<lparr>db_faults := fs, db_creds := List.map (revoked_by i now) (db_creds db)\<rparr>"
proof (cases rule: sql_cases [OF assms [unfolded revoke_credentials_def]])
  case 1
  then show ?thesis using that(1) by blast
next
  case (2 fs)
  then have "r = Inr ()" "db' = db\<lparr>db_faults := fs, db_creds := List.map (revoked_by i now) (db_creds db)\<rparr>"
    by simp_all
  then show ?thesis by (rule that(2))
qed

text \<open>A creation is all or nothing: a refused one leaves no row, an accepted one leaves both.\<close>

lemma create_user_cases:
  assumes "create_user u c db = (r, db')"
  obtains e where "r = Inl e" "same_tables db db'"
  | "r = Inr (u\<lparr>pu_id := db_user_seq db + 1, pu_version := 1\<rparr>)"
    "\<forall>v \<in> set (db_users db). pu_username v \<noteq> pu_username u"
    "db_user_seq db' = db_user_seq db + 1"
    "db_users db' = db_users db @ [u\<lparr>pu_protocols := stored_protocols (pu_protocols u), pu_id := db_user_seq db + 1,
       pu_version := 1, pu_last_seen_at := None\<rparr>]"
    "db_creds db' = db_creds db @ [c\<lparr>cr_user_id := db_user_seq db + 1, cr_created_at := pu_created_at u,
       cr_id := db_cred_seq db + 1, cr_status := CredentialActive, cr_rotated_at := None\<rparr>]"
proof (cases rule: transaction_cases [OF assms [unfolded create_user_def]])
  case (1 e)
  then show ?thesis by (rule that(1))
next
  case (2 x fs fs' d)
  obtain i db1 where 1: "insert_user (u\<lparr>pu_protocols := stored_protocols (pu_protocols u)\<rparr>) (db\<lparr>db_faults := fs\<rparr>) = (Inr i, db1)"
    and rest: "after (insert_credential (c\<lparr>cr_user_id := i, cr_created_at := pu_created_at u\<rparr>))
      (\<lambda>_. Pair (Inr (u\<lparr>pu_id := i, pu_version := 1\<rparr>))) db1 = (Inr x, d)"
    using 2(2) by (auto elim: after_cases)
  then obtain db2 where 2: "insert_credential (c\<lparr>cr_user_id := i, cr_created_at := pu_created_at u\<rparr>) db1 = (Inr (), db2)"
    and x: "x = u\<lparr>pu_id := i, pu_version := 1\<rparr>" "d = db2"
    by (auto elim: after_cases)
  from 1 show ?thesis
  proof (cases rule: insert_user_cases)
    case u: (2 fs1)
    from 2 show ?thesis
    proof (cases rule: insert_credential_cases)
      case (2 fs2)
      then show ?thesis using u x \<open>r = Inr x\<close> \<open>db' = d\<lparr>db_faults := fs'\<rparr>\<close> by (intro that(2)) simp_all
    qed simp
  qed simp
qed

text \<open>A rotation is all or nothing: the new version, the revocation and the new credential together.\<close>

lemma rotate_credential_cases:
  assumes "rotate_credential i c v now db = (r, db')"
  obtains e where "r = Inl e" "same_tables db db'"
  | "r = Inr ()" "\<exists>u \<in> set (db_users db). at_version i v u" "db_user_seq db' = db_user_seq db"
    "db_users db' = List.map (\<lambda>u. if at_version i v u then u\<lparr>pu_version := pu_version u + 1, pu_updated_at := now\<rparr> else u) (db_users db)"
    "db_creds db' = List.map (revoked_by i now) (db_creds db)
       @ [c\<lparr>cr_user_id := i, cr_id := db_cred_seq db + 1, cr_status := CredentialActive, cr_rotated_at := None\<rparr>]"
proof (cases rule: transaction_cases [OF assms [unfolded rotate_credential_def]])
  case (1 e)
  then show ?thesis by (rule that(1))
next
  case (2 x fs fs' d)
  let ?db = "db\<lparr>db_faults := fs\<rparr>"
  let ?f = "\<lambda>u. u\<lparr>pu_version := pu_version u + 1, pu_updated_at := now\<rparr>"
  obtain n db1 where 1: "update_users (at_version i v) ?f ?db = (Inr n, db1)"
    and rest: "(if n = 0 then after (select (row_by_id i)) (\<lambda>_. Pair (Inl Conflict))
      else after (revoke_credentials i now) (\<lambda>_. insert_credential (c\<lparr>cr_user_id := i\<rparr>))) db1 = (Inr x, d)"
    using 2(2) by (auto elim: after_cases)
  have n: "n \<noteq> 0" using rest by (auto elim!: after_cases split: if_splits)
  obtain db2 where 2: "revoke_credentials i now db1 = (Inr (), db2)" "insert_credential (c\<lparr>cr_user_id := i\<rparr>) db2 = (Inr x, d)"
    using rest n by (auto elim: after_cases)
  obtain fs1 where u: "n = length (filter (at_version i v) (db_users db))"
    "db1 = ?db\<lparr>db_faults := fs1, db_users := List.map (\<lambda>u. if at_version i v u then ?f u else u) (db_users db)\<rparr>"
    using 1 unfolding update_users_def by (auto elim!: sql_cases)
  from 2(1) obtain fs2 where r: "db2 = db1\<lparr>db_faults := fs2, db_creds := List.map (revoked_by i now) (db_creds db1)\<rparr>"
    by (cases rule: revoke_credentials_cases) auto
  from 2(2) show ?thesis
  proof (cases rule: insert_credential_cases)
    case (2 fs3)
    have "\<exists>u \<in> set (db_users db). at_version i v u"
      using n u(1) by (metis filter_False length_0_conv)
    then show ?thesis using u(2) r 2 \<open>r = Inr x\<close> \<open>db' = d\<lparr>db_faults := fs'\<rparr>\<close> by (intro that(2)) simp_all
  qed simp
qed

lemma active_after_rotation:
  assumes "db_creds db' = List.map (revoked_by i now) (db_creds db) @ [c]" "cr_user_id c = i" "cr_status c = CredentialActive"
  shows "active_credentials j db' = (if j = i then [c] else active_credentials j db)"
proof -
  have "filter (\<lambda>c. cr_user_id c = j \<and> cr_status c = CredentialActive) (List.map (revoked_by i now) cs)
      = (if j = i then [] else filter (\<lambda>c. cr_user_id c = j \<and> cr_status c = CredentialActive) cs)" for cs
    by (induction cs) (auto simp: revoked_by_def)
  then show ?thesis using assms by (auto simp: active_credentials_def)
qed

lemma keeps_rotate:
  assumes "engineHashRe (cr_engine_hash c)"
  shows "keeps (rotate_credential i c v now)"
proof (rule keepsI)
  fix db r db' assume ok: "store_ok db" and "rotate_credential i c v now db = (r, db')"
  from this(2) show "store_ok db' \<and> store_rely db db'"
  proof (cases rule: rotate_credential_cases)
    case 1
    then show ?thesis using ok same_tablesI by blast
  next
    case 2
    define f where "f = (\<lambda>u. if at_version i v u then u\<lparr>pu_version := pu_version u + 1, pu_updated_at := now\<rparr> else u)"
    let ?mid = "db\<lparr>db_users := List.map f (db_users db)\<rparr>"
    note 2 = 2 [folded f_def]
    have f: "keeps_identity f" by (simp add: keeps_identity_def f_def)
    have g: "user_ok (f u) \<and> newer u (f u)" if "u \<in> set (db_users db)" for u
      using ok that by (auto simp: store_ok_def user_ok_def newer_def validateMutated_def f_def)
    have mid: "store_ok ?mid" by (rule map_users_ok [OF ok f]) (use g in simp_all)
    have "store_rely db db'" by (rule map_users_rely [OF ok f]) (use g 2 in simp_all)
    moreover have "store_ok db'"
    proof -
      have a: "active_credentials j db' = (if j = i then [c\<lparr>cr_user_id := i, cr_id := db_cred_seq db + 1,
          cr_status := CredentialActive, cr_rotated_at := None\<rparr>] else active_credentials j ?mid)" for j
        using active_after_rotation [OF 2(5), of j] by (simp add: active_credentials_def)
      have u: "db_users db' = db_users ?mid" "db_user_seq db' = db_user_seq ?mid" using 2 by simp_all
      have "pu_id ` set (db_users ?mid) = pu_id ` set (db_users db)"
        using keeps_identity_ids [OF f] by simp
      then have "i \<in> pu_id ` set (db_users ?mid)" using 2(2) by (auto simp: at_version_def)
      then have "\<forall>x \<in> set (db_creds db'). cr_user_id x \<in> pu_id ` set (db_users ?mid) \<and> engineHashRe (cr_engine_hash x)"
        using mid assms unfolding 2(5) by (auto simp: store_ok_def revoked_by_def)
      then show ?thesis using mid unfolding store_ok_def u by (simp add: a)
    qed
    ultimately show ?thesis by simp
  qed
qed

lemma keeps_create:
  assumes "engineHashRe (cr_engine_hash c)" "ValidateUsername (pu_username u)" "validateMutated u = []"
  shows "keeps (create_user u c)"
proof (rule keepsI)
  fix db r db' assume ok: "store_ok db" and "create_user u c db = (r, db')"
  from this(2) show "store_ok db' \<and> store_rely db db'"
  proof (cases rule: create_user_cases)
    case 1
    then show ?thesis using ok same_tablesI by blast
  next
    case 2
    let ?n = "db_user_seq db + 1"
    let ?u = "u\<lparr>pu_protocols := stored_protocols (pu_protocols u), pu_id := ?n, pu_version := 1, pu_last_seen_at := None\<rparr>"
    let ?c = "c\<lparr>cr_user_id := ?n, cr_created_at := pu_created_at u, cr_id := db_cred_seq db + 1,
      cr_status := CredentialActive, cr_rotated_at := None\<rparr>"
    have "stored_protocols (pu_protocols u) = pu_protocols u"
      using assms(3) by (intro stored_protocols_id) (simp add: validateMutated_def)
    then have u: "user_ok ?u" using assms(2,3) by (simp add: user_ok_def validateMutated_def)
    have old: "pu_id v \<noteq> ?n" if "v \<in> set (db_users db)" for v using ok that by (auto simp: store_ok_def)
    have creds: "cr_user_id x \<noteq> ?n" if "x \<in> set (db_creds db)" for x
      using ok that old by (force simp: store_ok_def)
    have a: "active_credentials j db' = (if j = ?n then [?c] else active_credentials j db)" for j
      using creds unfolding active_credentials_def 2(5) by (auto simp: filter_empty_conv)
    have "store_ok db'"
      using ok u 2(2) old assms(1) unfolding store_ok_def a 2(3-5) by (auto simp: less_imp_le)
    moreover have "store_rely db db'"
      using store_rely_refl [OF ok] by (auto simp: store_rely_def 2(3,4))
    ultimately show ?thesis ..
  qed
qed

end
