(* ===== verification/UserRequests.thy ===== *)
theory UserRequests
  imports UserInvariant
begin

text \<open>
  The user service under concurrency. Every request keeps \<open>store_ok\<close> and respects
  \<open>store_rely\<close>, whichever statements fail; so any interleaving does. An edit, for all the reading
  it does first, takes effect in one step, as the atomic operation \<open>atomic_update\<close> on the row it
  meets there; and of the writes that name one version of a user, one succeeds.
\<close>

abbreviation safe_request :: "request \<Rightarrow> bool" where
  "safe_request \<equiv> safe store_ok store_rely"

definition crypto_ok :: "crypto \<Rightarrow> bool" where
  \<comment> \<open>verifiers have the shape the renderer accepts, as \<open>NewEngineHash\<close> makes them\<close>
  "crypto_ok c = (\<forall>p h. newEngineHash c p = Some h \<longrightarrow> engineHashRe h)"

section \<open>Requests are safe\<close>

named_theorems safe_intros \<open>safety of the parts of a request\<close>

lemma safe_keeps [safe_intros]: "keeps m \<Longrightarrow> (\<And>r. safe_request (k r)) \<Longrightarrow> safe_request (step_then m k)"
  by (rule safe_step_then) (auto simp: keeps_def)

lemma keeps_record_audit [safe_intros]: "keeps (record_audit e)"
  by (rule keeps_same) (rule same_record_audit)

lemma keeps_select [safe_intros]: "keeps (select q)"
  by (rule keeps_same) (rule same_select)

lemma keeps_reset_usage [safe_intros]: "keeps (reset_usage i d m)"
  by (rule keeps_same) (rule same_reset_usage)

lemma safe_notify [safe_intros]: "safe_request k \<Longrightarrow> safe_request (notify a r k)"
  unfolding notify_def
  by (rule safe_step_then) (auto intro!: same_tables_rely simp: same_tables_def store_ok_def active_credentials_def)

lemma safe_with_now [safe_intros]: "(\<And>t. safe_request (k t)) \<Longrightarrow> safe_request (with_now k)"
  unfolding with_now_def by (rule safe_step_then) (auto intro: store_rely_refl)

lemma safe_audit [safe_intros]: "safe_request k \<Longrightarrow> safe_request (auditAction a act t r d k)"
  unfolding auditAction_def by (intro safe_intros)

lemma row_by_id_Inr: "row_by_id i db = Inr u \<longleftrightarrow> List.find (\<lambda>u. pu_id u = i) (db_users db) = Some u"
  by (simp add: row_by_id_def split: option.splits)

lemma row_by_id_user: "row_by_id i db = Inr u \<Longrightarrow> u \<in> set (db_users db) \<and> pu_id u = i"
  unfolding row_by_id_Inr find_Some_iff by auto

lemma row_by_id_iff:
  assumes "store_ok db"
  shows "row_by_id i db = Inr u \<longleftrightarrow> u \<in> set (db_users db) \<and> pu_id u = i"
proof
  assume u: "u \<in> set (db_users db) \<and> pu_id u = i"
  then obtain v where v: "List.find (\<lambda>u. pu_id u = i) (db_users db) = Some v"
    by (metis (mono_tags, lifting) find_None_iff not_None_eq)
  then have "v = u" using row_by_id_user [of i db v] u row_unique [OF assms] by (simp add: row_by_id_Inr)
  then show "row_by_id i db = Inr u" using v by (simp add: row_by_id_Inr)
qed (rule row_by_id_user)

lemma row_by_id_None: "row_by_id i db = Inl e \<longleftrightarrow> e = NotFound \<and> i \<notin> pu_id ` set (db_users db)"
  by (auto simp: row_by_id_def find_None_iff split: option.splits dest: find_Some_iff [THEN iffD1])

lemma safe_GetUserByID [safe_intros]:
  assumes "\<And>e. safe_request (k (Inl e))" "\<And>u. user_ok u \<Longrightarrow> pu_id u = i \<Longrightarrow> safe_request (k (Inr u))"
  shows "safe_request (GetUserByID i k)"
  unfolding GetUserByID_def
proof (rule safe_step_then)
  fix s r s' assume ok: "store_ok s" and s: "select (row_by_id i) s = (r, s')"
  have same: "same_tables s s'" by (rule same_select [OF s])
  have "safe_request (k r)"
  proof (cases r)
    case (Inr u)
    then have "row_by_id i s' = Inr u" using select_cases(2) [OF s] by auto
    then have "u \<in> set (db_users s')" "pu_id u = i" using row_by_id_user by blast+
    moreover have "store_ok s'" using same ok same_tables_ok by blast
    ultimately show ?thesis using assms(2) Inr by (auto simp: store_ok_def)
  qed (simp add: assms(1))
  then show "store_ok s' \<and> store_rely s s' \<and> safe_request (k r)" using same ok same_tablesI by blast
qed

lemma safe_versionConflict [safe_intros]: "(\<And>e. safe_request (k e)) \<Longrightarrow> safe_request (versionConflict i k)"
  unfolding versionConflict_def by (intro safe_intros) (auto split: sum.split)

lemma safe_UpdateUser [safe_intros]:
  "validateMutated u = [] \<Longrightarrow> (\<And>r. safe_request (k r)) \<Longrightarrow> safe_request (UpdateUser u k)"
  unfolding UpdateUser_def
  by (rule safe_keeps [OF keeps_write_user]) (auto split: sum.split intro!: safe_intros)

lemma safe_SetUserStatus [safe_intros]: "(\<And>r. safe_request (k r)) \<Longrightarrow> safe_request (SetUserStatus i s v k)"
  unfolding SetUserStatus_def
  by (rule safe_keeps [OF keeps_write_status]) (auto split: sum.split intro!: safe_intros)

lemma safe_DeleteUser [safe_intros]: "(\<And>r. safe_request (k r)) \<Longrightarrow> safe_request (DeleteUser i k)"
  unfolding DeleteUser_def
  by (rule safe_keeps [OF keeps_delete_user]) (auto split: sum.split intro!: safe_intros)

lemma safe_CreateUser:
  "engineHashRe (cr_engine_hash c) \<Longrightarrow> ValidateUsername (pu_username u) \<Longrightarrow> validateMutated u = []
   \<Longrightarrow> (\<And>r. safe_request (k r)) \<Longrightarrow> safe_request (CreateUser u c k)"
  unfolding CreateUser_def by (auto intro: safe_keeps keeps_create)

lemma safe_RotateCredential:
  "engineHashRe (cr_engine_hash c) \<Longrightarrow> (\<And>r. safe_request (k r)) \<Longrightarrow> safe_request (RotateCredential i c v now k)"
  unfolding RotateCredential_def
  by (auto intro!: safe_keeps keeps_rotate safe_GetUserByID split: sum.split)

lemma safe_Create: 
  assumes "crypto_ok c"
  shows "safe_request (Create c i a)"
  unfolding Create_def Let_def create_reply_def
proof (intro safe_with_now, goal_cases)
  case (1 checked)
  show ?case
  proof (cases "validateNew checked i = []")
    case True
    then have v: "ValidateUsername (ci_username i)" "validateProtocols (ci_protocols i) = []"
      "validateLimits (ci_download i) (ci_upload i) (ci_max_connections i) (ci_quota_daily i) (ci_quota_monthly i) = []"
      by (auto simp: validateNew_def split: if_splits)
    show ?thesis
      using True assms
      by (auto split: option.split sum.split store_error.split intro!: safe_with_now safe_CreateUser safe_audit safe_notify
          simp: crypto_ok_def validateMutated_def v)
  qed simp
qed

lemma safe_transition: "safe_request (transition i st v a act)"
  unfolding transition_def transition_reply_def
  by (intro safe_intros) (auto split: sum.split store_error.split intro!: safe_intros)

lemma safe_Enable: "safe_request (Enable_user i v a)"
  unfolding Enable_user_def by (intro safe_intros) (auto split: sum.split option.split intro!: safe_intros safe_transition)

lemma safe_Update: "safe_request (Update i inp a)"
  unfolding Update_def Let_def update_reply_def
  by (intro safe_intros) (auto split: sum.split store_error.split intro!: safe_intros)

lemma safe_Delete: "safe_request (Delete i a)"
  unfolding Delete_def by (intro safe_intros) (auto split: sum.split intro!: safe_intros)

lemma safe_Rotate: "crypto_ok c \<Longrightarrow> safe_request (RotateCredentials c i given a)"
  unfolding RotateCredentials_def Let_def rotate_reply_def
  by (intro safe_intros)
    (auto split: option.split sum.split store_error.split intro!: safe_intros safe_RotateCredential simp: crypto_ok_def)

lemma safe_ResetQuota: "safe_request (ResetQuota i a)"
  unfolding ResetQuota_def by (intro safe_intros) (auto split: sum.split intro!: safe_intros)

lemma safe_Sweep: "safe_request SweepExpired"
  unfolding SweepExpired_def by (rule safe_keeps [OF keeps_sweep]) (auto split: sum.split intro!: safe_intros)

section \<open>Edits are atomic\<close>

definition quiet :: "(server_db \<times> server_db) list \<Rightarrow> bool" where
  "quiet ts = (\<forall>(s, s') \<in> set ts. same_tables s s')"

definition succeeded :: "service_error + reply \<Rightarrow> bool" where
  "succeeded r = (case r of Inl _ \<Rightarrow> False | Inr _ \<Rightarrow> True)"

definition steady :: "(server_db \<times> server_db) list \<Rightarrow> bool" where
  \<comment> \<open>between two steps of a request others may have worked\<close>
  "steady ts =
     ((\<forall>(s, s') \<in> set ts. store_ok s \<and> store_ok s') \<and> sorted_wrt (\<lambda>t t'. store_rely (snd t) (fst t')) ts)"

definition atomic_update :: "int \<Rightarrow> update_input \<Rightarrow> instant \<Rightarrow> stored_user list \<Rightarrow> stored_user list option" where
  \<comment> \<open>an edit as one operation on the table: the row must exist and carry the version of the
    edit, and the merged row must be valid\<close>
  "atomic_update i inp now us =
     (case List.find (\<lambda>u. pu_id u = i) us of
        None \<Rightarrow> None
      | Some u \<Rightarrow>
          if ui_version inp = pu_version u \<and> validateMutated (merge_update inp u) = []
          then Some (List.map (\<lambda>v. if pu_id v = i then written_by (merge_update inp u) now v else v) us)
          else None)"

lemma quiet_simps [simp]:
  "quiet []" "quiet (t # ts) \<longleftrightarrow> same_tables (fst t) (snd t) \<and> quiet ts"
  by (auto simp: quiet_def split: prod.split)

abbreviation reads_only :: "request \<Rightarrow> bool" where
  "reads_only \<equiv> safe (\<lambda>_. True) same_tables"

lemma outcome_reads_only: "outcome p ts r \<Longrightarrow> reads_only p \<Longrightarrow> quiet ts"
proof (induction rule: outcome.induct)
  case (Atomic f s p s' ts a)
  then have "same_tables s s' \<and> reads_only p" by (metis fst_conv safe_AtomicE snd_conv)
  with Atomic show ?case by simp
qed simp

lemma reads_only_step: "(\<And>db r db'. m db = (r, db') \<Longrightarrow> same_tables db db') \<Longrightarrow> (\<And>r. reads_only (k r)) \<Longrightarrow> reads_only (step_then m k)"
  by (rule safe_step_then) auto

lemma reads_only_audit: "reads_only k \<Longrightarrow> reads_only (auditAction a act t r d k)"
  unfolding auditAction_def by (rule reads_only_step) (auto intro: same_record_audit)

lemma reads_only_notify: "reads_only k \<Longrightarrow> reads_only (notify a r k)"
  unfolding notify_def by (rule reads_only_step) (auto simp: same_tables_def)

lemma reads_only_Get: "(\<And>r. reads_only (k r)) \<Longrightarrow> reads_only (GetUserByID i k)"
  unfolding GetUserByID_def by (rule reads_only_step) (auto intro: same_select)

lemmas reads_only_intros = reads_only_audit reads_only_notify reads_only_Get

lemma outcome_audit:
  "outcome (auditAction a act t r d k) ts q \<Longrightarrow> \<exists>us. outcome k us q"
  by (auto simp: auditAction_def outcome_step_then)

lemma outcome_versionConflict:
  "outcome (versionConflict i k) ts q \<Longrightarrow> \<exists>e s s' us. ts = (s, s') # us \<and> same_tables s s' \<and> outcome (k e) us q"
  unfolding versionConflict_def outcome_step_then by (fastforce dest: same_select split: sum.splits)

lemma same_row_merge:
  assumes "same_row u v"
  shows "validateMutated (merge_update inp v) = validateMutated (merge_update inp u)"
    and "written_by (merge_update inp v) now w = written_by (merge_update inp u) now w"
proof -
  obtain x where "v = u\<lparr>pu_last_seen_at := x\<rparr>" using assms by (auto simp: same_row_def)
  then have f: "pu_protocols v = pu_protocols u" "pu_download v = pu_download u" "pu_upload v = pu_upload u"
    "pu_max_connections v = pu_max_connections u" "pu_quota_daily v = pu_quota_daily u"
    "pu_quota_monthly v = pu_quota_monthly u" "pu_expires_at v = pu_expires_at u"
    by simp_all
  show "validateMutated (merge_update inp v) = validateMutated (merge_update inp u)"
    "written_by (merge_update inp v) now w = written_by (merge_update inp u) now w"
    by (simp_all add: validateMutated_def merge_update_def written_by_def f cong: option.case_cong)
qed

lemma write_user_no_row:
  "filter P us = [] \<Longrightarrow> List.map (\<lambda>u. if P u then f u else u) us = us"
  by (auto simp: filter_empty_conv intro: map_idI)

lemma read_then_met:
  \<comment> \<open>a row read earlier and the row of the same version met later\<close>
  assumes "store_ok s" "store_rely s s'" "u \<in> set (db_users s)" "v \<in> set (db_users s')"
    "pu_id u = pu_id v" "pu_version u = pu_version v"
  shows "same_row u v"
proof -
  have "pu_id v \<le> db_user_seq s" using assms(1,3,5) by (auto simp: store_ok_def)
  then have "newer u v" using assms(2-5) by (auto simp: store_rely_def)
  then show ?thesis using assms(6) by (simp add: newer_def)
qed

lemma merged_id [simp]: "pu_id (merge_update inp u) = pu_id u" "pu_version (merge_update inp u) = pu_version u"
  by (simp_all add: merge_update_def)

lemma write_is_atomic_update:
  assumes s: "store_ok s" "v \<in> set (db_users s)" "at_version i (ui_version inp) v"
    and same: "same_row u v" and valid: "validateMutated (merge_update inp u) = []"
  shows "atomic_update i inp now (db_users s)
     = Some (List.map (\<lambda>w. if at_version i (ui_version inp) w then written_by (merge_update inp u) now w else w) (db_users s))"
proof -
  have "row_by_id i s = Inr v" using s by (simp add: row_by_id_iff at_version_def)
  moreover have "at_version i (ui_version inp) w \<longleftrightarrow> pu_id w = i" if "w \<in> set (db_users s)" for w
    using row_unique [OF s(1) that s(2)] s(3) by (auto simp: at_version_def)
  ultimately show ?thesis
    using valid same_row_merge [OF same] s(3)
    by (auto simp: atomic_update_def row_by_id_Inr at_version_def)
qed

definition write_cases :: "(server_db \<times> server_db) list \<Rightarrow> (server_db \<Rightarrow> server_db \<Rightarrow> bool) \<Rightarrow> bool \<Rightarrow> bool" where
  \<comment> \<open>one step of the request makes the change, or none does and the request fails\<close>
  "write_cases ts change ok =
     ((quiet ts \<and> \<not> ok)
      \<or> (\<exists>xs s s' ys. ts = xs @ (s, s') # ys \<and> quiet xs \<and> quiet ys \<and> change s s'))"

lemma quiet_write_cases: "quiet ts \<Longrightarrow> \<not> ok \<Longrightarrow> write_cases ts change ok"
  by (simp add: write_cases_def)

lemma write_cases_Cons:
  "same_tables s s' \<Longrightarrow> write_cases ts change ok \<Longrightarrow> write_cases ((s, s') # ts) change ok"
  unfolding write_cases_def by (metis append_Cons fst_conv quiet_simps(2) snd_conv)

lemma write_cases_now: "change s s' \<Longrightarrow> quiet ts \<Longrightarrow> write_cases ((s, s') # ts) change ok"
  unfolding write_cases_def by (intro disjI2 exI [of _ "[]"]) auto

lemma outcome_GetUserByID:
  assumes "outcome (GetUserByID i k) ts q"
  obtains s r s' us where "ts = (s, s') # us" "same_tables s s'" "r = Inl StoreFailure \<or> r = row_by_id i s'" "outcome (k r) us q"
proof -
  obtain s r s' us where "select (row_by_id i) s = (r, s')" "ts = (s, s') # us" "outcome (k r) us q"
    using assms unfolding GetUserByID_def outcome_step_then by blast
  then show ?thesis using that select_cases by metis
qed

lemma update_commits:
  assumes o: "outcome (UpdateUser (merge_update inp u) k) ts q" and steady: "steady ts"
    and u: "store_ok s0" "u \<in> set (db_users s0)" "pu_version u = ui_version inp" "pu_id u = i"
    and met: "\<forall>(s, s') \<in> set ts. store_rely s0 s"
    and valid: "validateMutated (merge_update inp u) = []"
    and tail: "\<And>e ts. outcome (k (Inl e)) ts q \<Longrightarrow> quiet ts \<and> \<not> succeeded q" "\<And>r. reads_only (k r)"
  shows "write_cases ts (\<lambda>s s'. atomic_update i inp (db_clock s) (db_users s) = Some (db_users s')) (succeeded q)"
proof -
  obtain s r s' us where s: "write_user (merge_update inp u) s = (r, s')" "ts = (s, s') # us"
    and rest: "outcome (case r of Inl e \<Rightarrow> k (Inl e)
       | Inr n \<Rightarrow> if n = 0 then versionConflict i (\<lambda>e. k (Inl e)) else GetUserByID i k) us q"
    using o unfolding UpdateUser_def outcome_step_then merged_id u(4) by auto
  let ?P = "at_version i (ui_version inp)" and ?f = "written_by (merge_update inp u) (db_clock s)"
  have w: "update_users ?P ?f s = (r, s')" using s(1) u(3,4) by (simp add: write_user_def)
  have ok: "store_ok s" using steady s(2) by (simp add: steady_def)
  from w show ?thesis
  proof (cases rule: update_users_cases)
    case 1
    then show ?thesis using rest s(2) tail(1) by (auto intro!: quiet_write_cases)
  next
    case 2
    show ?thesis
    proof (cases "filter ?P (db_users s) = []")
      case True
      then have "same_tables s s'" using 2 by (simp add: same_tables_def write_user_no_row)
      moreover obtain e vs t t' where "us = (t, t') # vs" "same_tables t t'" "outcome (k (Inl e)) vs q"
        using rest 2(1) True outcome_versionConflict by fastforce
      ultimately show ?thesis using s(2) tail(1) by (auto intro!: quiet_write_cases)
    next
      case False
      then obtain v where v: "v \<in> set (db_users s)" "?P v" by (auto simp: filter_empty_conv)
      have "same_row u v"
        using u v met s(2) by (intro read_then_met [of s0 s]) (auto simp: at_version_def)
      then have "atomic_update i inp (db_clock s) (db_users s) = Some (db_users s')"
        using write_is_atomic_update [OF ok v _ valid] 2(4) by simp
      moreover have "quiet us"
        using rest 2(1) False tail(2) by (auto intro: outcome_reads_only reads_only_Get)
      ultimately show ?thesis using s(2) by (auto intro: write_cases_now)
    qed
  qed
qed

lemma update_reply_reads: "reads_only (update_reply a u r)"
  unfolding update_reply_def by (auto split: sum.split store_error.split intro!: reads_only_audit reads_only_notify)

lemma update_is_atomic:
  assumes "outcome (Update i inp a) ts q" and "steady ts"
  shows "write_cases ts (\<lambda>s s'. atomic_update i inp (db_clock s) (db_users s) = Some (db_users s')) (succeeded q)"
proof -
  obtain s r s' us where s: "ts = (s, s') # us" "same_tables s s'" "r = Inl StoreFailure \<or> r = row_by_id i s'"
    and rest: "outcome (case r of Inl e \<Rightarrow> Done (Inl (from_store e)) | Inr current \<Rightarrow>
       if ui_version inp = 0 \<or> ui_version inp \<noteq> pu_version current then Done (Inl VersionConflict)
       else let new = merge_update inp current
       in if validateMutated new \<noteq> [] then Done (Inl (InvalidInput (validateMutated new)))
       else UpdateUser new (update_reply a current)) us q"
    using assms(1) unfolding Update_def by (rule outcome_GetUserByID)
  show ?thesis
  proof (cases "\<exists>u. r = Inr u \<and> ui_version inp = pu_version u \<and> ui_version inp \<noteq> 0 \<and> validateMutated (merge_update inp u) = []")
    case False
    then have "us = [] \<and> \<not> succeeded q"
      using rest by (auto simp: succeeded_def Let_def split: sum.splits if_splits)
    then show ?thesis using s by (auto intro: quiet_write_cases)
  next
    case True
    then obtain u where u: "r = Inr u" "ui_version inp = pu_version u" "ui_version inp \<noteq> 0" "validateMutated (merge_update inp u) = []"
      by auto
    have ok: "store_ok s'" "steady us" "\<forall>(t, t') \<in> set us. store_rely s' t"
      using assms(2) s(1) by (auto simp: steady_def)
    have row: "u \<in> set (db_users s')" "pu_id u = i" using s(3) u(1) row_by_id_user by auto
    from rest u have "outcome (UpdateUser (merge_update inp u) (update_reply a u)) us q" by simp
    then have "write_cases us (\<lambda>s s'. atomic_update i inp (db_clock s) (db_users s) = Some (db_users s')) (succeeded q)"
    proof (rule update_commits [OF _ ok(2,1) row(1) u(2)[symmetric] row(2) ok(3) u(4)], goal_cases)
      case (1 e ts)
      then show ?case
        using outcome_reads_only [OF 1 update_reply_reads] by (cases e) (auto simp: succeeded_def update_reply_def dest: outcome_audit)
    qed (rule update_reply_reads)
    then show ?thesis unfolding s(1) by (rule write_cases_Cons [OF s(2)])
  qed
qed

section \<open>Status changes are atomic, and versions are used once\<close>

definition uses_version :: "int \<Rightarrow> int \<Rightarrow> server_db \<Rightarrow> server_db \<Rightarrow> bool" where
  \<comment> \<open>the step met the row at this version and left it at the next\<close>
  "uses_version i v s s' =
     ((\<exists>u \<in> set (db_users s). at_version i v u) \<and> (\<exists>u \<in> set (db_users s'). at_version i (v + 1) u))"

lemma uses_versionI:
  "u \<in> set (db_users s) \<Longrightarrow> at_version i v u \<Longrightarrow> w \<in> set (db_users s') \<Longrightarrow> at_version i (v + 1) w
   \<Longrightarrow> uses_version i v s s'"
  unfolding uses_version_def by blast

lemma atomic_update_uses_version:
  assumes "atomic_update i inp now (db_users s) = Some (db_users s')"
  shows "uses_version i (ui_version inp) s s'"
proof -
  obtain u where u: "List.find (\<lambda>u. pu_id u = i) (db_users s) = Some u" "ui_version inp = pu_version u"
    and s': "db_users s' = List.map (\<lambda>v. if pu_id v = i then written_by (merge_update inp u) now v else v) (db_users s)"
    using assms by (auto simp: atomic_update_def split: option.splits if_splits)
  have "u \<in> set (db_users s)" "pu_id u = i" using u(1) by (auto simp: find_Some_iff)
  moreover from this have "written_by (merge_update inp u) now u \<in> set (db_users s')"
    unfolding s' by (force simp: image_iff)
  ultimately show ?thesis
    using u(2) by (auto intro!: uses_versionI simp: at_version_def written_by_def)
qed

lemma write_cases_mono: "write_cases ts c ok \<Longrightarrow> (\<And>s s'. c s s' \<Longrightarrow> d s s') \<Longrightarrow> write_cases ts d ok"
  unfolding write_cases_def by blast

lemma transition_reply_reads: "reads_only (transition_reply a act u r)"
  unfolding transition_reply_def by (auto split: sum.split store_error.split intro!: reads_only_audit reads_only_notify)

lemma SetUserStatus_uses_version:
  assumes "outcome (SetUserStatus i st v k) ts q"
    and "\<And>e ts. outcome (k (Inl e)) ts q \<Longrightarrow> quiet ts \<and> \<not> succeeded q" "\<And>r. reads_only (k r)"
  shows "write_cases ts (uses_version i v) (succeeded q)"
proof -
  obtain s r s' us where s: "write_status i st v s = (r, s')" "ts = (s, s') # us"
    and rest: "outcome (case r of Inl e \<Rightarrow> k (Inl e)
       | Inr n \<Rightarrow> if n = 0 then versionConflict i (\<lambda>e. k (Inl e)) else GetUserByID i k) us q"
    using assms(1) unfolding SetUserStatus_def outcome_step_then by auto
  let ?f = "\<lambda>u. u\<lparr>pu_status := st, pu_version := pu_version u + 1, pu_updated_at := db_clock s\<rparr>"
  have w: "update_users (at_version i v) ?f s = (r, s')" using s(1) by (simp add: write_status_def)
  from w show ?thesis
  proof (cases rule: update_users_cases)
    case 1
    then show ?thesis using rest s(2) assms(2) by (auto intro!: quiet_write_cases)
  next
    case 2
    show ?thesis
    proof (cases "filter (at_version i v) (db_users s) = []")
      case True
      then have "same_tables s s'" using 2 by (simp add: same_tables_def write_user_no_row)
      moreover obtain e vs t t' where "us = (t, t') # vs" "same_tables t t'" "outcome (k (Inl e)) vs q"
        using rest 2(1) True outcome_versionConflict by fastforce
      ultimately show ?thesis using s(2) assms(2) by (auto intro!: quiet_write_cases)
    next
      case False
      then obtain u where u: "u \<in> set (db_users s)" "at_version i v u" by (auto simp: filter_empty_conv)
      then have "?f u \<in> set (db_users s')" unfolding 2(4) by (force simp: image_iff)
      then have "uses_version i v s s'" using u by (auto intro!: uses_versionI simp: at_version_def)
      moreover have "quiet us"
        using rest 2(1) False assms(3) by (auto intro: outcome_reads_only reads_only_Get)
      ultimately show ?thesis using s(2) by (auto intro: write_cases_now)
    qed
  qed
qed

lemma transition_uses_version:
  assumes "outcome (transition i st v a act) ts q"
  shows "write_cases ts (uses_version i v) (succeeded q)"
proof -
  obtain s r s' us where s: "ts = (s, s') # us" "same_tables s s'" "r = Inl StoreFailure \<or> r = row_by_id i s'"
    and rest: "outcome (case r of Inl e \<Rightarrow> Done (Inl (from_store e))
       | Inr current \<Rightarrow> SetUserStatus i st v (transition_reply a act current)) us q"
    using assms unfolding transition_def by (rule outcome_GetUserByID)
  show ?thesis
  proof (cases r)
    case (Inl e)
    then show ?thesis using rest s by (auto simp: succeeded_def intro!: quiet_write_cases)
  next
    case (Inr u)
    then have "outcome (SetUserStatus i st v (transition_reply a act u)) us q" using rest by simp
    then have "write_cases us (uses_version i v) (succeeded q)"
    proof (rule SetUserStatus_uses_version, goal_cases)
      case (1 e ts)
      then show ?case
        using outcome_reads_only [OF 1 transition_reply_reads]
        by (cases e) (auto simp: succeeded_def transition_reply_def dest: outcome_audit)
    qed (rule transition_reply_reads)
    then show ?thesis unfolding s(1) by (rule write_cases_Cons [OF s(2)])
  qed
qed

lemma Enable_uses_version:
  assumes "outcome (Enable_user i v a) ts q"
  shows "write_cases ts (uses_version i v) (succeeded q)"
proof -
  obtain s r s' us where s: "ts = (s, s') # us" "same_tables s s'" "r = Inl StoreFailure \<or> r = row_by_id i s'"
    and rest: "outcome (case r of Inl e \<Rightarrow> Done (Inl (from_store e))
       | Inr current \<Rightarrow> with_now (\<lambda>now.
           if (case pu_expires_at current of None \<Rightarrow> False | Some e \<Rightarrow> e \<le> now) then Done (Inl ExpiredUser)
           else transition i Active v a ''user.enable'')) us q"
    using assms unfolding Enable_user_def by (rule outcome_GetUserByID)
  show ?thesis
  proof (cases "\<exists>vs t. us = (t, t) # vs \<and> outcome (transition i Active v a ''user.enable'') vs q")
    case True
    then obtain vs t where us: "us = (t, t) # vs" and o: "outcome (transition i Active v a ''user.enable'') vs q" by blast
    show ?thesis unfolding s(1) us
      by (rule write_cases_Cons [OF s(2) write_cases_Cons [OF same_tables_refl transition_uses_version [OF o]]])
  next
    case False
    then have "quiet us" "\<not> succeeded q"
      using rest by (auto simp: with_now_def outcome_step_then succeeded_def split: sum.splits if_splits)
    then show ?thesis using s by (auto intro: quiet_write_cases)
  qed
qed

section \<open>Calls\<close>

datatype service_call =
    CreateCall create_input
  | GetCall int
  | ListCall user_filter
  | UpdateCall int update_input
  | DeleteCall int
  | RotateCall int string
  | DisableCall int int
  | EnableCall int int
  | ResetCall int
  | SweepCall

fun serve :: "crypto \<times> actor \<times> service_call \<Rightarrow> request" where
  "serve (c, a, CreateCall i) = Create c i a"
| "serve (c, a, GetCall i) = Get i"
| "serve (c, a, ListCall f) = List_users f"
| "serve (c, a, UpdateCall i inp) = Update i inp a"
| "serve (c, a, DeleteCall i) = Delete i a"
| "serve (c, a, RotateCall i p) = RotateCredentials c i p a"
| "serve (c, a, DisableCall i v) = Disable_user i v a"
| "serve (c, a, EnableCall i v) = Enable_user i v a"
| "serve (c, a, ResetCall i) = ResetQuota i a"
| "serve (c, a, SweepCall) = SweepExpired"

fun names_version :: "service_call \<Rightarrow> (int \<times> int) option" where
  \<comment> \<open>the row and the version a write is meant for\<close>
  "names_version (UpdateCall i inp) = Some (i, ui_version inp)"
| "names_version (DisableCall i v) = Some (i, v)"
| "names_version (EnableCall i v) = Some (i, v)"
| "names_version _ = None"

lemma safe_serve: "crypto_ok (fst x) \<Longrightarrow> safe_request (serve x)"
  by (cases x rule: serve.cases)
    (auto intro!: safe_Create safe_Update safe_Delete safe_Rotate safe_transition safe_Enable safe_ResetQuota safe_Sweep
      simp: Disable_user_def Get_def List_users_def ListUsers_def, (auto intro!: safe_intros split: sum.split)+)

lemma serve_uses_version:
  assumes "outcome (serve (c, a, x)) ts q" "steady ts" "names_version x = Some (i, v)"
  shows "write_cases ts (uses_version i v) (succeeded q)"
  using assms(3)
proof (cases x rule: names_version.cases)
  case (1 j inp)
  then show ?thesis
    using assms update_is_atomic [of j inp a ts q] atomic_update_uses_version by (auto intro: write_cases_mono)
next
  case (2 j w)
  then show ?thesis using assms transition_uses_version by (simp add: Disable_user_def)
next
  case (3 j w)
  then show ?thesis using assms Enable_uses_version by simp
qed simp_all

end
