(* ===== verification/UserServer.thy ===== *)
theory UserServer
  imports UserRequests
begin

text \<open>
  The properties of the user service of the server: its store under any interleaving and any
  failing statement, optimistic locking, rotation, and the expiry sweep.
\<close>

section \<open>A server to run\<close>

definition empty_db :: server_db where
  "empty_db = \<lparr>db_users = [], db_creds = [], db_user_seq = 0, db_cred_seq = 0, db_usage = [], db_dests = [],
     db_cursor = None, db_audit = [], db_hooks = [], db_clock = 1700000000000000000, db_faults = []\<rparr>"

definition sample_crypto :: crypto where
  \<comment> \<open>a fixed salt, and a digest that is constant\<close>
  "sample_crypto = \<lparr>newEngineHash = (\<lambda>p. Some (CRHash (\<lambda>_. replicate 16 7) p ''Salt42'')),
     newAPIHash = Some, generatePassword = ''Generated2345''\<rparr>"

definition sample_actor :: actor where
  "sample_actor = \<lparr>ac_name = ''admin'', ac_request_id = ''r1'', ac_source_ip = ''10.0.0.1'', ac_user_agent = []\<rparr>"

definition alice_input :: create_input where
  "alice_input = \<lparr>ci_username = ''alice'', ci_password = [], ci_protocols = [''http'', ''socks5''], ci_download = 0,
     ci_upload = 0, ci_max_connections = 0, ci_quota_daily = 0, ci_quota_monthly = 1000000000,
     ci_expires_at = Some 1700000060000000000\<rparr>"

definition alice_db :: server_db where
  "alice_db = snd (run (Create sample_crypto alice_input sample_actor) empty_db)"

definition quota_edit :: "int \<Rightarrow> int \<Rightarrow> update_input" where
  "quota_edit v q = \<lparr>ui_version = v, ui_protocols = None, ui_download = None, ui_upload = None,
     ui_max_connections = None, ui_quota_daily = None, ui_quota_monthly = Some q, ui_expires_at = None,
     ui_clear_expiration = False\<rparr>"

lemma sample_crypto_ok: "crypto_ok sample_crypto"
proof -
  have "list_all alnum ''Salt42''" by code_simp
  then show ?thesis by (simp add: crypto_ok_def sample_crypto_def engineHashRe_CRHash)
qed

lemma alice_db_rows:
  "List.map (\<lambda>u. (pu_id u, pu_username u, pu_version u)) (db_users alice_db) = [(1, ''alice'', 1)]"
  by code_simp

lemma alice_db_ok: "store_ok alice_db"
  by code_simp

definition two_edits :: "(crypto \<times> actor \<times> service_call) list" where
  "two_edits = [(sample_crypto, sample_actor, UpdateCall 1 (quota_edit 1 2000000000)),
                (sample_crypto, sample_actor, UpdateCall 1 (quota_edit 1 5000000000))]"

definition race :: "(nat \<times> server_db \<times> server_db) list \<times> request list \<times> server_db" where
  \<comment> \<open>both read the row before either writes it\<close>
  "race = schedule [0, 1, 1, 0, 0, 1, 0, 1, 1, 0, 0, 1] (List.map serve two_edits) alice_db"

lemma race_results:
  "List.map (\<lambda>p. map_option succeeded (finished p)) (fst (snd race)) = [Some False, Some True]"
  by code_simp

lemma race_quota: "List.map pu_quota_monthly (db_users (snd (snd race))) = [5000000000]"
  by code_simp

lemma race_steps: "steps (List.map serve two_edits) alice_db (fst race) (fst (snd race)) (snd (snd race))"
proof (rule schedule_steps)
  show "schedule [0, 1, 1, 0, 0, 1, 0, 1, 1, 0, 0, 1] (List.map serve two_edits) alice_db
      = (fst race, fst (snd race), snd (snd race))"
    unfolding race_def by (simp only: prod.collapse)
qed

lemma race_done:
  "\<exists>r. fst (snd race) ! 0 = Done r \<and> \<not> succeeded r" "\<exists>r. fst (snd race) ! 1 = Done r \<and> succeeded r"
proof -
  have l: "length (fst (snd race)) = 2" using steps_length [OF race_steps] by (simp add: two_edits_def)
  have "map_option succeeded (finished (fst (snd race) ! k)) = [Some False, Some True] ! k" if "k < 2" for k
    using race_results that l by (metis nth_map)
  from this [of 0] this [of 1]
  show "\<exists>r. fst (snd race) ! 0 = Done r \<and> \<not> succeeded r" "\<exists>r. fst (snd race) ! 1 = Done r \<and> succeeded r"
    by (auto simp: finished_iff)
qed

lemma calls_safe: "\<forall>x \<in> set calls. crypto_ok (fst x) \<Longrightarrow> \<forall>p \<in> set (List.map serve calls). safe_request p"
  using safe_serve by auto

section \<open>The store under any interleaving\<close>

text \<open>
  C4. Whatever requests the server works on at once, however their statements interleave and
  whichever statements fail, the store stays well formed: ids and usernames are unique, every
  user is valid and has exactly one active credential, every verifier is one the proxy accepts,
  and versions grow with every change while ids are never given again.
\<close>

theorem store_survives_interleaving:
  assumes "store_ok db" and "\<forall>x \<in> set calls. crypto_ok (fst x)"
    and "steps (List.map serve calls) db ts qs db'"
  shows "store_ok db' \<and> store_rely db db'"
  using requests.steps_safe [OF assms(3,1) calls_safe [OF assms(2)]] by simp

theorem store_survives_interleaving_witness:
  "store_ok (snd (snd race)) \<and> store_rely alice_db (snd (snd race))"
  by (rule store_survives_interleaving [OF alice_db_ok _ race_steps])
    (simp add: two_edits_def sample_crypto_ok)

text \<open>
  C2. An edit is one atomic operation, although it reads the row, checks it and writes it in separate
  statements among those of other requests: either the request fails and no step of it touches
  the tables, or exactly one step does, and what that step does is \<open>atomic_update\<close> on the table
  it meets. No change another request committed in between is lost.
\<close>

theorem edits_are_atomic:
  assumes "store_ok db" and "\<forall>x \<in> set calls. crypto_ok (fst x)"
    and "steps (List.map serve calls) db ts qs db'"
    and "i < length calls" "calls ! i = (c, a, UpdateCall uid inp)" "qs ! i = Done r"
  shows "write_cases (own i ts)
    (\<lambda>s s'. atomic_update uid inp (db_clock s) (db_users s) = Some (db_users s')) (succeeded r)"
proof -
  have "outcome (serve (c, a, UpdateCall uid inp)) (own i ts) r"
    using steps_outcome [OF assms(3), of i r] assms(4-6) by simp
  moreover have "steady (own i ts)"
    using requests.steps_own [OF assms(3,1) calls_safe [OF assms(2)], of i] by (auto simp: steady_def)
  ultimately show ?thesis using update_is_atomic by simp
qed

theorem edits_are_atomic_witness:
  "write_cases (own 1 (fst race))
     (\<lambda>s s'. atomic_update 1 (quota_edit 1 5000000000) (db_clock s) (db_users s) = Some (db_users s')) True"
proof -
  obtain r where r: "fst (snd race) ! 1 = Done r" "succeeded r" using race_done(2) by auto
  then show ?thesis
    using edits_are_atomic [OF alice_db_ok _ race_steps _ _ r(1), of sample_crypto sample_actor 1 "quota_edit 1 5000000000"]
    by (simp add: two_edits_def sample_crypto_ok)
qed

text \<open>Two steps that use the same version of a row belong to the same request.\<close>

lemma uses_version_apart:
  assumes "steps ps db ts qs db'" and "store_ok db" and safe: "\<forall>p \<in> set ps. safe store_ok store_rely p"
    and s: "(i, s, s') \<in> set ts" "uses_version uid v s s'" and t: "(j, t, t') \<in> set ts" "uses_version uid v t t'"
  shows "i = j"
proof (rule ccontr)
  assume "i \<noteq> j"
  have ok: "store_ok s'" "store_ok t'"
    using requests.steps_safe [OF assms(1,2) safe] s(1) t(1) by auto
  have later: False
    if l: "uses_version uid v s s'" "uses_version uid v t t'" "store_ok s'" "store_rely s' t" for s s' t t'
  proof -
    obtain u w where u: "u \<in> set (db_users s')" "at_version uid (v + 1) u" and w: "w \<in> set (db_users t)" "at_version uid v w"
      using l(1,2) by (auto simp: uses_version_def)
    then have "pu_id u \<le> db_user_seq s'" "pu_id u = pu_id w" using l(3) by (auto simp: store_ok_def at_version_def)
    then have "newer u w" using l(4) u w by (auto simp: store_rely_def at_version_def)
    then show False using u w newer_version by (fastforce simp: at_version_def)
  qed
  show False
    using requests.steps_apart [OF assms(1,2) safe s(1) t(1)] \<open>i \<noteq> j\<close> later s(2) t(2) ok by auto
qed

text \<open>
  C8. A version is used once: of all the edits, disables and enables that name one version of a user,
  at most one succeeds, whatever else runs and in whatever order.
\<close>

theorem version_is_used_once:
  assumes "store_ok db" and "\<forall>x \<in> set calls. crypto_ok (fst x)"
    and "steps (List.map serve calls) db ts qs db'"
    and "i < length calls" "j < length calls" "names_version (snd (snd (calls ! i))) = Some (uid, v)"
    "names_version (snd (snd (calls ! j))) = Some (uid, v)"
    and "qs ! i = Done q" "succeeded q" "qs ! j = Done r" "succeeded r"
  shows "i = j"
proof -
  have used: "\<exists>s s'. (k, s, s') \<in> set ts \<and> uses_version uid v s s'"
    if k: "k < length calls" "names_version (snd (snd (calls ! k))) = Some (uid, v)" "qs ! k = Done x" "succeeded x" for k x
  proof -
    have "outcome (serve (calls ! k)) (own k ts) x" using steps_outcome [OF assms(3), of k x] k by simp
    moreover have "steady (own k ts)"
      using requests.steps_own [OF assms(3,1) calls_safe [OF assms(2)], of k] by (auto simp: steady_def)
    ultimately have "write_cases (own k ts) (uses_version uid v) (succeeded x)"
      using k(2) by (cases "calls ! k") (auto intro: serve_uses_version)
    then show ?thesis using k(4) by (force simp: write_cases_def set_own [symmetric])
  qed
  then obtain s s' t t' where "(i, s, s') \<in> set ts" "uses_version uid v s s'" "(j, t, t') \<in> set ts" "uses_version uid v t t'"
    using used [OF assms(4,6,8,9)] used [OF assms(5,7,10,11)] by blast
  then show ?thesis by (rule uses_version_apart [OF assms(3,1) calls_safe [OF assms(2)]])
qed

theorem version_is_used_once_witness:
  "\<nexists>k. k < 2 \<and> k \<noteq> 1 \<and> (\<exists>r. fst (snd race) ! k = Done r \<and> succeeded r)"
proof (intro notI, elim exE conjE)
  fix k r assume k: "k < 2" "k \<noteq> (1 :: nat)" "fst (snd race) ! k = Done r" "succeeded r"
  obtain q where q: "fst (snd race) ! 1 = Done q" "succeeded q" using race_done(2) by auto
  have "k = 1"
    by (rule version_is_used_once [OF alice_db_ok _ race_steps _ _ _ _ k(3,4) q, of 1 1])
      (use k(1) in \<open>auto simp: two_edits_def sample_crypto_ok less_2_cases_iff quota_edit_def\<close>)
  then show False using k(2) by simp
qed

end
