(* ===== verification/EngineState.thy ===== *)
theory EngineState
  imports UserServer
begin

text \<open>
  From the store to the proxy: the desired state \<open>internal/users/state.go\<close> derives from the rows
  of \<open>ListEngineUsers\<close>, and who the rendered configuration lets in.
\<close>

section \<open>Building the desired state\<close>

definition engineQuota :: "stored_user \<Rightarrow> engine_quota option" where
  "engineQuota u =
     (if 0 < pu_quota_monthly u then
        Some \<lparr>eq_period = ''monthly'', eq_limit = pu_quota_monthly u, eq_direction = ''all''\<rparr>
      else if 0 < pu_quota_daily u then
        Some \<lparr>eq_period = ''daily'', eq_limit = pu_quota_daily u, eq_direction = ''all''\<rparr>
      else None)"

definition toEngineProtocols :: "string list \<Rightarrow> string list" where
  "toEngineProtocols ps = filter (\<lambda>p. p = ''http'' \<or> p = ''socks5'') ps"

definition expired :: "instant \<Rightarrow> stored_user \<Rightarrow> bool" where
  \<comment> \<open>\<open>u.ExpiresAt != nil && !u.ExpiresAt.After(now)\<close>\<close>
  "expired now u = (case pu_expires_at u of None \<Rightarrow> False | Some e \<Rightarrow> \<not> now < e)"

definition engine_user_of :: "stored_user \<times> string \<Rightarrow> engine_user" where
  "engine_user_of = (\<lambda>(u, hash).
     \<lparr>eu_username = pu_username u, eu_hash = hash, eu_record = pu_id u,
      eu_protocols = toEngineProtocols (pu_protocols u),
      eu_download = pu_download u, eu_upload = pu_upload u, eu_quota = engineQuota u\<rparr>)"

definition BuildEngineState :: "(stored_user \<times> string) list \<Rightarrow> instant \<Rightarrow> engine_user list" where
  "BuildEngineState rows now =
     List.map engine_user_of (filter (\<lambda>(u, _). pu_status u = Active \<and> \<not> expired now u) rows)"

definition desired_state :: "instant \<Rightarrow> server_db \<Rightarrow> engine_user list" where
  \<comment> \<open>\<open>UsersStateSource\<close> of the deploy pipeline\<close>
  "desired_state now db = BuildEngineState (engine_rows now db) now"

definition admitted :: "instant \<Rightarrow> stored_user \<Rightarrow> bool" where
  "admitted now u = (pu_status u = Active \<and> \<not> lapsed now u \<and> \<not> expired now u)"

section \<open>The desired state of a well-formed store\<close>

definition verifier_of :: "server_db \<Rightarrow> stored_user \<Rightarrow> string" where
  \<comment> \<open>the hash of the active credential\<close>
  "verifier_of db u = cr_engine_hash (hd (active_credentials (pu_id u) db))"

lemma single_credential:
  assumes "store_ok db" "u \<in> set (db_users db)"
  obtains c where "active_credentials (pu_id u) db = [c]" "verifier_of db u = cr_engine_hash c" "c \<in> set (db_creds db)"
proof -
  have "length (active_credentials (pu_id u) db) = 1" using assms by (simp add: store_ok_def)
  then obtain c where c: "active_credentials (pu_id u) db = [c]" by (auto simp: length_Suc_conv)
  then have "c \<in> set (active_credentials (pu_id u) db)" by simp
  then have "c \<in> set (db_creds db)" by (simp add: active_credentials_def)
  then show ?thesis using c that by (simp add: verifier_of_def)
qed

lemma engine_rows_ok:
  assumes "store_ok db"
  shows "engine_rows now db = List.map (\<lambda>u. (u, verifier_of db u))
     (sort_key pu_username (filter (\<lambda>u. pu_status u = Active \<and> \<not> lapsed now u) (db_users db)))"
proof -
  have one: "List.map (\<lambda>c. (u, cr_engine_hash c)) (active_credentials (pu_id u) db) = [(u, verifier_of db u)]"
    if "u \<in> set (db_users db)" for u
    using assms that by (auto elim: single_credential)
  have "concat (List.map (\<lambda>u. List.map (\<lambda>c. (u, cr_engine_hash c)) (active_credentials (pu_id u) db)) us)
      = List.map (\<lambda>u. (u, verifier_of db u)) us" if "set us \<subseteq> set (db_users db)" for us
    using that by (induction us) (auto simp: one)
  then show ?thesis by (simp add: engine_rows_def active_credentials_def)
qed

lemma desired_state_ok:
  assumes "store_ok db"
  shows "desired_state now db = List.map (\<lambda>u. engine_user_of (u, verifier_of db u))
     (filter (admitted now) (sort_key pu_username (filter (\<lambda>u. pu_status u = Active \<and> \<not> lapsed now u) (db_users db))))"
proof -
  have "filter (\<lambda>(u, _). pu_status u = Active \<and> \<not> expired now u) (List.map (\<lambda>u. (u, verifier_of db u)) us)
      = List.map (\<lambda>u. (u, verifier_of db u)) (filter (\<lambda>u. pu_status u = Active \<and> \<not> expired now u) us)" for us
    by (induction us) auto
  moreover have "filter (\<lambda>u. pu_status u = Active \<and> \<not> expired now u) us = filter (admitted now) us"
    if "\<forall>u \<in> set us. \<not> lapsed now u" for us
    using that by (auto simp: admitted_def intro: filter_cong)
  ultimately show ?thesis by (simp add: desired_state_def BuildEngineState_def engine_rows_ok [OF assms])
qed

lemma validateLimits_Nil:
  "validateLimits d u c q m = [] \<longleftrightarrow>
     0 \<le> d \<and> 0 \<le> u \<and> 0 \<le> c \<and> (q = 0 \<or> MiB \<le> q) \<and> (m = 0 \<or> MiB \<le> m)"
  by (auto simp: validateLimits_def)

lemma engine_user_of_ok:
  assumes "store_ok db" "u \<in> set (db_users db)"
  shows "engine_user_ok (engine_user_of (u, verifier_of db u))" "engineHashRe (verifier_of db u)"
proof -
  have u: "user_ok u" "1 \<le> pu_id u" using assms by (auto simp: store_ok_def)
  have p: "set (toEngineProtocols ps) \<subseteq> {''http'', ''socks5''}" for ps by (auto simp: toEngineProtocols_def)
  show "engine_user_ok (engine_user_of (u, verifier_of db u))"
    using u p [of "pu_protocols u"]
    by (auto simp: engine_user_ok_def engine_user_of_def user_ok_def validateMutated_def validateProtocols_Nil
        validateLimits_Nil engineQuota_def toEngineProtocols_def MiB_def)
  obtain c where "verifier_of db u = cr_engine_hash c" "c \<in> set (db_creds db)" using assms by (rule single_credential)
  then show "engineHashRe (verifier_of db u)" using assms(1) by (simp add: store_ok_def)
qed

lemma set_desired_state:
  assumes "store_ok db"
  shows "set (desired_state now db) = (\<lambda>u. engine_user_of (u, verifier_of db u)) ` {u \<in> set (db_users db). admitted now u}"
  unfolding desired_state_ok [OF assms] by (auto simp: admitted_def)

lemma desired_state_valid:
  assumes "store_ok db"
  shows "state_valid (desired_state now db)"
proof -
  let ?us = "filter (admitted now) (sort_key pu_username (filter (\<lambda>u. pu_status u = Active \<and> \<not> lapsed now u) (db_users db)))"
  have e: "List.map eu_username (desired_state now db) = List.map pu_username ?us"
    "List.map eu_record (desired_state now db) = List.map pu_id ?us"
    by (simp_all add: desired_state_ok [OF assms] engine_user_of_def)
  have d: "distinct (db_users db)" "inj_on pu_id (set (db_users db))" "inj_on pu_username (set (db_users db))"
    using assms by (auto simp: store_ok_def distinct_map)
  then have "distinct ?us" "set ?us \<subseteq> set (db_users db)" by (auto intro: distinct_filter)
  then have "distinct (List.map pu_username ?us)" "distinct (List.map pu_id ?us)"
    using d inj_on_subset unfolding distinct_map by blast+
  then show ?thesis
    unfolding state_valid_iff e using assms engine_user_of_ok by (auto simp: set_desired_state)
qed

lemma sort_state: "sort_key eu_username (desired_state now db) = desired_state now db" if "store_ok db"
proof -
  have "sorted (List.map eu_username (desired_state now db))"
    unfolding desired_state_ok [OF that] by (simp add: engine_user_of_def comp_def sorted_filter)
  then show ?thesis by (rule sort_key_id_if_sorted)
qed

section \<open>Properties\<close>

definition sample_settings :: settings where
  "sample_settings = \<lparr>ConfigFile = ''/etc/xoxproxy/3proxy.cfg'', PidFile = ''/run/3proxy.pid'',
     CounterFile = ''/var/lib/xoxproxy/3proxy.3cf'', LogFile = ''/var/log/xoxproxy/traffic.log'',
     HTTPPort = 3128, SOCKS5Port = 1080, MaxConns = 500, Rotate_logs = 7, Nameservers = [''1.1.1.1''],
     SetUID = [], SetGID = []\<rparr>"

lemma desired_state_renders:
  assumes "store_ok db" and "settings_valid st"
  shows "\<exists>cfg. Render buildinfo (desired_state now db) st = Some cfg"
proof -
  have "\<forall>u \<in> set (desired_state now db). engineHashRe (eu_hash u)"
    using assms(1) engine_user_of_ok(2) by (auto simp: set_desired_state engine_user_of_def)
  then show ?thesis
    using assms desired_state_valid by (simp add: Render_def Let_def list_all_iff)
qed

lemma sample_settings_ok: "settings_valid sample_settings" "plain_settings ''dev'' sample_settings"
  by code_simp+

text \<open>
  C12. The state derived from a well-formed store always renders: no user the service accepted, in any
  state the server can reach, makes a deployment fail.
\<close>

theorem deployment_always_renders:
  assumes "store_ok db" and "settings_valid st"
  shows "\<exists>cfg. Render buildinfo (desired_state now db) st = Some cfg"
  using desired_state_renders [OF assms] by blast

theorem deployment_always_renders_witness:
  "\<exists>cfg. Render ''dev'' (desired_state 1700000000000000000 alice_db) sample_settings = Some cfg"
  by (rule deployment_always_renders [OF alice_db_ok sample_settings_ok(1)])

text \<open>
  C3. Who gets in. Read back from the text of the configuration, the access list of each service is
  exactly the users that are active, have not expired, and have the protocol of the service; an
  empty store gives empty lists, never an open proxy.
\<close>

theorem proxy_admits_exactly:
  assumes "store_ok db" and "plain_settings buildinfo st"
    and "Render buildinfo (desired_state now db) st = Some cfg"
    and "(service, proto) \<in> {(''proxy'', ''http''), (''socks'', ''socks5'')}"
  shows "set (acl service cfg) = pu_username ` {u \<in> set (db_users db). admitted now u \<and> proto \<in> set (pu_protocols u)}"
proof -
  have "acl service cfg = List.map eu_username (filter (\<lambda>u. hasProtocol u proto) (desired_state now db))"
    using acl_Render [OF assms(3,2)] sort_state [OF assms(1)] assms(4) by auto
  then have "set (acl service cfg) = eu_username ` {u \<in> set (desired_state now db). hasProtocol u proto}"
    by simp
  also have "\<dots> = pu_username ` {u \<in> set (db_users db). admitted now u \<and> proto \<in> set (pu_protocols u)}"
    using assms(4) unfolding set_desired_state [OF assms(1)]
    by (force simp: engine_user_of_def hasProtocol_def toEngineProtocols_def)
  finally show ?thesis .
qed

theorem proxy_admits_exactly_witness:
  "\<exists>cfg. Render ''dev'' (desired_state 1700000000000000000 alice_db) sample_settings = Some cfg
     \<and> set (acl ''socks'' cfg) = {''alice''}"
proof -
  obtain cfg where cfg: "Render ''dev'' (desired_state 1700000000000000000 alice_db) sample_settings = Some cfg"
    using desired_state_renders [OF alice_db_ok sample_settings_ok(1)] by blast
  have "List.map pu_username (filter (\<lambda>u. admitted 1700000000000000000 u \<and> ''socks5'' \<in> set (pu_protocols u)) (db_users alice_db)) = [''alice'']"
    by code_simp
  then have "set (List.map pu_username (filter (\<lambda>u. admitted 1700000000000000000 u \<and> ''socks5'' \<in> set (pu_protocols u)) (db_users alice_db))) = {''alice''}"
    by (simp only: list.set)
  then have "pu_username ` {u \<in> set (db_users alice_db). admitted 1700000000000000000 u \<and> ''socks5'' \<in> set (pu_protocols u)} = {''alice''}"
    by (simp only: set_map set_filter)
  then show ?thesis
    using proxy_admits_exactly [OF alice_db_ok sample_settings_ok(2) cfg, of "''socks''" "''socks5''"] cfg by auto
qed

text \<open>
  The proxy does not depend on the sweep: marking the lapsed users expired leaves the desired
  state of that moment as it is, because they were left out of it already.
\<close>

theorem sweep_leaves_engine_state:
  assumes "sweep_statement db = (Inr n, db')" and "db_clock db = now"
  shows "desired_state now db' = desired_state now db"
proof -
  let ?f = "\<lambda>u. if pu_status u = Active \<and> lapsed now u
     then u\<lparr>pu_status := Expired, pu_version := pu_version u + 1, pu_updated_at := now\<rparr> else u"
  have c: "db_creds db' = db_creds db" and u: "db_users db' = List.map ?f (db_users db)"
    using assms unfolding sweep_statement_def by (auto elim!: update_users_cases)
  have "filter (\<lambda>u. pu_status u = Active \<and> \<not> lapsed now u) (List.map ?f us)
      = filter (\<lambda>u. pu_status u = Active \<and> \<not> lapsed now u) us" for us
    by (induction us) auto
  then show ?thesis by (simp only: desired_state_def engine_rows_def c u)
qed

definition late_db :: server_db where
  \<comment> \<open>two minutes later\<close>
  "late_db = alice_db\<lparr>db_clock := 1700000120000000000\<rparr>"

theorem sweep_leaves_engine_state_witness:
  "\<exists>n db'. sweep_statement late_db = (Inr n, db') \<and> n = 1
     \<and> desired_state 1700000120000000000 db' = desired_state 1700000120000000000 late_db"
proof -
  have "fst (sweep_statement late_db) = Inr 1" by code_simp
  then obtain db' where s: "sweep_statement late_db = (Inr 1, db')" by (metis prod.collapse)
  then show ?thesis
    using sweep_leaves_engine_state [OF s, of 1700000120000000000] by (simp add: late_db_def)
qed

end
