(* ===== verification/UserOutcomes.thy ===== *)
theory UserOutcomes
  imports EngineState
begin

text \<open>
  What single operations of the user service achieve: rotation is all or nothing, fresh edits
  succeed, changes are announced to the deploy pipeline unless a statement fails at the wrong
  moment, and the sweep is right to the second.
\<close>

section \<open>Runs without failing statements\<close>

lemma sql_nofault: "db_faults db = [] \<Longrightarrow> sql f db = f db"
  by (simp add: sql_def)

lemma select_nofault: "db_faults db = [] \<Longrightarrow> select q db = (q db, db)"
  by (simp add: select_def sql_nofault)

lemma update_users_nofault:
  "db_faults db = [] \<Longrightarrow> update_users P f db =
     (Inr (length (filter P (db_users db))), db\<lparr>db_users := List.map (\<lambda>u. if P u then f u else u) (db_users db)\<rparr>)"
  by (simp add: update_users_def sql_nofault)

lemma transaction_nofault:
  assumes "db_faults db = []" "body db = (r, d)" "db_faults d = []"
  shows "transaction body db = (case r of Inl e \<Rightarrow> (Inl e, db) | Inr x \<Rightarrow> (Inr x, d))"
proof -
  have "db\<lparr>db_faults := []\<rparr> = db" using assms(1) by (cases db) simp
  then show ?thesis
    using assms by (auto simp: transaction_def after_def begin_commit_def sql_nofault split: sum.split)
qed

definition announced :: "server_db \<Rightarrow> server_db \<Rightarrow> bool" where
  "announced db db' = (db_hooks db' \<noteq> db_hooks db \<or> same_tables db db')"

lemma record_audit_frame:
  assumes "record_audit e db = (r, db')"
  shows "same_tables db db'" "db_hooks db' = db_hooks db" "db_faults db = [] \<Longrightarrow> db_faults db' = []" "db_clock db' = db_clock db"
  using assms unfolding record_audit_def sql_def
  by (auto simp: same_tables_def split: if_splits list.splits)

lemma run_audit:
  obtains db1 where "same_tables db db1" "db_hooks db1 = db_hooks db" "db_faults db = [] \<longrightarrow> db_faults db1 = []"
    "db_clock db1 = db_clock db" "run (auditAction a act t r d k) db = run k db1"
proof -
  let ?e = "\<lparr>ar_timestamp = 0, ar_actor = ac_name a, ar_action = act, ar_target = t, ar_request_id = ac_request_id a,
    ar_source_ip = ac_source_ip a, ar_user_agent = ac_user_agent a, ar_result = r, ar_detail = d\<rparr>"
  obtain q db1 where q: "record_audit ?e db = (q, db1)" by fastforce
  then show ?thesis using record_audit_frame [OF q] by (intro that [of db1]) (auto simp: auditAction_def)
qed

lemma run_notify [simp]:
  "run (notify n r k) db = run k (db\<lparr>db_hooks := db_hooks db @ [(n, r)]\<rparr>)"
  by (simp add: notify_def)

lemma run_with_now [simp]: "run (with_now k) db = run (k (db_clock db)) db"
  by (simp add: with_now_def)

lemma run_Get_nofault: "db_faults db = [] \<Longrightarrow> run (GetUserByID i k) db = run (k (row_by_id i db)) db"
  by (simp add: GetUserByID_def select_nofault)

lemma run_audit_done: "fst (run (auditAction a act t r d (Done x)) db) = x" "announced db (snd (run (auditAction a act t r d (Done x)) db))"
  by (rule run_audit [of db a act t r d "Done x"], simp add: announced_def)+

lemma run_audit_notify:
  "fst (run (auditAction a act t r d (notify n s (Done x))) db) = x"
  "announced db (snd (run (auditAction a act t r d (notify n s (Done x))) db))"
  by (rule run_audit [of db a act t r d "notify n s (Done x)"], simp add: announced_def)+

lemma run_audit_notify_tables:
  "same_tables db (snd (run (auditAction a act t r d (notify n s (Done x))) db))"
  "db_hooks (snd (run (auditAction a act t r d (notify n s (Done x))) db)) = db_hooks db @ [(n, s)]"
  by (rule run_audit [of db a act t r d "notify n s (Done x)"], simp add: same_tables_def)+

lemma run_write:
  \<comment> \<open>a conditional write of a row, as edits and status changes make it\<close>
  assumes "db_faults db = []"
    and m: "m db = update_users (at_version i v) f db" "\<And>u. pu_id (f u) = pu_id u"
  shows "run (step_then m (\<lambda>r. case r of Inl e \<Rightarrow> k (Inl e)
       | Inr n \<Rightarrow> if n = 0 then versionConflict i (\<lambda>e. k (Inl e)) else GetUserByID i k)) db =
    (if \<exists>u \<in> set (db_users db). at_version i v u
     then run (k (row_by_id i (db\<lparr>db_users := List.map (\<lambda>u. if at_version i v u then f u else u) (db_users db)\<rparr>)))
            (db\<lparr>db_users := List.map (\<lambda>u. if at_version i v u then f u else u) (db_users db)\<rparr>)
     else run (k (Inl (if i \<in> pu_id ` set (db_users db) then Conflict else NotFound))) db)"
proof (cases "\<exists>u \<in> set (db_users db). at_version i v u")
  case True
  then have "filter (at_version i v) (db_users db) \<noteq> []" by (auto simp: filter_empty_conv)
  then show ?thesis using True assms(1) m(1) by (simp add: update_users_nofault run_Get_nofault)
next
  case False
  then have e: "filter (at_version i v) (db_users db) = []" by (auto simp: filter_empty_conv)
  have "db\<lparr>db_users := db_users db\<rparr> = db" by (cases db) simp
  then show ?thesis
    using False assms(1) m(1) e
    by (auto simp: update_users_nofault write_user_no_row versionConflict_def select_nofault row_by_id_def find_None_iff
        split: option.split dest: find_Some_iff [THEN iffD1])
qed

lemma row_after_write:
  assumes "u \<in> set (db_users db)" "at_version i v u" "\<And>u. pu_id (f u) = pu_id u"
  shows "\<exists>w. row_by_id i (db\<lparr>db_users := List.map (\<lambda>u. if at_version i v u then f u else u) (db_users db)\<rparr>) = Inr w"
proof -
  have "f u \<in> set (List.map (\<lambda>u. if at_version i v u then f u else u) (db_users db))" "pu_id (f u) = i"
    using assms by (force simp: at_version_def)+
  then show ?thesis
    by (auto simp: row_by_id_def find_None_iff split: option.split)
qed

section \<open>Changes are announced\<close>

lemma announced_Done [simp]: "announced db db"
  by (simp add: announced_def)

lemma update_reply_announces:
  "announced db (snd (run (update_reply a u (Inl e)) db))"
  "\<exists>x. db_hooks (snd (run (update_reply a u (Inr w)) db)) = db_hooks db @ [x]"
  by (cases e) (simp_all add: update_reply_def run_audit_done run_audit_notify_tables)

lemma transition_reply_announces:
  "announced db (snd (run (transition_reply a act u (Inl e)) db))"
  "\<exists>x. db_hooks (snd (run (transition_reply a act u (Inr w)) db)) = db_hooks db @ [x]"
  by (cases e) (simp_all add: transition_reply_def run_audit_done run_audit_notify_tables)

lemma write_announces:
  assumes "db_faults db = []" and "m db = update_users (at_version i v) f db" and f: "\<And>u. pu_id (f u) = pu_id u"
    and "\<And>e. announced db (snd (run (k (Inl e)) db))" and hooks: "\<And>w d. \<exists>x. db_hooks (snd (run (k (Inr w)) d)) = db_hooks d @ [x]"
  shows "announced db (snd (run (step_then m (\<lambda>r. case r of Inl e \<Rightarrow> k (Inl e)
       | Inr n \<Rightarrow> if n = 0 then versionConflict i (\<lambda>e. k (Inl e)) else GetUserByID i k)) db))"
proof -
  let ?d = "db\<lparr>db_users := List.map (\<lambda>u. if at_version i v u then f u else u) (db_users db)\<rparr>"
  note r = run_write [where k = k and f = f and m = m and i = i and v = v and db = db, OF assms(1) assms(2) f]
  show ?thesis
  proof (cases "\<exists>u \<in> set (db_users db). at_version i v u")
    case True
    then obtain u where u: "u \<in> set (db_users db)" "at_version i v u" by blast
    obtain w where w: "row_by_id i ?d = Inr w" using row_after_write [where f = f, OF u f] by blast
    obtain x where "db_hooks (snd (run (k (Inr w)) ?d)) = db_hooks db @ [x]" using hooks [of w ?d] by auto
    then show ?thesis unfolding r if_P [OF True] w announced_def by simp
  next
    case False
    show ?thesis unfolding r if_not_P [OF False] by (rule assms(4))
  qed
qed

lemma Update_announces: "announced db (snd (run (Update i inp a) db))" if n: "db_faults db = []"
proof (cases "row_by_id i db")
  case (Inr u)
  have "announced db (snd (run (UpdateUser (merge_update inp u) (update_reply a u)) db))"
    unfolding UpdateUser_def
    by (rule write_announces [where v = "pu_version u" and f = "written_by (merge_update inp u) (db_clock db)"])
      (simp_all only: n write_user_def merged_id, simp_all add: written_by_def update_reply_announces [simplified])
  then show ?thesis unfolding Update_def Let_def by (simp add: run_Get_nofault n Inr)
qed (simp add: Update_def run_Get_nofault n)

lemma transition_announces: "announced db (snd (run (transition i st v a act) db))" if n: "db_faults db = []"
proof (cases "row_by_id i db")
  case (Inr u)
  have "announced db (snd (run (SetUserStatus i st v (transition_reply a act u)) db))"
    unfolding SetUserStatus_def
    by (rule write_announces [where v = v and
          f = "\<lambda>u. u\<lparr>pu_status := st, pu_version := pu_version u + 1, pu_updated_at := db_clock db\<rparr>"])
      (simp_all add: n write_status_def transition_reply_announces [simplified])
  then show ?thesis unfolding transition_def by (simp add: run_Get_nofault n Inr)
qed (simp add: transition_def run_Get_nofault n)

lemma Enable_announces: "db_faults db = [] \<Longrightarrow> announced db (snd (run (Enable_user i v a) db))"
  unfolding Enable_user_def
  by (subst run_Get_nofault, assumption, cases "row_by_id i db") (simp_all add: transition_announces)

lemma Delete_announces: "announced db (snd (run (Delete i a) db))" if n: "db_faults db = []"
proof (cases "row_by_id i db")
  case (Inr u)
  have "filter (\<lambda>u. pu_id u = i) (db_users db) \<noteq> []"
    using row_by_id_user [OF Inr] by (auto simp: filter_empty_conv)
  then show ?thesis unfolding Delete_def DeleteUser_def
    by (simp add: run_Get_nofault n Inr delete_user_def sql_nofault announced_def run_audit_notify_tables)
qed (simp add: Delete_def run_Get_nofault n)

lemma Sweep_announces: "announced db (snd (run SweepExpired db))" if n: "db_faults db = []"
proof -
  let ?P = "\<lambda>u. pu_status u = Active \<and> lapsed (db_clock db) u"
  show ?thesis
  proof (cases "filter ?P (db_users db) = []")
    case True
    have "db\<lparr>db_users := db_users db\<rparr> = db" by (cases db) simp
    then show ?thesis
      using True by (simp add: SweepExpired_def sweep_statement_def update_users_nofault n write_user_no_row)
  next
    case False
    then show ?thesis
      by (simp add: SweepExpired_def sweep_statement_def update_users_nofault n announced_def run_audit_notify_tables)
  qed
qed

lemma Reset_announces: "announced db (snd (run (ResetQuota i a) db))" if n: "db_faults db = []"
proof (cases "row_by_id i db")
  case (Inr u)
  obtain r d where r: "reset_usage i (go_day (db_clock db)) (go_month (db_clock db)) db = (r, d)" by fastforce
  have "same_tables db d" by (rule same_reset_usage [OF r])
  moreover have "same_tables d (snd (run (auditAction a act t q s (Done x)) d))" for act t q s x
    by (rule run_audit [of d a act t q s "Done x"]) simp
  ultimately show ?thesis unfolding ResetQuota_def
    by (cases r) (auto simp: run_Get_nofault n Inr r announced_def intro: same_tables_trans)
qed (simp add: ResetQuota_def run_Get_nofault n)

lemma create_user_nofault_same: "create_user u c db = (Inl e, d) \<Longrightarrow> same_tables db d"
  by (erule create_user_cases) auto

definition frames :: "'a statement \<Rightarrow> bool" where
  \<comment> \<open>statements do not call the hook and do not make later ones fail\<close>
  "frames m = (\<forall>db r d. m db = (r, d) \<longrightarrow> db_hooks d = db_hooks db \<and> (db_faults db = [] \<longrightarrow> db_faults d = []))"

lemma framesI:
  "(\<And>db r d. m db = (r, d) \<Longrightarrow> db_hooks d = db_hooks db \<and> (db_faults db = [] \<longrightarrow> db_faults d = [])) \<Longrightarrow> frames m"
  by (simp add: frames_def)

lemma frames_sql: "frames f \<Longrightarrow> frames (sql f)"
  by (rule framesI) (fastforce simp: frames_def sql_def split: list.splits if_splits)

lemma frames_after: "frames m \<Longrightarrow> (\<And>x. frames (k x)) \<Longrightarrow> frames (after m k)"
  by (rule framesI, erule after_cases) (auto simp: frames_def)

lemma frames_Pair: "frames (Pair r)"
  by (simp add: frames_def)

lemma frames_transaction:
  assumes "frames m"
  shows "frames (transaction m)"
proof (rule framesI)
  fix db r d assume "transaction m db = (r, d)"
  moreover have "frames begin_commit" unfolding begin_commit_def by (intro frames_sql frames_Pair)
  then have "frames (after begin_commit (\<lambda>_. after m (\<lambda>x. after begin_commit (\<lambda>_. Pair (Inr x)))))"
    using assms by (intro frames_after frames_Pair)
  ultimately show "db_hooks d = db_hooks db \<and> (db_faults db = [] \<longrightarrow> db_faults d = [])"
    unfolding frames_def transaction_def by (auto split: prod.splits sum.splits)
qed

lemma frames_create: "frames (create_user u c)"
proof -
  have "frames (insert_user u)" for u unfolding insert_user_def Let_def by (intro frames_sql framesI) (auto split: if_splits)
  moreover have "frames (insert_credential c)" for c unfolding insert_credential_def Let_def by (intro frames_sql framesI) (auto split: if_splits)
  ultimately show ?thesis unfolding create_user_def by (intro frames_transaction frames_after frames_Pair)
qed

lemma frames_rotate: "frames (rotate_credential i c v now)"
proof -
  have "frames (insert_credential c)" for c unfolding insert_credential_def Let_def by (intro frames_sql framesI) (auto split: if_splits)
  moreover have "frames (update_users P f)" for P f unfolding update_users_def by (intro frames_sql framesI) auto
  moreover have "frames (revoke_credentials i now)" unfolding revoke_credentials_def by (intro frames_sql framesI) auto
  moreover have "frames (after (select q) (\<lambda>_ :: stored_user. Pair (Inl e)))" for q e
    unfolding select_def by (intro frames_after frames_sql frames_Pair framesI) auto
  ultimately show ?thesis unfolding rotate_credential_def
    by (intro frames_transaction frames_after) (auto intro: frames_after)
qed

lemma create_reply_announces:
  "announced db (snd (run (create_reply a n p (Inl e)) db))"
  "\<exists>x. db_hooks (snd (run (create_reply a n p (Inr w)) db)) = db_hooks db @ [x]"
  by (cases e) (simp_all add: create_reply_def run_audit_done run_audit_notify_tables)

lemma rotate_reply_announces:
  "announced db (snd (run (rotate_reply a u p (Inl e)) db))"
  "\<exists>x. db_hooks (snd (run (rotate_reply a u p (Inr w)) db)) = db_hooks db @ [x]"
  by (cases e) (simp_all add: rotate_reply_def run_audit_done run_audit_notify_tables)

lemma rotate_reply_outcome:
  "same_tables d (snd (run (rotate_reply a u password y) d))"
  "succeeded (fst (run (rotate_reply a u password y) d)) \<Longrightarrow> \<exists>w. y = Inr w"
  "fst (run (rotate_reply a u password y) d) = Inr (SecretReply w p) \<Longrightarrow> p = password"
proof -
  have quiet_end: "same_tables d (snd (run (auditAction a act t q s (Done x)) d))" for act t q s x
    by (rule run_audit [of d a act t q s "Done x"]) simp
  have "(same_tables d (snd (run (rotate_reply a u password y) d)))
    \<and> (succeeded (fst (run (rotate_reply a u password y) d)) \<longrightarrow> (\<exists>w. y = Inr w))
    \<and> (fst (run (rotate_reply a u password y) d) = Inr (SecretReply w p) \<longrightarrow> p = password)"
  proof (cases y)
    case (Inl e)
    then show ?thesis by (cases e) (auto simp: rotate_reply_def quiet_end run_audit_done succeeded_def)
  next
    case (Inr w)
    then show ?thesis by (auto simp: rotate_reply_def run_audit_notify run_audit_notify_tables succeeded_def)
  qed
  then show "same_tables d (snd (run (rotate_reply a u password y) d))"
    "succeeded (fst (run (rotate_reply a u password y) d)) \<Longrightarrow> \<exists>w. y = Inr w"
    "fst (run (rotate_reply a u password y) d) = Inr (SecretReply w p) \<Longrightarrow> p = password" by blast+
qed

lemma announced_same: "same_tables db d \<Longrightarrow> db_hooks d = db_hooks db \<Longrightarrow> announced d e \<Longrightarrow> announced db e"
  by (auto simp: announced_def intro: same_tables_trans)

lemma announced_hook: "db_hooks d = db_hooks db \<Longrightarrow> \<exists>x. db_hooks e = db_hooks d @ [x] \<Longrightarrow> announced db e"
  by (auto simp: announced_def)

lemma Create_announces: "announced db (snd (run (Create c i a) db))" if n: "db_faults db = []"
proof -
  have k: "announced db (snd (run (CreateUser u cr (create_reply a name password)) db))" for u cr name password
  proof -
    obtain r d where r: "create_user u cr db = (r, d)" by fastforce
    have h: "db_hooks d = db_hooks db" using frames_create r by (auto simp: frames_def)
    show ?thesis
    proof (cases r)
      case (Inl e)
      then have "same_tables db d" using r by (auto elim: create_user_cases)
      then show ?thesis
        using Inl r announced_same [OF _ h create_reply_announces(1)] create_reply_announces(1) by (simp add: CreateUser_def)
    next
      case (Inr w)
      then show ?thesis
        using r announced_hook [OF h create_reply_announces(2)] create_reply_announces(1) by (simp add: CreateUser_def)
    qed
  qed
  show ?thesis unfolding Create_def Let_def
    by (cases "newEngineHash c (if ci_password i = [] then generatePassword c else ci_password i)";
        cases "newAPIHash c (if ci_password i = [] then generatePassword c else ci_password i)")
      (simp_all only: run_with_now option.case prod.case if_True if_False k split: if_split, simp_all)
qed

lemma Rotate_announces: "announced db (snd (run (RotateCredentials c i given a) db))"
  if n: "db_faults db = []"
proof (cases "row_by_id i db")
  case (Inr u)
  have k: "announced db (snd (run (RotateCredential i cr v now (rotate_reply a u password)) db))" for cr v now password
  proof -
    obtain r d where r: "rotate_credential i cr v now db = (r, d)" by fastforce
    have h: "db_hooks d = db_hooks db" using frames_rotate r by (auto simp: frames_def)
    from r show ?thesis
    proof (cases rule: rotate_credential_cases)
      case (1 e)
      then show ?thesis
        using r announced_same [OF _ h rotate_reply_announces(1)] rotate_reply_announces(1) by (simp add: RotateCredential_def)
    next
      case 2
      let ?f = "\<lambda>u. u\<lparr>pu_version := pu_version u + 1, pu_updated_at := now\<rparr>"
      obtain x where x: "x \<in> set (db_users db)" "at_version i v x" using 2(2) by blast
      obtain w where "row_by_id i (db\<lparr>db_users := List.map (\<lambda>u. if at_version i v u then ?f u else u) (db_users db)\<rparr>) = Inr w"
        using row_after_write [where f = ?f, OF x] by auto
      then have w: "row_by_id i d = Inr w" by (simp add: row_by_id_def 2(4))
      have "db_faults d = []" using frames_rotate r n by (auto simp: frames_def)
      then show ?thesis
        using 2(1) r w announced_hook [OF h rotate_reply_announces(2)] rotate_reply_announces(1)
        by (simp add: RotateCredential_def run_Get_nofault)
    qed
  qed
  show ?thesis unfolding RotateCredentials_def Let_def
    by (cases "newEngineHash c (if given = [] then generatePassword c else given)";
        cases "newAPIHash c (if given = [] then generatePassword c else given)")
      (simp_all only: run_Get_nofault n Inr sum.case run_with_now option.case prod.case if_True if_False k split: if_split, simp_all)
qed (simp add: RotateCredentials_def run_Get_nofault n)

lemma serve_announces: "db_faults db = [] \<Longrightarrow> announced db (snd (run (serve x) db))"
  by (cases x rule: serve.cases)
    (simp_all add: Create_announces Update_announces transition_announces Delete_announces Rotate_announces
      Enable_announces Reset_announces Sweep_announces Disable_user_def Get_def List_users_def ListUsers_def
      run_Get_nofault select_nofault split: sum.split)

lemma same_tables_desired: "same_tables db db' \<Longrightarrow> desired_state now db' = desired_state now db"
  by (simp add: same_tables_def desired_state_def engine_rows_def)

section \<open>Properties\<close>

text \<open>
  C13. No change goes unannounced while statements succeed: after any call either the hook that
  triggers a deployment was called, or the state the proxy should have is the one it had.
\<close>

theorem changes_are_announced:
  assumes "db_faults db = []" and "run (serve call) db = (r, db')"
  shows "db_hooks db' \<noteq> db_hooks db \<or> desired_state now db' = desired_state now db"
  using serve_announces [OF assms(1), of call] same_tables_desired assms(2) by (auto simp: announced_def)

theorem changes_are_announced_witness:
  "\<exists>r db'. run (serve (sample_crypto, sample_actor, DisableCall 1 1)) alice_db = (r, db') \<and> succeeded r
     \<and> (db_hooks db' \<noteq> db_hooks alice_db \<or> desired_state 1700000000000000000 db' = desired_state 1700000000000000000 alice_db)"
proof -
  obtain r db' where r: "run (serve (sample_crypto, sample_actor, DisableCall 1 1)) alice_db = (r, db')" by fastforce
  have "succeeded (fst (run (serve (sample_crypto, sample_actor, DisableCall 1 1)) alice_db))" by code_simp
  moreover have "db_faults alice_db = []" by code_simp
  ultimately show ?thesis using changes_are_announced [OF _ r] r by auto
qed

lemma bool_list_cases:
  \<comment> \<open>which of the next three statements is the first that fails\<close>
  obtains (third) fs where "l = False # False # True # fs" | (first) fs where "l = True # fs"
  | (second) fs where "l = False # True # fs" | (later) fs where "l = False # False # False # fs"
  | (empty) "l = []" | (one) "l = [False]" | (two) "l = [False, False]"
  by (metis (full_types) neq_Nil_conv)

lemma transition_reply_done:
  assumes "run (transition_reply a act u (Inr w)) d = (r, db')"
  shows "succeeded r"
  using assms run_audit_notify(1) [of a act "pu_username u" "''success''" "[]" "ac_name a" "act @ '':'' @ pu_username u" "Inr (UserReply w)" d]
  by (simp add: transition_reply_def succeeded_def)

lemma transition_from_write:
  \<comment> \<open>what is left of a status change once the user was read\<close>
  assumes "store_ok db" "u \<in> set (db_users db)" "run (transition (pu_id u) st (pu_version u) a act) db = (r, db')"
    and "db_faults db = False # fs"
  shows "run (SetUserStatus (pu_id u) st (pu_version u) (transition_reply a act u)) (db\<lparr>db_faults := fs\<rparr>) = (r, db')"
proof -
  have "row_by_id (pu_id u) (db\<lparr>db_faults := fs\<rparr>) = Inr u"
    using assms(1,2) row_by_id_iff [of db "pu_id u" u] by (simp add: row_by_id_def)
  then show ?thesis using assms(3,4) by (simp add: transition_def GetUserByID_def select_def sql_def)
qed

text \<open>
  C16. A change can go unreported. Take a status change of a user at the version stored. If the
  third statement, which reads the row back, is the first that fails, then the caller is told
  that the operation failed, the row has the new status all the same, neither an audit entry nor
  a notification is made, and a user no longer active is not in the state the proxy should have,
  although no deployment was asked for. In no other case does a change to a user go unreported.
\<close>

theorem committed_change_may_go_unreported:
  assumes "store_ok db" and "u \<in> set (db_users db)"
    and "run (transition (pu_id u) st (pu_version u) a act) db = (r, db')"
  shows "if \<exists>fs. db_faults db = False # False # True # fs
    then r = Inl Internal
      \<and> (\<exists>w \<in> set (db_users db'). pu_id w = pu_id u \<and> pu_status w = st \<and> pu_version w = pu_version u + 1)
      \<and> db_audit db' = db_audit db \<and> db_hooks db' = db_hooks db
      \<and> (st \<noteq> Active \<longrightarrow> pu_username u \<notin> eu_username ` set (desired_state now1 db'))
    else succeeded r \<or> db_users db' = db_users db"
proof -
  let ?f = "\<lambda>w. w\<lparr>pu_status := st, pu_version := pu_version w + 1, pu_updated_at := db_clock db\<rparr>"
  let ?us = "List.map (\<lambda>w. if at_version (pu_id u) (pu_version u) w then ?f w else w) (db_users db)"
  have hit: "filter (at_version (pu_id u) (pu_version u)) (db_users db) \<noteq> []"
    using assms(2) by (auto simp: filter_empty_conv at_version_def)
  have again: "\<exists>w. row_by_id (pu_id u) (db\<lparr>db_users := ?us, db_faults := fs\<rparr>) = Inr w" for fs
    using row_after_write [OF assms(2), of "pu_id u" "pu_version u" ?f] by (simp add: row_by_id_def at_version_def)
  have found: "row_by_id (pu_id u) db = Inr u" using assms(1,2) by (simp add: row_by_id_iff)
  have turn: "db\<lparr>db_faults := [], db_users := ?us\<rparr> = db\<lparr>db_users := ?us, db_faults := []\<rparr>" by simp
  note rest = transition_from_write [OF assms]
  note defs = SetUserStatus_def write_status_def update_users_def GetUserByID_def select_def sql_def
  show ?thesis
  proof (cases "db_faults db" rule: bool_list_cases)
    case (third fs)
    have out: "r = Inl Internal" "db' = db\<lparr>db_users := ?us, db_faults := fs\<rparr>"
      using rest [OF third] hit by (simp_all add: defs transition_reply_def)
    have row: "?f u \<in> set (db_users db')" using assms(2) out(2) by (force simp: at_version_def)
    have "write_status (pu_id u) st (pu_version u) (db\<lparr>db_faults := []\<rparr>)
        = (Inr (length (filter (at_version (pu_id u) (pu_version u)) (db_users db))), db\<lparr>db_users := ?us, db_faults := []\<rparr>)"
      by (simp add: write_status_def update_users_def sql_def)
    moreover have "store_ok (db\<lparr>db_faults := []\<rparr>)"
      using assms(1) same_tables_ok [of db "db\<lparr>db_faults := []\<rparr>"] by (simp add: same_tables_def)
    ultimately have "store_ok (db\<lparr>db_users := ?us, db_faults := []\<rparr>)"
      using keeps_write_status unfolding keeps_def by blast
    then have ok: "store_ok db'"
      using same_tables_ok [of "db\<lparr>db_users := ?us, db_faults := []\<rparr>" db'] by (simp add: same_tables_def out(2))
    have "pu_username u \<notin> eu_username ` set (desired_state now1 db')" if "st \<noteq> Active"
    proof
      assume "pu_username u \<in> eu_username ` set (desired_state now1 db')"
      then obtain v where v: "v \<in> set (db_users db')" "pu_username v = pu_username (?f u)" "pu_status v = Active"
        by (auto simp: set_desired_state [OF ok] engine_user_of_def admitted_def)
      have "inj_on pu_username (set (db_users db'))" using ok by (simp add: store_ok_def distinct_map)
      then have "v = ?f u" using v(1,2) row by (simp only: inj_on_eq_iff)
      then show False using v(3) that by simp
    qed
    moreover have "\<exists>w \<in> set (db_users db'). pu_id w = pu_id u \<and> pu_status w = st \<and> pu_version w = pu_version u + 1"
      by (rule bexI [OF _ row]) simp
    moreover have "db_audit db' = db_audit db" "db_hooks db' = db_hooks db" by (simp_all add: out(2))
    ultimately show ?thesis using third out(1) by auto
  next
    case first
    then show ?thesis using assms(3) by (auto simp: transition_def defs)
  next
    case second
    then show ?thesis using rest [OF second] by (auto simp: defs transition_reply_def)
  next
    case (later fs)
    obtain w where "row_by_id (pu_id u) (db\<lparr>db_users := ?us, db_faults := fs\<rparr>) = Inr w" using again by blast
    then show ?thesis using rest [OF later] hit later by (auto simp: defs dest!: transition_reply_done)
  next
    case empty
    have whole: "db\<lparr>db_users := ?us, db_faults := []\<rparr> = db\<lparr>db_users := ?us\<rparr>" using empty by (cases db) simp
    obtain w where "row_by_id (pu_id u) (db\<lparr>db_users := ?us\<rparr>) = Inr w" using again [of "[]"] unfolding whole by blast
    then show ?thesis using assms(3) found hit empty by (auto simp: transition_def defs dest!: transition_reply_done)
  next
    case one
    obtain w where "row_by_id (pu_id u) (db\<lparr>db_users := ?us, db_faults := []\<rparr>) = Inr w" using again by blast
    then show ?thesis using rest [OF one] hit one by (auto simp: defs turn dest!: transition_reply_done)
  next
    case two
    obtain w where "row_by_id (pu_id u) (db\<lparr>db_users := ?us, db_faults := []\<rparr>) = Inr w" using again by blast
    then show ?thesis using rest [OF two] hit two by (auto simp: defs turn dest!: transition_reply_done)
  qed
qed

theorem committed_change_may_go_unreported_witness:
  "\<exists>db db'. run (transition 1 Disabled 1 sample_actor ''user.disable'') db = (Inl Internal, db')
     \<and> List.map pu_status (db_users db') = [Disabled] \<and> db_hooks db' = db_hooks db \<and> length (desired_state 1700000000000000000 db) = 1
     \<and> desired_state 1700000000000000000 db' = []"
proof -
  let ?db = "alice_db\<lparr>db_faults := [False, False, True]\<rparr>"
  let ?u = "hd (db_users alice_db)"
  obtain r db' where run: "run (transition 1 Disabled 1 sample_actor ''user.disable'') ?db = (r, db')" by fastforce
  have "store_ok ?db" by code_simp
  moreover have u: "db_users ?db = [?u]" "pu_id ?u = 1" "pu_version ?u = 1" by code_simp+
  moreover have "?u \<in> set (db_users ?db)" by (simp add: u(1))
  moreover have "length (desired_state 1700000000000000000 ?db) = 1" by code_simp
  moreover have "desired_state 1700000000000000000 (snd (run (transition 1 Disabled 1 sample_actor ''user.disable'') ?db)) = []"
    "List.map pu_status (db_users (snd (run (transition 1 Disabled 1 sample_actor ''user.disable'') ?db))) = [Disabled]"
    by code_simp+
  ultimately show ?thesis
    using committed_change_may_go_unreported [of ?db ?u Disabled sample_actor "''user.disable''" r db' 1700000000000000000] run
    by (intro exI [of "\<lambda>d. \<exists>d'. _ d d'" ?db]) auto
qed

text \<open>
  C6. Rotation is all or nothing: whichever statements fail, either the tables are as before and the
  caller gets no password, or the verifier of the new password is the only active one of the
  user, so that the old password is gone; and a password the caller gets is the one in force.
\<close>

theorem rotation_is_all_or_nothing:
  assumes "run (RotateCredentials c i given a) db = (r, db')"
    and "password = (if given = [] then generatePassword c else given)"
  shows "(same_tables db db' \<and> \<not> succeeded r)
     \<or> (\<exists>h. newEngineHash c password = Some h \<and> List.map cr_engine_hash (active_credentials i db') = [h]
          \<and> (\<forall>j. j \<noteq> i \<longrightarrow> active_credentials j db' = active_credentials j db)
          \<and> (\<forall>u p. r = Inr (SecretReply u p) \<longrightarrow> p = password))"
proof -
  obtain q db1 where q: "select (row_by_id i) db = (q, db1)" by fastforce
  have same1: "same_tables db db1" by (rule same_select [OF q])
  show ?thesis
  proof (cases "\<exists>u h k. q = Inr u \<and> (given = [] \<or> validatePassword given (pu_username u))
      \<and> newEngineHash c password = Some h \<and> newAPIHash c password = Some k")
    case False
    then have "db' = db1 \<and> \<not> succeeded r"
      using assms q by (auto simp: RotateCredentials_def GetUserByID_def Let_def succeeded_def
          split: sum.splits option.splits if_splits)
    then show ?thesis using same1 by simp
  next
    case True
    then obtain u h k where u: "q = Inr u" "given = [] \<or> validatePassword given (pu_username u)"
      and h: "newEngineHash c password = Some h" "newAPIHash c password = Some k" by blast
    let ?c = "\<lparr>cr_id = 0, cr_user_id = 0, cr_engine_hash = h, cr_api_hash = k,
               cr_status = CredentialActive, cr_created_at = db_clock db1, cr_rotated_at = None\<rparr>"
    have run: "run (RotateCredential i ?c (pu_version u) (db_clock db1) (rotate_reply a u password)) db1 = (r, db')"
      using assms q u h by (auto simp: RotateCredentials_def GetUserByID_def Let_def split: if_splits)
    obtain x db2 where x: "rotate_credential i ?c (pu_version u) (db_clock db1) db1 = (x, db2)" by fastforce
    note reply = rotate_reply_outcome [where a = a and u = u and password = password]
    from x show ?thesis
    proof (cases rule: rotate_credential_cases)
      case (1 e)
      then have "(r, db') = run (rotate_reply a u password (Inl e)) db2"
        using run x by (simp add: RotateCredential_def)
      then have e: "r = fst (run (rotate_reply a u password (Inl e)) db2)" "db' = snd (run (rotate_reply a u password (Inl e)) db2)"
        by (simp_all add: prod_eq_iff)
      have "same_tables db2 db'" unfolding e(2) by (rule reply(1))
      moreover have "\<not> succeeded r" unfolding e(1) using reply(2) [of "Inl e" db2] by blast
      ultimately show ?thesis using same_tables_trans [OF same1 same_tables_trans [OF 1(2)]] by simp
    next
      case 2
      obtain y db3 where y: "select (row_by_id i) db2 = (y, db3)" by fastforce
      then have "(r, db') = run (rotate_reply a u password y) db3"
        using run x 2(1) by (simp add: RotateCredential_def GetUserByID_def)
      then have e: "r = fst (run (rotate_reply a u password y) db3)" "db' = snd (run (rotate_reply a u password y) db3)"
        by (simp_all add: prod_eq_iff)
      have "same_tables db2 db'" unfolding e(2) by (rule same_tables_trans [OF same_select [OF y] reply(1)])
      then have a: "active_credentials j db' = active_credentials j db2" for j
        by (simp add: same_tables_def active_credentials_def)
      have p: "\<forall>w p. r = Inr (SecretReply w p) \<longrightarrow> p = password" unfolding e(1) using reply(3) by blast
      have "active_credentials j db1 = active_credentials j db" for j
        using same1 by (simp add: same_tables_def active_credentials_def)
      moreover have "active_credentials j db2 = (if j = i then [?c\<lparr>cr_user_id := i, cr_id := db_cred_seq db1 + 1,
          cr_status := CredentialActive, cr_rotated_at := None\<rparr>] else active_credentials j db1)" for j
        by (rule active_after_rotation [OF 2(5)]) simp_all
      ultimately have "List.map cr_engine_hash (active_credentials i db') = [h]"
        "\<forall>j. j \<noteq> i \<longrightarrow> active_credentials j db' = active_credentials j db"
        by (simp_all add: a)
      then show ?thesis using h(1) p by (intro disjI2 exI [of _ h] conjI)
    qed
  qed
qed

theorem rotation_is_all_or_nothing_witness:
  "\<exists>h. newEngineHash sample_crypto ''correct horse'' = Some h
     \<and> List.map cr_engine_hash (active_credentials 1 (snd (run (RotateCredentials sample_crypto 1 ''correct horse'' sample_actor) alice_db))) = [h]"
proof -
  let ?run = "run (RotateCredentials sample_crypto 1 ''correct horse'' sample_actor) alice_db"
  have "succeeded (fst ?run)" by code_simp
  then show ?thesis
    using rotation_is_all_or_nothing [of sample_crypto 1 "''correct horse''" sample_actor alice_db "fst ?run" "snd ?run" "''correct horse''"]
    by auto
qed

text \<open>
  An edit from a fresh view succeeds: when no statement fails and the row still has the version
  of the edit, a valid edit is written, and the answer is the row with the fields of the edit
  and the next version.
\<close>

theorem fresh_edit_succeeds:
  assumes "store_ok db" and "db_faults db = []" and "row_by_id i db = Inr u"
    and "ui_version inp = pu_version u" and "validateMutated (merge_update inp u) = []"
  shows "\<exists>db'. run (Update i inp a) db = (Inr (UserReply (written_by (merge_update inp u) (db_clock db) u)), db')
    \<and> row_by_id i db' = Inr (written_by (merge_update inp u) (db_clock db) u)"
proof -
  let ?f = "written_by (merge_update inp u) (db_clock db)"
  let ?d = "db\<lparr>db_users := List.map (\<lambda>w. if at_version i (pu_version u) w then ?f w else w) (db_users db)\<rparr>"
  have u: "u \<in> set (db_users db)" "pu_id u = i" using row_by_id_user [OF assms(3)] by simp_all
  have v: "pu_version u \<noteq> 0" using assms(1) u(1) by (force simp: store_ok_def user_ok_def)
  have at: "\<exists>u' \<in> set (db_users db). at_version i (pu_version u) u'" using u by (auto simp: at_version_def)
  have "keeps (write_user (merge_update inp u))" by (rule keeps_write_user [OF assms(5)])
  moreover have "write_user (merge_update inp u) db = (Inr (length (filter (at_version i (pu_version u)) (db_users db))), ?d)"
    by (simp add: write_user_def update_users_nofault [OF assms(2)] u(2))
  ultimately have ok: "store_ok ?d" using assms(1) by (auto simp: keeps_def)
  have "?f u \<in> set (db_users ?d)" "pu_id (?f u) = i"
    using u by (force simp: at_version_def image_iff, simp add: written_by_def)
  then have row: "row_by_id i ?d = Inr (?f u)" using row_by_id_iff [OF ok] by blast
  have "run (Update i inp a) db = run (UpdateUser (merge_update inp u) (update_reply a u)) db"
    using assms v by (simp add: Update_def run_Get_nofault Let_def)
  also have "\<dots> = run (update_reply a u (row_by_id i ?d)) ?d"
    unfolding UpdateUser_def merged_id u(2)
    by (subst run_write [where v = "pu_version u" and f = ?f])
      (use assms(2) at u(2) in \<open>simp_all add: write_user_def written_by_def\<close>)
  finally have run: "run (Update i inp a) db = run (update_reply a u (Inr (?f u))) ?d" unfolding row .
  have "same_tables ?d (snd (run (update_reply a u (Inr (?f u))) ?d))"
    "fst (run (update_reply a u (Inr (?f u))) ?d) = Inr (UserReply (?f u))"
    by (simp_all add: update_reply_def run_audit_notify_tables run_audit_notify)
  then show ?thesis
    unfolding run by (intro exI [of _ "snd (run (update_reply a u (Inr (?f u))) ?d)"])
      (simp add: prod_eq_iff row_by_id_def same_tables_def, use row in \<open>simp add: row_by_id_def\<close>)
qed

theorem fresh_edit_succeeds_witness:
  "\<exists>w db'. run (Update 1 (quota_edit 1 2000000000) sample_actor) alice_db = (Inr (UserReply w), db')
     \<and> pu_quota_monthly w = 2000000000 \<and> pu_version w = 2"
proof -
  obtain u where u: "row_by_id 1 alice_db = Inr u"
  proof (cases "row_by_id 1 alice_db")
    case (Inl e)
    moreover have "(case row_by_id 1 alice_db of Inl _ \<Rightarrow> False | Inr _ \<Rightarrow> True)" by code_simp
    ultimately show ?thesis by simp
  qed
  have "case row_by_id 1 alice_db of Inl _ \<Rightarrow> False
      | Inr u \<Rightarrow> pu_version u = 1 \<and> validateMutated (merge_update (quota_edit 1 2000000000) u) = []" by code_simp
  then have v: "pu_version u = 1" "validateMutated (merge_update (quota_edit 1 2000000000) u) = []"
    by (simp_all add: u)
  have "db_faults alice_db = []" by code_simp
  moreover have "ui_version (quota_edit 1 2000000000) = pu_version u" using v(1) by (simp add: quota_edit_def)
  ultimately show ?thesis
    using fresh_edit_succeeds [OF alice_db_ok _ u _ v(2), of sample_actor] v(1)
    by (auto simp: written_by_def merge_update_def quota_edit_def)
qed

text \<open>
  C14. The sweep is right to the second. Although it compares times as text, a sweep expires every
  active user whose expiry lies in an earlier second than the clock, with a new version, and
  touches no user whose expiry lies in a later one.
\<close>

theorem sweep_is_right_to_the_second:
  assumes "sweep_statement db = (Inr n, db')"
    and "u \<in> set (db_users db)" "pu_status u = Active" "pu_expires_at u = Some e"
    and "in_years (e div 10 ^ 9)" "in_years (db_clock db div 10 ^ 9)"
  shows "(e div 10 ^ 9 < db_clock db div 10 ^ 9 \<longrightarrow>
      (\<exists>v \<in> set (db_users db'). pu_id v = pu_id u \<and> pu_status v = Expired \<and> pu_version v = pu_version u + 1))
    \<and> (db_clock db div 10 ^ 9 < e div 10 ^ 9 \<longrightarrow> u \<in> set (db_users db'))"
proof (intro conjI impI)
  let ?P = "\<lambda>u. pu_status u = Active \<and> lapsed (db_clock db) u"
  let ?f = "\<lambda>u. u\<lparr>pu_status := Expired, pu_version := pu_version u + 1, pu_updated_at := db_clock db\<rparr>"
  have d: "db_users db' = List.map (\<lambda>u. if ?P u then ?f u else u) (db_users db)"
    using assms(1) unfolding sweep_statement_def by (auto elim!: update_users_cases)
  have m: "(if ?P u then ?f u else u) \<in> set (db_users db')" unfolding d using assms(2) by (force simp: image_iff)
  note t = sql_time_le_seconds [OF assms(5,6)]
  show "\<exists>v \<in> set (db_users db'). pu_id v = pu_id u \<and> pu_status v = Expired \<and> pu_version v = pu_version u + 1"
    if "e div 10 ^ 9 < db_clock db div 10 ^ 9"
  proof -
    have "?P u" using t(1) that assms(3,4) by (simp add: lapsed_def)
    then show ?thesis using m by (intro bexI [of _ "?f u"]) auto
  qed
  show "u \<in> set (db_users db')" if "db_clock db div 10 ^ 9 < e div 10 ^ 9"
  proof -
    have q: "\<not> ?P u" using t(2) that assms(4) by (simp add: lapsed_def)
    from m show ?thesis unfolding if_not_P [OF q] by simp
  qed
qed

text \<open>Within a second the order of the texts is not the order of the times.\<close>

lemma text_order_within_a_second:
  "\<not> sql_time_le 1700000000000000000 1700000000500000000" "sql_time_le 1700000000500000000 1700000000000000000"
  by code_simp+

theorem sweep_is_right_to_the_second_witness:
  "\<exists>n db'. sweep_statement late_db = (Inr n, db') \<and> (\<exists>v \<in> set (db_users db'). pu_id v = 1 \<and> pu_status v = Expired \<and> pu_version v = 2)"
proof -
  have "fst (sweep_statement late_db) = Inr 1" by code_simp
  then obtain db' where s: "sweep_statement late_db = (Inr 1, db')" by (metis prod.collapse)
  have "List.map (\<lambda>u. (pu_id u, pu_status u, pu_expires_at u, pu_version u)) (db_users late_db)
      = [(1, Active, Some 1700000060000000000, 1)]" by code_simp
  then obtain u where u: "u \<in> set (db_users late_db)" "pu_id u = 1" "pu_status u = Active"
    "pu_expires_at u = Some 1700000060000000000" "pu_version u = 1" by (auto simp: map_eq_Cons_conv)
  have "in_years (1700000060000000000 div 10 ^ 9)" "in_years (db_clock late_db div 10 ^ 9)"
    "1700000060000000000 div 10 ^ 9 < db_clock late_db div 10 ^ 9" by code_simp+
  then show ?thesis using sweep_is_right_to_the_second [OF s u(1,3,4)] s u(2,5) by auto
qed

end
