(* ===== verification/UserApi.thy ===== *)
theory UserApi
  imports UserOutcomes LogsPage RequestDecoding
begin

text \<open>
  The user endpoints of the server, \<open>internal/api/user_handlers.go\<close> with the routes of
  \<open>internal/api/server.go\<close>: a call as the console sends it is decoded, run by the user service
  over the store, and answered with a status and a body or an error code. The end of the theory
  puts the users page, these handlers, the service and the store together.
\<close>

section \<open>Decoded bodies\<close>

definition field_value :: "jsval \<Rightarrow> string \<Rightarrow> jsval" where
  \<comment> \<open>the member a field is read from; a body names a field at most once\<close>
  "field_value v k =
     (case v of
        JObj ms \<Rightarrow> coalesce (map_option snd (List.find (\<lambda>(n, x). x \<noteq> JUndef \<and> toUpperCase n = toUpperCase k) ms)) JNull
      | _ \<Rightarrow> JNull)"

fun read_int :: "jsval \<Rightarrow> int option" where
  "read_int (JNum (Fin x)) = Some \<lfloor>x\<rfloor>"
| "read_int _ = None"

fun read_string :: "jsval \<Rightarrow> string option" where
  "read_string (JStr s) = Some s"
| "read_string _ = None"

fun read_strings :: "jsval \<Rightarrow> string list option" where
  "read_strings (JArr vs) = Some (List.map (\<lambda>v. coalesce (read_string v) []) vs)"
| "read_strings _ = None"

definition go_instant :: "string \<Rightarrow> instant" where
  \<comment> \<open>the time an accepted RFC 3339 text names; digits past the nanosecond are dropped\<close>
  "go_instant s =
     (let num = (\<lambda>i. coalesce (number_at 2 (drop i s)) 0); r = drop 19 s;
          ds = (if char_at r 0 = Some CHR ''.'' then takeWhile is_digit (drop 1 r) else []);
          z = (if ds = [] then r else dropWhile is_digit (drop 1 r));
          ahead = (if z = ''Z'' then 0
            else (if char_at z 0 = Some CHR ''-'' then -1 else 1)
              * (coalesce (number_at 2 (drop 1 z)) 0 * 3600 + coalesce (number_at 2 (drop 4 z)) 0 * 60))
      in (coalesce (parse_date s) 0 * 86400 + num 11 * 3600 + num 14 * 60 + num 17 - ahead) * 10 ^ 9
         + digits_val (take 9 (ds @ ''000000000'')))"

definition create_body :: "jsval \<Rightarrow> create_input" where
  "create_body v =
     \<lparr>ci_username = coalesce (read_string (field_value v ''username'')) [],
      ci_password = coalesce (read_string (field_value v ''password'')) [],
      ci_protocols = coalesce (read_strings (field_value v ''allowed_protocols'')) [],
      ci_download = coalesce (read_int (field_value v ''download_limit_bps'')) 0,
      ci_upload = coalesce (read_int (field_value v ''upload_limit_bps'')) 0,
      ci_max_connections = coalesce (read_int (field_value v ''max_connections'')) 0,
      ci_quota_daily = coalesce (read_int (field_value v ''quota_bytes_daily'')) 0,
      ci_quota_monthly = coalesce (read_int (field_value v ''quota_bytes_monthly'')) 0,
      ci_expires_at = map_option go_instant (read_string (field_value v ''expires_at''))\<rparr>"

definition update_body :: "jsval \<Rightarrow> update_input" where
  "update_body v =
     \<lparr>ui_version = coalesce (read_int (field_value v ''version'')) 0,
      ui_protocols = read_strings (field_value v ''allowed_protocols''),
      ui_download = read_int (field_value v ''download_limit_bps''),
      ui_upload = read_int (field_value v ''upload_limit_bps''),
      ui_max_connections = read_int (field_value v ''max_connections''),
      ui_quota_daily = read_int (field_value v ''quota_bytes_daily''),
      ui_quota_monthly = read_int (field_value v ''quota_bytes_monthly''),
      ui_expires_at = map_option go_instant (read_string (field_value v ''expires_at'')),
      ui_clear_expiration = (field_value v ''clear_expiration'' = JBool True)\<rparr>"

section \<open>Answers\<close>

datatype answer_body =
    UserBody proxy_user
  | SecretBody new_credential
  | UsersBody "proxy_user list"
  | StatusOk

type_synonym answer = "(nat \<times> string) + (nat \<times> answer_body)" \<comment> \<open>an error code, or a body\<close>

type_synonym exchange = "(server_db, answer) prog"

definition toUserResponse :: "stored_user \<Rightarrow> proxy_user" where
  \<comment> \<open>times are stored in UTC and written as RFC 3339\<close>
  "toUserResponse u =
     \<lparr>u_id = pu_id u, u_username = pu_username u, u_status = pu_status u,
      u_allowed_protocols = pu_protocols u, u_download_limit_bps = pu_download u,
      u_upload_limit_bps = pu_upload u, u_max_connections = pu_max_connections u,
      u_quota_bytes_daily = pu_quota_daily u, u_quota_bytes_monthly = pu_quota_monthly u,
      u_expires_at = map_option formatTime (pu_expires_at u), u_version = pu_version u,
      u_created_at = formatTime (pu_created_at u), u_updated_at = formatTime (pu_updated_at u),
      u_last_seen_at = map_option formatTime (pu_last_seen_at u)\<rparr>"

definition oneTimeCredential :: "stored_user \<Rightarrow> string \<Rightarrow> new_credential" where
  "oneTimeCredential u password = proxy_user.extend (toUserResponse u) (new_credential.fields password)"

fun writeUserError :: "service_error \<Rightarrow> nat \<times> string" where
  "writeUserError Missing = (404, ''USER_NOT_FOUND'')"
| "writeUserError UsernameTaken = (409, ''USERNAME_TAKEN'')"
| "writeUserError VersionConflict = (409, ''VERSION_CONFLICT'')"
| "writeUserError ExpiredUser = (400, ''USER_EXPIRED'')"
| "writeUserError (InvalidInput _) = (400, ''INVALID_REQUEST'')"
| "writeUserError WeakPassword = (400, ''INVALID_REQUEST'')"
| "writeUserError Internal = (500, ''INTERNAL'')"

fun write_reply :: "nat \<Rightarrow> service_error + reply \<Rightarrow> answer" where
  \<comment> \<open>how the handlers answer, with the status they use when all went well\<close>
  "write_reply status (Inl e) = Inl (writeUserError e)"
| "write_reply status (Inr (UserReply u)) = Inr (status, UserBody (toUserResponse u))"
| "write_reply status (Inr (SecretReply u p)) = Inr (status, SecretBody (oneTimeCredential u p))"
| "write_reply status (Inr (ListReply us)) = Inr (status, UsersBody (List.map toUserResponse us))"
| "write_reply status (Inr (CountReply _)) = Inr (status, StatusOk)"
| "write_reply status (Inr DoneReply) = Inr (status, StatusOk)"

section \<open>Parameters\<close>

definition parseUserID :: "string \<Rightarrow> int option" where
  "parseUserID s = (case atoi s of None \<Rightarrow> None | Some i \<Rightarrow> if i < 1 then None else Some i)"

definition parse_status :: "string \<Rightarrow> user_status option" where
  "parse_status s =
     (if s = ''active'' then Some Active else if s = ''disabled'' then Some Disabled
      else if s = ''expired'' then Some Expired else None)"

definition parseUserFilter :: "(string \<times> string) list \<Rightarrow> user_filter option" where
  \<comment> \<open>\<open>None\<close> is answered with 400\<close>
  "parseUserFilter ps =
     (case optional_param ps ''limit'' 100 (\<lambda>n. 1 \<le> n \<and> n \<le> 500) of
        None \<Rightarrow> None
      | Some limit \<Rightarrow>
          (case optional_param ps ''before_id'' 0 (\<lambda>n. 1 \<le> n) of
             None \<Rightarrow> None
           | Some before \<Rightarrow>
               (let f = \<lparr>uf_status = None, uf_username = [], uf_before_id = before, uf_limit = limit, uf_offset = 0\<rparr>;
                    v = coalesce (params_get ps ''status'') []
                in if v = [] then Some f
                   else case parse_status v of None \<Rightarrow> None | Some s \<Rightarrow> Some (f\<lparr>uf_status := Some s\<rparr>))))"

section \<open>Handlers\<close>

definition with_id :: "string \<Rightarrow> (int \<Rightarrow> exchange) \<Rightarrow> exchange" where
  "with_id s k = (case parseUserID s of None \<Rightarrow> Done (Inl (400, ''INVALID_ID'')) | Some i \<Rightarrow> k i)"

definition handleUserList :: "(string \<times> string) list \<Rightarrow> exchange" where
  "handleUserList ps =
     (case parseUserFilter ps of
        None \<Rightarrow> Done (Inl (400, ''INVALID_REQUEST''))
      | Some f \<Rightarrow> map_prog (\<lambda>r. case r of Inl _ \<Rightarrow> Inl (500, ''INTERNAL'') | Inr _ \<Rightarrow> write_reply 200 r) (List_users f))"

definition handleUserCreate :: "crypto \<Rightarrow> actor \<Rightarrow> call \<Rightarrow> exchange" where
  "handleUserCreate c a r =
     (case readJSON createUserRequest r of
        Some e \<Rightarrow> Done (Inl e)
      | None \<Rightarrow> map_prog (write_reply 201) (Create c (create_body (the (c_body r))) a))"

definition handleUserGet :: "string \<Rightarrow> exchange" where
  "handleUserGet s = with_id s (\<lambda>i. map_prog (write_reply 200) (Get i))"

definition handleUserUpdate :: "actor \<Rightarrow> string \<Rightarrow> call \<Rightarrow> exchange" where
  "handleUserUpdate a s r = with_id s (\<lambda>i.
     case readJSON updateUserRequest r of
       Some e \<Rightarrow> Done (Inl e)
     | None \<Rightarrow> map_prog (write_reply 200) (Update i (update_body (the (c_body r))) a))"

definition handleUserDelete :: "actor \<Rightarrow> string \<Rightarrow> exchange" where
  \<comment> \<open>the body is not read\<close>
  "handleUserDelete a s = with_id s (\<lambda>i. map_prog (write_reply 200) (Delete i a))"

definition handleUserRotate :: "crypto \<Rightarrow> actor \<Rightarrow> string \<Rightarrow> call \<Rightarrow> exchange" where
  "handleUserRotate c a s r = with_id s (\<lambda>i.
     case readJSON rotateRequest r of
       Some e \<Rightarrow> Done (Inl e)
     | None \<Rightarrow> map_prog (write_reply 200)
         (RotateCredentials c i (coalesce (read_string (field_value (the (c_body r)) ''password'')) []) a))"

definition handleUserStatusAction :: "bool \<Rightarrow> actor \<Rightarrow> string \<Rightarrow> call \<Rightarrow> exchange" where
  "handleUserStatusAction disable a s r = with_id s (\<lambda>i.
     case decodeVersionAction r of
       Inl e \<Rightarrow> Done (Inl e)
     | Inr v \<Rightarrow> map_prog (write_reply 200) (if disable then Disable_user i v a else Enable_user i v a))"

definition handleUserResetQuota :: "actor \<Rightarrow> string \<Rightarrow> call \<Rightarrow> exchange" where
  "handleUserResetQuota a s r = with_id s (\<lambda>i.
     case decodeVersionAction r of
       Inl e \<Rightarrow> Done (Inl e)
     | Inr _ \<Rightarrow> map_prog (write_reply 200) (UserService.ResetQuota i a))"

section \<open>Routes\<close>

definition path_segments :: "string \<Rightarrow> string list" where
  "path_segments p = split_on CHR ''/'' (takeWhile (\<lambda>c. c \<noteq> CHR ''?'') p)"

definition query_part :: "string \<Rightarrow> string" where
  "query_part p = drop 1 (dropWhile (\<lambda>c. c \<noteq> CHR ''?'') p)"

definition handle_users :: "crypto \<Rightarrow> actor \<Rightarrow> call \<Rightarrow> exchange option" where
  \<comment> \<open>\<open>None\<close>: the call is for another handler; paths are taken without percent escapes\<close>
  "handle_users c a r =
     (let get = (c_method r = ''GET'' \<or> c_method r = ''HEAD''); post = (c_method r = ''POST'')
      in case path_segments (c_path r) of
        [s0, s1, s2, s3] \<Rightarrow>
          if [s0, s1, s2, s3] = [[], ''api'', ''v1'', ''users''] then
            (if get then Some (handleUserList (searchParams (query_part (c_path r))))
             else if post then Some (handleUserCreate c a r) else None)
          else None
      | [s0, s1, s2, s3, i] \<Rightarrow>
          if [s0, s1, s2, s3] = [[], ''api'', ''v1'', ''users''] \<and> i \<noteq> [] then
            (if get then Some (handleUserGet i)
             else if c_method r = ''PATCH'' then Some (handleUserUpdate a i r)
             else if c_method r = ''DELETE'' then Some (handleUserDelete a i) else None)
          else None
      | [s0, s1, s2, s3, i, action] \<Rightarrow>
          if [s0, s1, s2, s3] = [[], ''api'', ''v1'', ''users''] \<and> i \<noteq> [] \<and> post then
            (if action = ''rotate-credentials'' then Some (handleUserRotate c a i r)
             else if action = ''disable'' then Some (handleUserStatusAction True a i r)
             else if action = ''enable'' then Some (handleUserStatusAction False a i r)
             else if action = ''reset-quota'' then Some (handleUserResetQuota a i r) else None)
          else None
      | _ \<Rightarrow> None)"

end
