(* ===== verification/UserConsole.thy ===== *)
theory UserConsole
  imports UserApi
begin

text \<open>
  The users page against the server: what the calls the page sends do to the rows of the store
  and to the proxy, and what the server answers. The handlers, the service, the repositories and
  the engine state are those of \<open>UserApi\<close> and the theories below it, the page that of \<open>UsersPage\<close>.
\<close>

section \<open>Requests with an answer\<close>

lemma outcome_map_prog: "outcome (map_prog f p) ts b \<Longrightarrow> \<exists>a. outcome p ts a \<and> b = f a"
proof (induction p arbitrary: ts)
  case (Atomic g)
  then obtain s q t us where "ts = (s, t) # us" "g s = (q, t)" "outcome (map_prog f q) us b"
    by (auto elim!: outcome_AtomicE simp: map_prod_def split: prod.splits)
  moreover from this have "(q, t) \<in> range g" by (metis rangeI)
  ultimately have "\<exists>a. outcome q us a \<and> b = f a"
    using Atomic.IH [of "(q, t)" q us] by (simp add: Basic_BNFs.fsts.simps)
  moreover note \<open>ts = (s, t) # us\<close> \<open>g s = (q, t)\<close>
  ultimately show ?case by (auto intro: outcome.Atomic)
qed simp

lemma safe_map_prog: "safe ok rely p \<Longrightarrow> safe ok rely (map_prog f p)"
proof (induction rule: safe.induct)
  case (Atomic g)
  then show ?case by (simp, intro safe.Atomic) (simp add: map_prod_def split_beta)
qed simp

section \<open>The routes of the console\<close>

lemma digits_clean: "0 \<le> i \<Longrightarrow> c \<in> set (digits i) \<Longrightarrow> c \<noteq> CHR ''/'' \<and> c \<noteq> CHR ''?''"
  using digits_are_digits [of i] by (auto simp: list_all_iff is_digit_def)

lemma user_path:
  assumes "0 < u_id u" "u_id u < 10 ^ 15" and "CHR ''?'' \<notin> set sfx" 
  shows "path_segments (user_url u (if sfx = [] then [] else CHR ''/'' # sfx)) =
     [[], ''api'', ''v1'', ''users'', digits (u_id u)] @ (if sfx = [] then [] else split_on CHR ''/'' sfx)"
proof -
  have d: "CHR ''/'' \<notin> set (digits (u_id u))" "CHR ''?'' \<notin> set (digits (u_id u))"
    using digits_clean [of "u_id u"] assms(1) by auto
  have s: "user_url u t = ''/api/v1/users/'' @ digits (u_id u) @ t" for t
    using assms js_String_int [of "u_id u"] by (simp add: user_url_def jint_small int_string_def)
  have q: "takeWhile (\<lambda>c. c \<noteq> CHR ''?'') (user_url u t) = user_url u t" if "CHR ''?'' \<notin> set t" for t
    using that d by (auto simp: s takeWhile_eq_all_conv)
  show ?thesis
    using d assms(3) split_on_sep [of "CHR ''/''" "digits (u_id u)"] split_on_free [of "CHR ''/''" "digits (u_id u)"]
    by (simp add: path_segments_def q) (simp add: s)
qed

lemma parse_id: "0 < i \<Longrightarrow> i < 10 ^ 15 \<Longrightarrow> parseUserID (digits i) = Some i"
  using atoi_digits [of i] by (simp add: parseUserID_def)

lemma user_segments:
  assumes "0 < u_id u" "u_id u < 10 ^ 15"
  shows "path_segments (user_url u []) = [[], ''api'', ''v1'', ''users'', digits (u_id u)]"
    "path_segments (user_url u ''/disable'') = [[], ''api'', ''v1'', ''users'', digits (u_id u), ''disable'']"
    "path_segments (user_url u ''/enable'') = [[], ''api'', ''v1'', ''users'', digits (u_id u), ''enable'']"
    "path_segments (user_url u ''/reset-quota'') = [[], ''api'', ''v1'', ''users'', digits (u_id u), ''reset-quota'']"
  using user_path [OF assms, of "[]"] user_path [OF assms, of "''disable''"] user_path [OF assms, of "''enable''"]
    user_path [OF assms, of "''reset-quota''"] by simp_all

lemma action_version:
  assumes "0 < u_version u" "u_version u < 10 ^ 15"
  shows "decodeVersionAction (api_post p (Some (JObj [version_of u]))) = Inr (u_version u)"
  using version_body [OF assms] assms by (simp add: decodeVersionAction_def api_defs version_of_def jint_small)

lemma user_calls:
  assumes "0 < u_id u" "u_id u < 10 ^ 15" and "0 < u_version u" "u_version u < 10 ^ 15"
  shows "handle_users c a (api_post (user_url u ''/disable'') (Some (JObj [version_of u])))
      = Some (map_prog (write_reply 200) (Disable_user (u_id u) (u_version u) a))"
    "handle_users c a (api_post (user_url u ''/enable'') (Some (JObj [version_of u])))
      = Some (map_prog (write_reply 200) (Enable_user (u_id u) (u_version u) a))"
    "handle_users c a (api_post (user_url u ''/reset-quota'') (Some (JObj [version_of u])))
      = Some (map_prog (write_reply 200) (UserService.ResetQuota (u_id u) a))"
    "handle_users c a (api_del (user_url u []) b) = Some (map_prog (write_reply 200) (Delete (u_id u) a))"
  using assms user_segments [OF assms(1,2)] digits_nonempty [of "u_id u"] parse_id [OF assms(1,2)] action_version [OF assms(3,4)]
  by (simp_all add: handle_users_def Let_def api_defs handleUserStatusAction_def handleUserResetQuota_def handleUserDelete_def with_id_def)

section \<open>One row written\<close>

lemma find_map_same: "(\<And>x. P (g x) = P x) \<Longrightarrow> List.find P (List.map g xs) = map_option g (List.find P xs)"
  by (induction xs) auto

lemma row_after_map:
  "(\<And>u. pu_id (g u) = pu_id u) \<Longrightarrow>
     row_by_id i (db\<lparr>db_users := List.map g (db_users db)\<rparr>) = map_sum id g (row_by_id i db)"
  by (simp add: row_by_id_def find_map_same split: option.split)

lemma at_version_row:
  assumes "store_ok db" "row_by_id i db = Inr u"
  shows "(\<exists>w \<in> set (db_users db). at_version i v w) \<longleftrightarrow> pu_version u = v"
  using row_by_id_user [OF assms(2)] row_unique [OF assms(1)] by (auto simp: at_version_def)

definition with_status :: "user_status \<Rightarrow> instant \<Rightarrow> stored_user \<Rightarrow> stored_user" where
  \<comment> \<open>a row after a change of status\<close>
  "with_status s t u = u\<lparr>pu_status := s, pu_version := pu_version u + 1, pu_updated_at := t\<rparr>"

lemma run_transition:
  assumes "store_ok db" "db_faults db = []" "row_by_id i db = Inr u"
  shows "pu_version u = v \<Longrightarrow> fst (run (transition i st v a what) db) = Inr (UserReply (with_status st (db_clock db) u))"
    "pu_version u = v \<Longrightarrow> row_by_id i (snd (run (transition i st v a what) db)) = Inr (with_status st (db_clock db) u)"
    "pu_version u \<noteq> v \<Longrightarrow> fst (run (transition i st v a what) db) = Inl VersionConflict"
    "pu_version u \<noteq> v \<Longrightarrow> same_tables db (snd (run (transition i st v a what) db))"
proof -
  let ?f = "with_status st (db_clock db)"
  let ?d = "db\<lparr>db_users := List.map (\<lambda>w. if at_version i v w then ?f w else w) (db_users db)\<rparr>"
  have w: "write_status i st v db = update_users (at_version i v) ?f db"
    by (simp add: write_status_def with_status_def [abs_def])
  have f: "pu_id (?f w) = pu_id w" for w by (simp add: with_status_def)
  have i: "i \<in> pu_id ` set (db_users db)" using row_by_id_user [OF assms(3)] by auto
  have run: "run (transition i st v a what) db =
    (if pu_version u = v then run (transition_reply a what u (row_by_id i ?d)) ?d else run (transition_reply a what u (Inl Conflict)) db)"
    unfolding at_version_row [OF assms(1,3), symmetric]
    using run_write [where m = "write_status i st v" and f = ?f and k = "transition_reply a what u", OF assms(2) w f] i assms(2,3)
    by (simp add: transition_def run_Get_nofault SetUserStatus_def)
  have row: "row_by_id i ?d = Inr (?f u)" if "pu_version u = v"
    using row_after_map [of "\<lambda>w. if at_version i v w then ?f w else w" i db] assms(3) row_by_id_user [OF assms(3)] that
    by (simp add: at_version_def with_status_def)
  have same: "row_by_id i d' = row_by_id i d" if "same_tables d d'" for d d'
    using that by (simp add: same_tables_def row_by_id_def)
  show "pu_version u = v \<Longrightarrow> fst (run (transition i st v a what) db) = Inr (UserReply (?f u))"
    "pu_version u = v \<Longrightarrow> row_by_id i (snd (run (transition i st v a what) db)) = Inr (?f u)"
    using row same [OF run_audit_notify_tables(1)] by (simp_all add: run transition_reply_def run_audit_notify)
  show "pu_version u \<noteq> v \<Longrightarrow> fst (run (transition i st v a what) db) = Inl VersionConflict"
    by (simp add: run transition_reply_def run_audit_done)
  show "pu_version u \<noteq> v \<Longrightarrow> same_tables db (snd (run (transition i st v a what) db))"
    by (rule run_audit [of db a what "pu_username u" "''failure''" "''version conflict''" "Done (Inl VersionConflict)"])
      (simp add: run transition_reply_def)
qed

section \<open>Properties\<close>

definition alice_shown :: proxy_user where
  \<comment> \<open>what a list shows of the user of the sample store\<close>
  "alice_shown = toUserResponse (hd (db_users alice_db))"

lemma alice_row:
  "row_by_id 1 alice_db = Inr (hd (db_users alice_db))" "u_id alice_shown = 1" "u_version alice_shown = 1"
  "pu_version (hd (db_users alice_db)) = 1" "db_faults alice_db = []"
  using alice_db_rows by (auto simp: row_by_id_def alice_shown_def toUserResponse_def map_eq_Cons_conv, code_simp)

lemma shown_row:
  assumes "store_ok db" "u \<in> set (db_users db)"
  shows "0 < u_id (toUserResponse u)" "0 < u_version (toUserResponse u)"
  using assms by (auto simp: store_ok_def user_ok_def toUserResponse_def)

text \<open>
  C7. From the button to the row. Pressing Disable on the row a list showed sends a call that the
  server answers with 200 and the disabled row, if the row still has the version shown; if it
  has changed since, the answer is 409 and no table changes. Statements are taken to succeed.
\<close>

theorem disable_needs_fresh_view:
  assumes "store_ok db" and "db_faults db = []" and "row_by_id (u_id shown) db = Inr u"
    and "0 < u_version shown" "u_version shown < 10 ^ 15" "u_id shown < 10 ^ 15"
    and "Send r \<in> set (snd (users_update (Disable shown) s))" and "handle_users c a r = Some x"
    and "run x db = (answer, db')"
  shows "if u_version shown = pu_version u
    then answer = Inr (200, UserBody (toUserResponse (with_status Disabled (db_clock db) u)))
       \<and> row_by_id (u_id shown) db' = Inr (with_status Disabled (db_clock db) u)
    else answer = Inl (409, ''VERSION_CONFLICT'') \<and> same_tables db db'"
proof -
  have i: "0 < u_id shown" using assms(1) row_by_id_user [OF assms(3)] by (auto simp: store_ok_def)
  have "r = api_post (user_url shown ''/disable'') (Some (JObj [version_of shown]))"
    using assms(7) by (simp add: act_def await_call_def)
  then have x: "x = map_prog (write_reply 200) (transition (u_id shown) Disabled (u_version shown) a ''user.disable'')"
    using assms(8) user_calls(1) [OF i assms(6,4,5)] by (simp add: Disable_user_def)
  show ?thesis
    using run_transition [OF assms(1-3), where v = "u_version shown" and st = Disabled and a = a and what = "''user.disable''"] assms(9)
    by (auto simp: x run_map_prog map_prod_def split: prod.splits)
qed

theorem disable_needs_fresh_view_witness:
  "\<exists>x db'. handle_users sample_crypto sample_actor (api_post (user_url alice_shown ''/disable'') (Some (JObj [version_of alice_shown]))) = Some x
     \<and> run x alice_db = (Inr (200, UserBody (toUserResponse (with_status Disabled (db_clock alice_db) (hd (db_users alice_db))))), db')"
proof -
  let ?r = "api_post (user_url alice_shown ''/disable'') (Some (JObj [version_of alice_shown]))"
  obtain x where x: "handle_users sample_crypto sample_actor ?r = Some x"
    using user_calls(1) [of alice_shown] alice_row by simp
  have "Send ?r \<in> set (snd (users_update (Disable alice_shown) Users_init))" by (simp add: act_def await_call_def)
  then show ?thesis
    using disable_needs_fresh_view [OF alice_db_ok alice_row(5), of alice_shown "hd (db_users alice_db)" ?r Users_init sample_crypto sample_actor x
        "fst (run x alice_db)" "snd (run x alice_db)"] alice_row x
    by (intro exI [of _ x] exI [of _ "snd (run x alice_db)"]) (simp add: prod_eq_iff)
qed

text \<open>
  C15. A deletion is different: the confirmation sends the version shown as well, but the handler does
  not read it, so a row that has changed since is deleted all the same, with its credentials.
\<close>

theorem stale_delete_goes_through:
  assumes "store_ok db" and "db_faults db = []" and "row_by_id (u_id shown) db = Inr u"
    and "u_id shown < 10 ^ 15" and "us_confirmDelete s = Some shown"
    and "Send r \<in> set (snd (users_update ConfirmDelete s))" and "handle_users c a r = Some x"
    and "run x db = (answer, db')"
  shows "answer = Inr (200, StatusOk) \<and> row_by_id (u_id shown) db' = Inl NotFound
    \<and> active_credentials (u_id shown) db' = []"
proof -
  have i: "0 < u_id shown" using assms(1) row_by_id_user [OF assms(3)] by (auto simp: store_ok_def)
  have r: "r = api_del (user_url shown []) (Some (JObj [version_of shown]))"
    using assms(5,6) by (simp add: act_def await_call_def)
  then have x: "x = map_prog (write_reply 200) (Delete (u_id shown) a)"
    using assms(7) user_segments(1) [OF i assms(4)] digits_nonempty [of "u_id shown"] parse_id [OF i assms(4)]
    by (simp add: handle_users_def Let_def api_defs handleUserDelete_def with_id_def)
  have n: "filter (\<lambda>w. pu_id w = u_id shown) (db_users db) \<noteq> []"
    using row_by_id_user [OF assms(3)] by (auto simp: filter_empty_conv)
  let ?d = "snd (delete_user (u_id shown) db)"
  have d: "delete_user (u_id shown) db = (Inr (length (filter (\<lambda>w. pu_id w = u_id shown) (db_users db))), ?d)"
    "row_by_id (u_id shown) ?d = Inl NotFound" "active_credentials (u_id shown) ?d = []"
    using assms(2) by (auto simp: delete_user_def sql_nofault row_by_id_def active_credentials_def find_None_iff split: option.split
        dest: find_Some_iff [THEN iffD1] intro!: filter_False)
  define fin where "fin = auditAction a ''user.delete'' (pu_username u) ''success'' []
      (notify (ac_name a) (''user.delete:'' @ pu_username u) (Done (Inr DoneReply)))"
  have run: "run (Delete (u_id shown) a) db = run fin ?d"
    using assms(2,3) n by (simp add: Delete_def run_Get_nofault DeleteUser_def fin_def)
      (subst d(1), simp)
  have "same_tables ?d (snd (run fin ?d))" "fst (run fin ?d) = Inr DoneReply"
    by (simp_all add: fin_def run_audit_notify run_audit_notify_tables)
  then show ?thesis
    using d(2,3) assms(8) by (auto simp: x run_map_prog run map_prod_def same_tables_def row_by_id_def active_credentials_def split: prod.splits)
qed

theorem stale_delete_goes_through_witness:
  "\<exists>x db'. handle_users sample_crypto sample_actor (api_del (user_url alice_shown []) (Some (JObj [version_of (alice_shown\<lparr>u_version := 9\<rparr>)]))) = Some x
     \<and> run x alice_db = (Inr (200, StatusOk), db') \<and> row_by_id 1 db' = Inl NotFound"
proof -
  let ?u = "alice_shown\<lparr>u_version := 9\<rparr>"
  let ?r = "api_del (user_url alice_shown []) (Some (JObj [version_of ?u]))"
  have url: "user_url ?u [] = user_url alice_shown []" by (simp add: user_url_def)
  obtain x where x: "handle_users sample_crypto sample_actor ?r = Some x"
    using user_calls(4) [of alice_shown] alice_row by simp
  have "Send ?r \<in> set (snd (users_update ConfirmDelete (Users_init\<lparr>us_confirmDelete := Some ?u\<rparr>)))"
    by (simp add: act_def await_call_def url)
  then show ?thesis
    using stale_delete_goes_through [OF alice_db_ok alice_row(5), of ?u "hd (db_users alice_db)" "Users_init\<lparr>us_confirmDelete := Some ?u\<rparr>"
        ?r sample_crypto sample_actor x "fst (run x alice_db)" "snd (run x alice_db)"] alice_row x
    by (intro exI [of _ x] exI [of _ "snd (run x alice_db)"]) (simp add: prod_eq_iff)
qed

lemma safe_handle_users:
  assumes "crypto_ok c" and "handle_users c a r = Some x"
  shows "safe store_ok store_rely x"
proof -
  have reads: "safe store_ok store_rely (Get i)" "safe store_ok store_rely (List_users f)" for i f
    unfolding Get_def List_users_def ListUsers_def by (auto intro!: safe_intros split: sum.split)
  show ?thesis
    using assms(2) reads safe_Create [OF assms(1)] safe_Rotate [OF assms(1)] safe_Update safe_Delete safe_ResetQuota safe_Enable safe_transition
    by (auto simp: handle_users_def Let_def with_id_def handleUserList_def handleUserCreate_def handleUserGet_def handleUserUpdate_def
        handleUserDelete_def handleUserRotate_def handleUserStatusAction_def handleUserResetQuota_def Disable_user_def
        split: list.splits if_splits option.splits sum.splits intro!: safe_map_prog)
qed

text \<open>
  C1. Any number of consoles. Calls of any kind and from anywhere reach the server and interleave. Of
  all the presses of Disable and Enable on one version of a user, at most one is answered with
  success.
\<close>

theorem one_press_wins:
  assumes "store_ok db" and "\<forall>(c, a, r) \<in> set reqs. crypto_ok c \<and> handle_users c a r \<noteq> None"
    and "steps (List.map (\<lambda>(c, a, r). the (handle_users c a r)) reqs) db ts qs db'"
    and "0 < u_id shown" "u_id shown < 10 ^ 15" "0 < u_version shown" "u_version shown < 10 ^ 15"
    and "i < length reqs" "m \<in> {Disable shown, Enable shown}" "Send (snd (snd (reqs ! i))) \<in> set (snd (users_update m s))"
    and "j < length reqs" "m' \<in> {Disable shown, Enable shown}" "Send (snd (snd (reqs ! j))) \<in> set (snd (users_update m' s'))"
    and "qs ! i = Done (Inr p)" "qs ! j = Done (Inr q)"
  shows "i = j"
proof -
  let ?ps = "List.map (\<lambda>(c, a, r). the (handle_users c a r)) reqs"
  have safe: "\<forall>p \<in> set ?ps. safe store_ok store_rely p" using assms(2) safe_handle_users by fastforce
  have used: "\<exists>t t'. (k, t, t') \<in> set ts \<and> uses_version (u_id shown) (u_version shown) t t'"
    if k: "k < length reqs" "m \<in> {Disable shown, Enable shown}" "Send (snd (snd (reqs ! k))) \<in> set (snd (users_update m s))"
      "qs ! k = Done (Inr p)" for k m s p
  proof -
    obtain c a r where r: "reqs ! k = (c, a, r)" using prod_cases3 by blast
    have n: "?ps ! k = the (handle_users c a r)" using k(1) r by simp
    have "r = api_post (user_url shown ''/disable'') (Some (JObj [version_of shown]))
        \<or> r = api_post (user_url shown ''/enable'') (Some (JObj [version_of shown]))"
      using k(2,3) r by (auto simp: act_def await_call_def)
    then have "?ps ! k = map_prog (write_reply 200) (serve (c, a, DisableCall (u_id shown) (u_version shown)))
        \<or> ?ps ! k = map_prog (write_reply 200) (serve (c, a, EnableCall (u_id shown) (u_version shown)))"
      unfolding n using user_calls(1,2) [OF assms(4-7), of c a] by auto
    then obtain x where x: "names_version x = Some (u_id shown, u_version shown)"
      "?ps ! k = map_prog (write_reply 200) (serve (c, a, x))"
      by (metis names_version.simps(2,3))
    obtain y where y: "outcome (serve (c, a, x)) (own k ts) y" "Inr p = write_reply 200 y"
      using steps_outcome [OF assms(3), of k "Inr p"] outcome_map_prog k(1,4) x(2) by fastforce
    have "succeeded y" using y(2) by (cases y) (auto simp: succeeded_def)
    moreover have "steady (own k ts)"
      using requests.steps_own [OF assms(3,1) safe, of k] by (auto simp: steady_def)
    ultimately have "write_cases (own k ts) (uses_version (u_id shown) (u_version shown)) True"
      using serve_uses_version [OF y(1) _ x(1)] by simp
    then show ?thesis by (force simp: write_cases_def set_own [symmetric])
  qed
  obtain t t' w w' where "(i, t, t') \<in> set ts" "uses_version (u_id shown) (u_version shown) t t'"
    "(j, w, w') \<in> set ts" "uses_version (u_id shown) (u_version shown) w w'"
    using used [OF assms(8-10,14)] used [OF assms(11-13,15)] by blast
  then show ?thesis by (rule uses_version_apart [OF assms(3,1) safe])
qed

definition two_presses :: "(crypto \<times> actor \<times> call) list" where
  "two_presses = [(sample_crypto, sample_actor, api_post (user_url alice_shown ''/disable'') (Some (JObj [version_of alice_shown]))),
                  (sample_crypto, sample_actor, api_post (user_url alice_shown ''/enable'') (Some (JObj [version_of alice_shown])))]"

definition pressed :: "(nat \<times> server_db \<times> server_db) list \<times> exchange list \<times> server_db" where
  \<comment> \<open>the second press overtakes the first\<close>
  "pressed = schedule ([0] @ replicate 9 1 @ replicate 6 0)
     [map_prog (write_reply 200) (Disable_user 1 1 sample_actor), map_prog (write_reply 200) (Enable_user 1 1 sample_actor)] alice_db"

lemma pressed_run:
  "schedule ([0] @ replicate 9 1 @ replicate 6 0)
     [map_prog (write_reply 200) (Disable_user 1 1 sample_actor), map_prog (write_reply 200) (Enable_user 1 1 sample_actor)] alice_db
   = (fst pressed, fst (snd pressed), snd (snd pressed))"
  by (simp only: pressed_def prod.collapse)

definition won :: "exchange \<Rightarrow> bool" where
  "won p = (case finished p of None \<Rightarrow> False | Some r \<Rightarrow> (case r of Inl _ \<Rightarrow> False | Inr _ \<Rightarrow> True))"

lemma pressed_results: "List.map won (fst (snd pressed)) = [False, True]"
  by code_simp

theorem one_press_wins_witness:
  "\<exists>q. fst (snd pressed) ! 1 = Done (Inr q) \<and> (\<forall>p. fst (snd pressed) ! 0 \<noteq> Done (Inr p))"
proof -
  have l: "length (fst (snd pressed)) = 2" using arg_cong [OF pressed_results, of length] by simp
  have "won (fst (snd pressed) ! 1)" using arg_cong [OF pressed_results, of "\<lambda>xs. xs ! 1"] l by simp
  then obtain q where q: "fst (snd pressed) ! 1 = Done (Inr q)"
    by (auto simp: won_def finished_def split: prog.splits sum.splits)
  moreover have False if p: "fst (snd pressed) ! 0 = Done (Inr p)" for p
  proof -
    have ps: "List.map (\<lambda>(c, a, r). the (handle_users c a r)) two_presses
      = [map_prog (write_reply 200) (Disable_user 1 1 sample_actor), map_prog (write_reply 200) (Enable_user 1 1 sample_actor)]"
      using user_calls(1,2) [of alice_shown sample_crypto sample_actor] alice_row by (simp add: two_presses_def)
    have "steps (List.map (\<lambda>(c, a, r). the (handle_users c a r)) two_presses) alice_db (fst pressed) (fst (snd pressed)) (snd (snd pressed))"
      unfolding ps by (rule schedule_steps [OF pressed_run])
    moreover have "\<forall>(c, a, r) \<in> set two_presses. crypto_ok c \<and> handle_users c a r \<noteq> None"
      using user_calls(1,2) [of alice_shown sample_crypto sample_actor] alice_row sample_crypto_ok by (simp add: two_presses_def)
    ultimately have "(0 :: nat) = 1"
      using one_press_wins [OF alice_db_ok, of two_presses "fst pressed" "fst (snd pressed)" "snd (snd pressed)" alice_shown 0 "Disable alice_shown"
          Users_init 1 "Enable alice_shown" Users_init p q] p q alice_row
      by (simp add: two_presses_def act_def await_call_def)
    then show False by simp
  qed
  ultimately show ?thesis by blast
qed

section \<open>Lists\<close>

lemma first_page_hides:
  assumes "u \<in> set (take n (rev (sort_key pu_id us)))" "distinct (List.map pu_id us)"
  shows "length (filter (\<lambda>w. pu_id u < pu_id w) us) < n"
proof -
  let ?xs = "rev (sort_key pu_id us)"
  have "distinct (List.map pu_id (sort_key pu_id us))" using assms(2) by (simp add: distinct_map)
  then have "sorted_wrt (<) (List.map pu_id (sort_key pu_id us))" by (simp add: strict_sorted_iff)
  then have "sorted_wrt (\<lambda>a b. pu_id b < pu_id a) ?xs" by (simp add: sorted_wrt_rev sorted_wrt_map)
  then have "sorted_wrt (\<lambda>a b. pu_id b < pu_id a) (take n ?xs @ drop n ?xs)" by simp
  then have "\<forall>w \<in> set (drop n ?xs). pu_id w < pu_id u" using assms(1) unfolding sorted_wrt_append by blast
  then have "filter (\<lambda>w. pu_id u < pu_id w) (drop n ?xs) = []" by (auto simp: filter_empty_conv)
  then have "filter (\<lambda>w. pu_id u < pu_id w) (take n ?xs @ drop n ?xs) = filter (\<lambda>w. pu_id u < pu_id w) (take n ?xs)"
    by (simp only: filter_append) simp
  then have "filter (\<lambda>w. pu_id u < pu_id w) ?xs = filter (\<lambda>w. pu_id u < pu_id w) (take n ?xs)" by simp
  moreover have "length (filter (\<lambda>w. pu_id u < pu_id w) (take n ?xs)) < length (take n ?xs)"
    using assms(1) by (intro length_filter_less) auto
  moreover have "length (filter (\<lambda>w. pu_id u < pu_id w) ?xs) = length (filter (\<lambda>w. pu_id u < pu_id w) us)"
    by (metis mset_filter mset_rev mset_sort size_mset)
  ultimately show ?thesis by simp
qed

lemma list_call: "handle_users c a (api_get ''/api/v1/users'') = Some (handleUserList (searchParams []))"
proof -
  have "path_segments ''/api/v1/users'' = [[], ''api'', ''v1'', ''users'']" "query_part ''/api/v1/users'' = []" by code_simp+
  then show ?thesis by (simp add: handle_users_def api_defs)
qed

lemma run_list:
  assumes "db_faults db = []"
  shows "run (handleUserList (searchParams [])) db
    = (Inr (200, UsersBody (List.map toUserResponse (take 100 (rev (sort_key pu_id (db_users db)))))), db)"
proof -
  have "parseUserFilter (searchParams []) = Some \<lparr>uf_status = None, uf_username = [], uf_before_id = 0, uf_limit = 100, uf_offset = 0\<rparr>"
    by code_simp
  then show ?thesis
    using assms by (simp add: handleUserList_def run_map_prog List_users_def ListUsers_def select_nofault list_users_def)
qed

text \<open>
  C17. The users page asks for its list without parameters, and the answer is the hundred newest
  users. A user with a hundred newer ones is in no list the page can show: it has no way to ask
  for the next page.
\<close>

theorem old_users_are_hidden:
  assumes "distinct (List.map pu_id (db_users db))" and "db_faults db = []" and "u \<in> set (db_users db)"
    and "100 \<le> length (filter (\<lambda>w. pu_id u < pu_id w) (db_users db))"
    and "ap_path (us_list Users_init) = Some p" "handle_users c a (api_get p) = Some x"
    and "run x db = (Inr (n, UsersBody shown), db')"
  shows "pu_id u \<notin> u_id ` set shown"
proof
  assume "pu_id u \<in> u_id ` set shown"
  have "p = ''/api/v1/users''" using assms(5) by (simp add: Users_init_def useApi_def run_effect_def)
  then have "shown = List.map toUserResponse (take 100 (rev (sort_key pu_id (db_users db))))"
    using assms(6,7) run_list [OF assms(2)] list_call by simp
  then obtain w where w: "w \<in> set (take 100 (rev (sort_key pu_id (db_users db))))" "pu_id w = pu_id u"
    using \<open>pu_id u \<in> u_id ` set shown\<close> by (force simp: toUserResponse_def)
  then have "w = u" using assms(1,3) by (auto simp: distinct_map inj_on_def dest: in_set_takeD)
  then show False using first_page_hides [OF w(1) assms(1)] assms(4) by simp
qed

theorem old_users_are_hidden_witness:
  "\<exists>shown db'. run (handleUserList (searchParams []))
       (alice_db\<lparr>db_users := List.map (\<lambda>i. (hd (db_users alice_db))\<lparr>pu_id := i\<rparr>) [1..101]\<rparr>) = (Inr (200, UsersBody shown), db')
     \<and> 1 \<notin> u_id ` set shown"
proof -
  let ?row = "\<lambda>i. (hd (db_users alice_db))\<lparr>pu_id := i\<rparr>"
  let ?db = "alice_db\<lparr>db_users := List.map ?row [1..101]\<rparr>"
  have n: "db_faults ?db = []" using alice_row(5) by simp
  have "List.map pu_id (db_users ?db) = [1..101]" by (simp add: comp_def)
  then have d: "distinct (List.map pu_id (db_users ?db))" by simp
  have "?row 1 \<in> set (db_users ?db)" by (simp del: upto.simps)
  moreover have "filter (\<lambda>w. pu_id (?row 1) < pu_id w) (db_users ?db) = List.map ?row (filter (\<lambda>i. 1 < i) [1..101])"
    by (simp add: filter_map comp_def del: upto.simps)
  moreover have "length (filter (\<lambda>i. 1 < i) [1..101 :: int]) = 100" by code_simp
  moreover have one: "pu_id (?row 1) = 1" by simp
  moreover have "ap_path (us_list Users_init) = Some ''/api/v1/users''" by (simp add: Users_init_def useApi_def run_effect_def)
  ultimately have "pu_id (?row 1) \<notin> u_id ` set (List.map toUserResponse (take 100 (rev (sort_key pu_id (db_users ?db)))))"
    by (intro old_users_are_hidden [OF d n _ _ _ list_call run_list [OF n]]) (simp_all only: length_map order.refl)
  then have "1 \<notin> u_id ` set (List.map toUserResponse (take 100 (rev (sort_key pu_id (db_users ?db)))))" unfolding one .
  with run_list [OF n] show ?thesis by blast
qed

section \<open>Creations\<close>

text \<open>
  C18. A quota of one megabyte, which the form offers as the smallest whole number, is below the
  mebibyte the server asks for: a creation with it is always refused and changes no table.
\<close>

theorem a_megabyte_is_refused:
  assumes "form_submit False f = Some v" and "fm_quotaDailyMB f = ''1''"
    and "handle_users c a (api_post ''/api/v1/users'' (Some (JObj (form_members v)))) = Some x"
    and "run x db = (answer, db')"
  shows "(\<exists>code. answer = Inl (400, code) \<or> answer = Inl (413, code)) \<and> same_tables db db'"
proof -
  let ?body = "JObj (form_members v)"
  let ?r = "api_post ''/api/v1/users'' (Some ?body)"
  have p: "path_segments ''/api/v1/users'' = [[], ''api'', ''v1'', ''users'']" by code_simp
  have x: "x = handleUserCreate c a ?r" using assms(3) by (simp add: handle_users_def api_defs p)
  have "parse_scaled ''1'' 1000000 = Fin 1000000" by code_simp
  then have "v_quota_bytes_daily v = Fin 1000000" using assms(1,2) by (auto simp: form_submit_def split: option.splits)
  moreover have "toUpperCase ''username'' \<noteq> toUpperCase ''quota_bytes_daily''" "toUpperCase ''password'' \<noteq> toUpperCase ''quota_bytes_daily''"
    "toUpperCase ''allowed_protocols'' \<noteq> toUpperCase ''quota_bytes_daily''" "toUpperCase ''download_limit_bps'' \<noteq> toUpperCase ''quota_bytes_daily''"
    "toUpperCase ''upload_limit_bps'' \<noteq> toUpperCase ''quota_bytes_daily''" "toUpperCase ''max_connections'' \<noteq> toUpperCase ''quota_bytes_daily''"
    by code_simp+
  ultimately have "field_value ?body ''quota_bytes_daily'' = JNum (Fin 1000000)"
    by (simp add: field_value_def form_members_def)
  then have q: "ci_quota_daily (create_body ?body) = 1000000" by (simp add: create_body_def)
  have bad: "validateNew t (create_body ?body) \<noteq> []" for t
    by (simp add: validateNew_def validateLimits_Nil q MiB_def)
  have "\<exists>code. fst e = 400 \<and> code = snd e \<or> fst e = 413 \<and> code = snd e" if "readJSON createUserRequest ?r = Some e" for e
    using that by (auto simp: readJSON_def api_defs split: if_splits)
  then show ?thesis
    using assms(4) bad by (auto simp: x handleUserCreate_def Create_def run_map_prog api_defs split: option.splits)
qed

theorem a_megabyte_is_refused_witness:
  "\<exists>v x. form_submit False ((UserForm_init (None :: proxy_user option))\<lparr>fm_quotaDailyMB := ''1''\<rparr>) = Some v
     \<and> handle_users sample_crypto sample_actor (api_post ''/api/v1/users'' (Some (JObj (form_members v)))) = Some x
     \<and> same_tables alice_db (snd (run x alice_db))"
proof -
  let ?f = "(UserForm_init (None :: proxy_user option))\<lparr>fm_quotaDailyMB := ''1''\<rparr>"
  obtain v where v: "form_submit False ?f = Some v" by (simp add: form_submit_def UserForm_init_def parse_expiry_def)
  have "path_segments ''/api/v1/users'' = [[], ''api'', ''v1'', ''users'']" by code_simp
  then obtain x where x: "handle_users sample_crypto sample_actor (api_post ''/api/v1/users'' (Some (JObj (form_members v)))) = Some x"
    by (simp add: handle_users_def api_defs)
  then show ?thesis
    using a_megabyte_is_refused [OF v _ x, of alice_db "fst (run x alice_db)" "snd (run x alice_db)"] v by auto
qed

text \<open>
  C5. Created means admitted. When a creation is answered with a password, the proxy will let the
  user in with exactly that password: the state derived from the store at that moment has the
  user with the verifier of the password shown. Times are told apart to the second.
\<close>

theorem created_user_is_admitted:
  assumes "store_ok db" and "crypto_ok c"
    and "run (handleUserCreate c a r) db = (Inr (st, SecretBody cred), db')"
    and "in_years (db_clock db div 10 ^ 9)"
    and "case ci_expires_at (create_body (the (c_body r))) of None \<Rightarrow> True
      | Some e \<Rightarrow> in_years (e div 10 ^ 9) \<and> db_clock db div 10 ^ 9 < e div 10 ^ 9"
  shows "st = 201 \<and> (\<exists>h. newEngineHash c (n_password cred) = Some h
    \<and> (\<exists>e \<in> set (desired_state (db_clock db) db'). eu_username e = u_username cred \<and> eu_hash e = h))"
proof -
  let ?i = "create_body (the (c_body r))"
  define password where "password = (if ci_password ?i = [] then generatePassword c else ci_password ?i)"
  obtain y where y: "run (Create c ?i a) db = (y, db')" "write_reply 201 y = Inr (st, SecretBody cred)"
    using assms(3) by (auto simp: handleUserCreate_def run_map_prog map_prod_def split: option.splits prod.splits)
  then obtain w p where w: "y = Inr (SecretReply w p)" "st = 201" "cred = oneTimeCredential w p"
    by (cases "(201 :: nat, y)" rule: write_reply.cases) auto
  have valid: "validateNew (db_clock db) ?i = []" using y(1) w(1) by (auto simp: Create_def split: if_splits)
  then obtain h k where h: "newEngineHash c password = Some h" "newAPIHash c password = Some k"
    using y(1) w(1) by (auto simp: Create_def password_def Let_def split: option.splits)
  let ?u = "\<lparr>pu_id = 0, pu_server_id = ''local'', pu_username = ci_username ?i, pu_status = Active,
             pu_protocols = ci_protocols ?i, pu_download = ci_download ?i, pu_upload = ci_upload ?i,
             pu_max_connections = ci_max_connections ?i, pu_quota_daily = ci_quota_daily ?i,
             pu_quota_monthly = ci_quota_monthly ?i, pu_expires_at = ci_expires_at ?i, pu_version = 0,
             pu_created_at = db_clock db, pu_updated_at = db_clock db, pu_last_seen_at = None\<rparr>"
  let ?c = "\<lparr>cr_id = 0, cr_user_id = 0, cr_engine_hash = h, cr_api_hash = k,
             cr_status = CredentialActive, cr_created_at = db_clock db, cr_rotated_at = None\<rparr>"
  obtain z d where z: "create_user ?u ?c db = (z, d)" by fastforce
  have run: "run (create_reply a (ci_username ?i) password z) d = (Inr (SecretReply w p), db')"
    using y(1) w(1) valid h z by (simp add: Create_def CreateUser_def password_def [symmetric] Let_def)
  from z show ?thesis
  proof (cases rule: create_user_cases)
    case (1 e)
    then show ?thesis using run by (cases e) (auto simp: create_reply_def run_audit_done prod_eq_iff)
  next
    case 2
    let ?n = "db_user_seq db + 1"
    let ?v = "?u\<lparr>pu_protocols := stored_protocols (ci_protocols ?i), pu_id := ?n, pu_version := 1, pu_last_seen_at := None\<rparr>"
    have r: "w = ?u\<lparr>pu_id := ?n, pu_version := 1\<rparr>" "p = password" "same_tables d db'"
      using run 2(1) by (auto simp: create_reply_def prod_eq_iff run_audit_notify run_audit_notify_tables)
    have ok: "keeps (create_user ?u ?c)"
      using valid h assms(2) by (intro keeps_create) (auto simp: validateNew_def validateMutated_def crypto_ok_def split: if_splits)
    then have ok: "store_ok db'" using assms(1) z r(3) same_tables_ok unfolding keeps_def by blast
    have v: "?v \<in> set (db_users db')" using 2(4) r(3) by (simp add: same_tables_def)
    have old: "cr_user_id x \<noteq> ?n" if "x \<in> set (db_creds db)" for x
      using that assms(1) by (force simp: store_ok_def)
    have "active_credentials ?n db' = [?c\<lparr>cr_user_id := ?n, cr_id := db_cred_seq db + 1, cr_status := CredentialActive, cr_rotated_at := None\<rparr>]"
      using old 2(5) r(3) unfolding active_credentials_def same_tables_def by (auto simp: filter_empty_conv)
    then have hash: "verifier_of db' ?v = h" by (simp add: verifier_of_def)
    have "admitted (db_clock db) ?v"
    proof (cases "ci_expires_at ?i")
      case (Some e)
      then have "db_clock db div 10 ^ 9 < e div 10 ^ 9" "in_years (e div 10 ^ 9)" "db_clock db < e"
        using assms(5) valid by (auto simp: validateNew_def split: if_splits)
      then show ?thesis using Some sql_time_le_seconds(2) [OF _ assms(4)] by (simp add: admitted_def lapsed_def expired_def)
    qed (simp add: admitted_def lapsed_def expired_def)
    then have "engine_user_of (?v, h) \<in> set (desired_state (db_clock db) db')"
      using v hash unfolding set_desired_state [OF ok] by force
    moreover have "u_username cred = ci_username ?i" "n_password cred = password"
      using w(3) r(1,2) by (simp_all add: oneTimeCredential_def toUserResponse_def proxy_user.defs new_credential.defs)
    ultimately show ?thesis using w(2) h(1) by (intro conjI exI [of _ h]) (auto simp: engine_user_of_def intro!: bexI)
  qed
qed

definition bob_call :: call where
  "bob_call = api_post ''/api/v1/users'' (Some (JObj [(''username'', JStr ''bob''), (''allowed_protocols'', JArr [JStr ''http''])]))"

theorem created_user_is_admitted_witness:
  "\<exists>cred db'. run (handleUserCreate sample_crypto sample_actor bob_call) alice_db = (Inr (201, SecretBody cred), db')
     \<and> (\<exists>e \<in> set (desired_state (db_clock alice_db) db'). eu_username e = u_username cred)"
proof -
  let ?run = "run (handleUserCreate sample_crypto sample_actor bob_call) alice_db"
  have "(case fst ?run of Inl _ \<Rightarrow> False | Inr (st, b) \<Rightarrow> (case b of SecretBody _ \<Rightarrow> True | _ \<Rightarrow> False))" by code_simp
  then obtain st cred where c: "fst ?run = Inr (st, SecretBody cred)" by (auto split: sum.splits prod.splits answer_body.splits)
  have "in_years (db_clock alice_db div 10 ^ 9)" "ci_expires_at (create_body (the (c_body bob_call))) = None" by code_simp+
  then show ?thesis
    using created_user_is_admitted [OF alice_db_ok sample_crypto_ok, of sample_actor bob_call st cred "snd ?run"] c
    by (intro exI [of _ cred] exI [of _ "snd ?run"]) (auto simp: prod_eq_iff)
qed

end
