(* ===== verification/AdminAuth.thy ===== *)
theory AdminAuth
  imports UserService RequestDecoding "HOL-Library.AList"
begin

text \<open>
  Administrators and their sessions: \<open>internal/auth/service.go\<close>, the password policy of
  \<open>internal/auth/password.go\<close>, the repositories \<open>internal/store/sqlite/admin.go\<close> and
  \<open>session.go\<close>, and the login and logout handlers of \<open>internal/api/auth_handlers.go\<close>. Password
  hashing and the token hash are functions of an \<open>auth_env\<close>; the random source is a list of the
  texts it will give, empty when it fails. A call is a program over the tables and the failure
  limiter, which interleaves with others between statements.
\<close>

section \<open>Options and tables\<close>

record auth_options =
  op_session_ttl :: int
  op_idle_timeout :: int
  op_max_failures :: int
  op_lockout :: int
  op_ip_max_failures :: int
  op_ip_window :: int
  op_ip_lockout :: int

definition minutes :: "int \<Rightarrow> int" where
  "minutes n = n * 60 * 10 ^ 9"

definition or_default :: "int \<Rightarrow> int \<Rightarrow> int" where
  "or_default d x = (if x = 0 then d else x)"

definition applyDefaults :: "auth_options \<Rightarrow> auth_options" where
  "applyDefaults o1 =
     \<lparr>op_session_ttl = or_default (minutes (7 * 24 * 60)) (op_session_ttl o1),
      op_idle_timeout = or_default (minutes 120) (op_idle_timeout o1),
      op_max_failures = or_default 5 (op_max_failures o1),
      op_lockout = or_default (minutes 15) (op_lockout o1),
      op_ip_max_failures = or_default 20 (op_ip_max_failures o1),
      op_ip_window = or_default (minutes 15) (op_ip_window o1),
      op_ip_lockout = or_default (minutes 15) (op_ip_lockout o1)\<rparr>"

record admin_account =
  aa_id :: int
  aa_username :: string
  aa_hash :: string
  aa_failed :: int
  aa_locked_until :: "instant option"
  aa_created_at :: instant
  aa_updated_at :: instant

record admin_session =
  as_id :: string
  as_account :: int
  as_token_hash :: string
  as_csrf :: string
  as_created_at :: instant
  as_expires_at :: instant
  as_last_seen :: instant
  as_source_ip :: string
  as_user_agent :: string

record ip_entry =
  ie_failures :: "instant list"
  ie_blocked_until :: "instant option" \<comment> \<open>\<open>None\<close> for the zero time\<close>

record auth_db =
  ad_accounts :: "admin_account list"
  ad_sessions :: "admin_session list"
  ad_seq :: int
  ad_ips :: "(string \<times> ip_entry) list"
  ad_audit :: "audit_row list"
  ad_entropy :: "string list"
  ad_clock :: instant
  ad_faults :: "bool list"

record auth_env =
  ae_verify :: "string \<Rightarrow> string \<Rightarrow> bool" \<comment> \<open>\<open>VerifyPassword\<close>, an error counting as a mismatch\<close>
  ae_hash :: "string \<Rightarrow> string option" \<comment> \<open>\<open>HashPassword\<close>\<close>
  ae_token :: "string \<Rightarrow> string" \<comment> \<open>\<open>HashToken\<close>\<close>
  ae_options :: auth_options

section \<open>Failures per address\<close>

definition after_now :: "instant option \<Rightarrow> instant \<Rightarrow> bool" where
  "after_now t now1 = (case t of None \<Rightarrow> False | Some u \<Rightarrow> now1 < u)"

definition blocked :: "string \<Rightarrow> instant \<Rightarrow> (string \<times> ip_entry) list \<Rightarrow> bool" where
  "blocked ip t ips =
     (ip \<noteq> [] \<and> (case map_of ips ip of None \<Rightarrow> False | Some e \<Rightarrow> after_now (ie_blocked_until e) t))"

definition maxTrackedIPs :: nat where
  "maxTrackedIPs = 8192"

definition prune :: "auth_options \<Rightarrow> instant \<Rightarrow> (string \<times> ip_entry) list \<Rightarrow> (string \<times> ip_entry) list" where
  "prune o1 t ips =
     (if length ips < maxTrackedIPs then ips
      else filter (\<lambda>(ip, e). after_now (ie_blocked_until e) t
             \<or> \<not> (ie_failures e = [] \<or> op_ip_window o1 < t - last (ie_failures e))) ips)"

definition recordFailure :: "auth_options \<Rightarrow> string \<Rightarrow> instant \<Rightarrow> (string \<times> ip_entry) list \<Rightarrow> (string \<times> ip_entry) list" where
  "recordFailure o1 ip t ips =
     (if ip = [] then ips
      else let ips' = prune o1 t ips;
               e = coalesce (map_of ips' ip) \<lparr>ie_failures = [], ie_blocked_until = None\<rparr>;
               kept = filter (\<lambda>f. t - f \<le> op_ip_window o1) (ie_failures e) @ [t]
           in AList.update ip
                (if op_ip_max_failures o1 \<le> int (length kept)
                 then e\<lparr>ie_failures := [], ie_blocked_until := Some (t + op_ip_lockout o1)\<rparr>
                 else e\<lparr>ie_failures := kept\<rparr>) ips')"

definition recordSuccess :: "string \<Rightarrow> (string \<times> ip_entry) list \<Rightarrow> (string \<times> ip_entry) list" where
  "recordSuccess ip ips = AList.delete ip ips"

section \<open>Statements\<close>

type_synonym 'a auth_statement = "auth_db \<Rightarrow> (store_error + 'a) \<times> auth_db"

definition asql :: "'a auth_statement \<Rightarrow> 'a auth_statement" where
  \<comment> \<open>a statement the driver may refuse\<close>
  "asql f db =
     (case ad_faults db of
        [] \<Rightarrow> f db
      | b # bs \<Rightarrow> if b then (Inl StoreFailure, db\<lparr>ad_faults := bs\<rparr>) else f (db\<lparr>ad_faults := bs\<rparr>))"

definition first_or_missing :: "'a list \<Rightarrow> store_error + 'a" where
  "first_or_missing xs = (case xs of [] \<Rightarrow> Inl NotFound | x # _ \<Rightarrow> Inr x)"

definition GetAccountByUsername :: "string \<Rightarrow> admin_account auth_statement" where
  \<comment> \<open>the column compares without case, in ASCII\<close>
  "GetAccountByUsername n = asql (\<lambda>db. (first_or_missing (filter (\<lambda>a. toLower (aa_username a) = toLower n) (ad_accounts db)), db))"

definition GetAccountByID :: "int \<Rightarrow> admin_account auth_statement" where
  "GetAccountByID i = asql (\<lambda>db. (first_or_missing (filter (\<lambda>a. aa_id a = i) (ad_accounts db)), db))"

definition update_account :: "int \<Rightarrow> (admin_account \<Rightarrow> admin_account) \<Rightarrow> unit auth_statement" where
  \<comment> \<open>\<open>UPDATE admin_accounts SET \<dots> WHERE id = ?\<close> and \<open>assertUpdated\<close>\<close>
  "update_account i f = asql (\<lambda>db.
     (if i \<in> aa_id ` set (ad_accounts db) then Inr () else Inl NotFound,
      db\<lparr>ad_accounts := List.map (\<lambda>a. if aa_id a = i then f a else a) (ad_accounts db)\<rparr>))"

definition UpdatePassword :: "int \<Rightarrow> string \<Rightarrow> instant \<Rightarrow> unit auth_statement" where
  "UpdatePassword i h t = update_account i
     (\<lambda>a. a\<lparr>aa_hash := h, aa_updated_at := t, aa_failed := 0, aa_locked_until := None\<rparr>)"

definition RecordLoginFailure :: "int \<Rightarrow> int \<Rightarrow> instant option \<Rightarrow> instant \<Rightarrow> unit auth_statement" where
  "RecordLoginFailure i n locked t = update_account i
     (\<lambda>a. a\<lparr>aa_failed := n, aa_locked_until := locked, aa_updated_at := t\<rparr>)"

definition ResetFailures :: "int \<Rightarrow> instant \<Rightarrow> unit auth_statement" where
  "ResetFailures i t = update_account i (\<lambda>a. a\<lparr>aa_failed := 0, aa_locked_until := None, aa_updated_at := t\<rparr>)"

definition insert_account :: "string \<Rightarrow> string \<Rightarrow> admin_account auth_statement" where
  \<comment> \<open>\<open>CreateAccount\<close> of the repository; usernames are unique without case\<close>
  "insert_account n h = asql (\<lambda>db.
     if \<exists>a \<in> set (ad_accounts db). toLower (aa_username a) = toLower n then (Inl Conflict, db)
     else if 2 ^ 63 - 1 \<le> ad_seq db then (Inl StoreFailure, db)
     else let a = \<lparr>aa_id = ad_seq db + 1, aa_username = n, aa_hash = h, aa_failed = 0, aa_locked_until = None,
                   aa_created_at = ad_clock db, aa_updated_at = ad_clock db\<rparr>
          in (Inr a, db\<lparr>ad_seq := ad_seq db + 1, ad_accounts := ad_accounts db @ [a]\<rparr>))"

definition CreateSession :: "admin_session \<Rightarrow> unit auth_statement" where
  \<comment> \<open>ids and token hashes are unique, and the account has to exist\<close>
  "CreateSession s = asql (\<lambda>db.
     if as_account s \<notin> aa_id ` set (ad_accounts db)
        \<or> (\<exists>x \<in> set (ad_sessions db). as_id x = as_id s \<or> as_token_hash x = as_token_hash s)
     then (Inl StoreFailure, db) else (Inr (), db\<lparr>ad_sessions := ad_sessions db @ [s]\<rparr>))"

definition GetSessionByTokenHash :: "string \<Rightarrow> admin_session auth_statement" where
  "GetSessionByTokenHash h = asql (\<lambda>db. (first_or_missing (filter (\<lambda>s. as_token_hash s = h) (ad_sessions db)), db))"

definition TouchSession :: "string \<Rightarrow> instant \<Rightarrow> unit auth_statement" where
  "TouchSession i t = asql (\<lambda>db. (Inr (),
     db\<lparr>ad_sessions := List.map (\<lambda>s. if as_id s = i then s\<lparr>as_last_seen := t\<rparr> else s) (ad_sessions db)\<rparr>))"

definition delete_sessions :: "(admin_session \<Rightarrow> bool) \<Rightarrow> unit auth_statement" where
  "delete_sessions P = asql (\<lambda>db. (Inr (), db\<lparr>ad_sessions := filter (\<lambda>s. \<not> P s) (ad_sessions db)\<rparr>))"

definition DeleteSession :: "string \<Rightarrow> unit auth_statement" where
  "DeleteSession i = delete_sessions (\<lambda>s. as_id s = i)"

definition DeleteSessionsForAccount :: "int \<Rightarrow> string \<Rightarrow> unit auth_statement" where
  "DeleteSessionsForAccount a kept = delete_sessions (\<lambda>s. as_account s = a \<and> as_id s \<noteq> kept)"

definition DeleteExpiredSessions :: "instant \<Rightarrow> unit auth_statement" where
  \<comment> \<open>\<open>expires_at < ?\<close>, on the text of the times\<close>
  "DeleteExpiredSessions t = delete_sessions (\<lambda>s. \<not> sql_time_le t (as_expires_at s))"

definition auth_audit :: "string \<Rightarrow> string \<Rightarrow> string \<Rightarrow> string \<Rightarrow> string \<Rightarrow> string \<Rightarrow> string \<Rightarrow> string \<Rightarrow> unit auth_statement" where
  \<comment> \<open>actor, action, target, request, address, agent, result and detail, cut as the audit service does\<close>
  "auth_audit who what target req ip agent result detail = asql (\<lambda>db. (Inr (), db\<lparr>ad_audit := ad_audit db @
     [\<lparr>ar_timestamp = ad_clock db, ar_actor = UserStore.truncate (if who = [] then ''unknown'' else who), ar_action = UserStore.truncate what,
       ar_target = UserStore.truncate target, ar_request_id = req, ar_source_ip = ip, ar_user_agent = agent,
       ar_result = UserStore.truncate result, ar_detail = take 2000 detail\<rparr>]\<rparr>))"

definition draw :: "auth_db \<Rightarrow> string option \<times> auth_db" where
  \<comment> \<open>the random source: \<open>NewToken\<close> and \<open>NewSessionID\<close>\<close>
  "draw db = (case ad_entropy db of [] \<Rightarrow> (None, db) | t # ts \<Rightarrow> (Some t, db\<lparr>ad_entropy := ts\<rparr>))"

section \<open>Password policy\<close>

definition byte_in :: "int \<Rightarrow> int \<Rightarrow> string \<Rightarrow> nat \<Rightarrow> bool" where
  "byte_in lo hi s i = (i < length s \<and> lo \<le> of_char (s ! i) \<and> (of_char (s ! i) :: int) \<le> hi)"

definition rune_len :: "string \<Rightarrow> nat" where
  \<comment> \<open>the bytes of the first rune; a byte that starts no valid sequence is a rune of its own\<close>
  "rune_len s =
     (if byte_in 0xC2 0xDF s 0 \<and> byte_in 0x80 0xBF s 1 then 2
      else if (byte_in 0xE0 0xE0 s 0 \<and> byte_in 0xA0 0xBF s 1 \<or> byte_in 0xED 0xED s 0 \<and> byte_in 0x80 0x9F s 1
           \<or> (byte_in 0xE1 0xEC s 0 \<or> byte_in 0xEE 0xEF s 0) \<and> byte_in 0x80 0xBF s 1) \<and> byte_in 0x80 0xBF s 2 then 3
      else if (byte_in 0xF0 0xF0 s 0 \<and> byte_in 0x90 0xBF s 1 \<or> byte_in 0xF4 0xF4 s 0 \<and> byte_in 0x80 0x8F s 1
           \<or> byte_in 0xF1 0xF3 s 0 \<and> byte_in 0x80 0xBF s 1) \<and> byte_in 0x80 0xBF s 2 \<and> byte_in 0x80 0xBF s 3 then 4
      else 1)"

function RuneCount :: "string \<Rightarrow> nat" where
  "RuneCount s = (if s = [] then 0 else Suc (RuneCount (drop (rune_len s) s)))"
  by pat_completeness auto
termination by (relation "measure length") (auto simp: rune_len_def)

declare RuneCount.simps [simp del]

definition commonPasswords :: "string list" where
  "commonPasswords = [''password'', ''passphrase'', ''qwertyuiop'', ''asdfghjkl'', ''zxcvbnm'', ''123456789012'', ''letmein'',
     ''administrator'', ''changeme'', ''xoxproxy'', ''proxyadmin'', ''secret'']"

definition ValidatePasswordPolicy :: "string \<Rightarrow> string \<Rightarrow> bool" where
  "ValidatePasswordPolicy password username =
     (12 \<le> RuneCount password
      \<and> \<not> list_ex (contains (toLower password)) commonPasswords
      \<and> \<not> (username \<noteq> [] \<and> 3 \<le> length (toLower username) \<and> contains (toLower password) (toLower username)))"

section \<open>Service\<close>

datatype auth_error =
    InvalidCredentials
  | IPBlocked
  | SessionInvalid
  | AccountTaken
  | WeakAdminPassword
  | NoAccount
  | AuthInternal
  | AuthPanic \<comment> \<open>the handler panics, and the connection is closed without an answer\<close>

datatype auth_reply =
    LoginReply string string admin_account instant \<comment> \<open>token, CSRF token, account, expiry\<close>
  | SessionReply admin_session admin_account
  | AccountReply admin_account
  | AuthDone

type_synonym auth_request = "(auth_db, auth_error + auth_reply) prog"

record login_input =
  li_username :: string
  li_password :: string
  li_source_ip :: string
  li_user_agent :: string
  li_request_id :: string

definition at_clock :: "(instant \<Rightarrow> (auth_db, 'r) prog) \<Rightarrow> (auth_db, 'r) prog" where
  "at_clock k = step_then (\<lambda>db. (ad_clock db, db)) k"

definition limiter :: "((string \<times> ip_entry) list \<Rightarrow> (string \<times> ip_entry) list) \<Rightarrow> (auth_db, 'r) prog \<Rightarrow> (auth_db, 'r) prog" where
  \<comment> \<open>an update of the failure limiter, under its lock\<close>
  "limiter f k = step_then (\<lambda>db. ((), db\<lparr>ad_ips := f (ad_ips db)\<rparr>)) (\<lambda>_. k)"

definition ignoring :: "'a auth_statement \<Rightarrow> (auth_db, 'r) prog \<Rightarrow> (auth_db, 'r) prog" where
  \<comment> \<open>a statement whose error is only logged\<close>
  "ignoring m k = step_then m (\<lambda>_. k)"

definition auditLogin :: "login_input \<Rightarrow> string \<Rightarrow> string \<Rightarrow> auth_request \<Rightarrow> auth_request" where
  "auditLogin i result detail = ignoring (auth_audit (li_username i) ''admin.login'' (li_username i) (li_request_id i)
     (li_source_ip i) (li_user_agent i) result detail)"

definition login_fail :: "auth_options \<Rightarrow> login_input \<Rightarrow> instant \<Rightarrow> string \<Rightarrow> admin_account option \<Rightarrow> auth_request" where
  \<comment> \<open>the closure \<open>fail\<close>\<close>
  "login_fail o1 i t reason account =
     limiter (recordFailure o1 (li_source_ip i) t)
       (let rest = auditLogin i ''failure'' reason (Done (Inl InvalidCredentials))
        in case account of
          None \<Rightarrow> rest
        | Some a \<Rightarrow> ignoring (RecordLoginFailure (aa_id a) (aa_failed a + 1)
            (if op_max_failures o1 \<le> aa_failed a + 1 then Some (t + op_lockout o1) else None) t) rest)"

definition mint_session :: "auth_env \<Rightarrow> login_input \<Rightarrow> instant \<Rightarrow> int \<Rightarrow> auth_db \<Rightarrow> (auth_error + string \<times> string) \<times> auth_db" where
  \<comment> \<open>the texts drawn by one request are its own, so drawing them is part of the step that uses
    them; \<open>NewToken\<close> returns an error, \<open>NewSessionID\<close> panics\<close>
  "mint_session env i t account db = (case draw db of
       (None, db) \<Rightarrow> (Inl AuthInternal, db)
     | (Some token, db) \<Rightarrow> (case draw db of
         (None, db) \<Rightarrow> (Inl AuthInternal, db)
       | (Some csrf, db) \<Rightarrow> (case draw db of
           (None, db) \<Rightarrow> (Inl AuthPanic, db)
         | (Some sid, db) \<Rightarrow> (case CreateSession \<lparr>as_id = sid, as_account = account, as_token_hash = ae_token env token,
               as_csrf = csrf, as_created_at = t, as_expires_at = t + op_session_ttl (ae_options env),
               as_last_seen = t, as_source_ip = li_source_ip i, as_user_agent = li_user_agent i\<rparr> db of
             (Inl _, db) \<Rightarrow> (Inl AuthInternal, db)
           | (Inr _, db) \<Rightarrow> (Inr (token, csrf), db)))))"

definition open_session :: "auth_env \<Rightarrow> login_input \<Rightarrow> instant \<Rightarrow> admin_account \<Rightarrow> auth_request" where
  \<comment> \<open>the part of \<open>Login\<close> after the password was right\<close>
  "open_session env i t a =
     limiter (recordSuccess (li_source_ip i))
       (step_then (ResetFailures (aa_id a) t) (\<lambda>r. case r of
          Inl _ \<Rightarrow> Done (Inl AuthInternal)
        | Inr _ \<Rightarrow> step_then (mint_session env i t (aa_id a)) (\<lambda>r. case r of
            Inl e \<Rightarrow> Done (Inl e)
          | Inr (token, csrf) \<Rightarrow> ignoring (DeleteExpiredSessions t)
              (auditLogin i ''success'' []
                (Done (Inr (LoginReply token csrf a (t + op_session_ttl (ae_options env)))))))))"

definition try_password :: "auth_env \<Rightarrow> login_input \<Rightarrow> instant \<Rightarrow> admin_account \<Rightarrow> auth_request" where
  "try_password env i t a =
     (if ae_verify env (li_password i) (aa_hash a) then open_session env i t a
      else login_fail (ae_options env) i t ''bad password'' (Some a))"

definition login_known :: "auth_env \<Rightarrow> login_input \<Rightarrow> instant \<Rightarrow> admin_account \<Rightarrow> auth_request" where
  \<comment> \<open>an account was found: an open lockout refuses, an expired one is cleared first\<close>
  "login_known env i t a =
     (if after_now (aa_locked_until a) t then login_fail (ae_options env) i t ''account locked'' (Some a)
      else if aa_locked_until a \<noteq> None then
        step_then (ResetFailures (aa_id a) t) (\<lambda>r. case r of
          Inl _ \<Rightarrow> Done (Inl AuthInternal)
        | Inr _ \<Rightarrow> try_password env i t (a\<lparr>aa_failed := 0, aa_locked_until := None\<rparr>))
      else try_password env i t a)"

definition Login :: "auth_env \<Rightarrow> login_input \<Rightarrow> auth_request" where
  "Login env i = at_clock (\<lambda>t.
     step_then (\<lambda>db. (blocked (li_source_ip i) t (ad_ips db), db)) (\<lambda>b.
       if b then auditLogin i ''failure'' ''ip blocked'' (Done (Inl IPBlocked))
       else step_then (GetAccountByUsername (li_username i)) (\<lambda>r. case r of
         Inl NotFound \<Rightarrow> login_fail (ae_options env) i t ''unknown account'' None
       | Inl _ \<Rightarrow> Done (Inl AuthInternal)
       | Inr a \<Rightarrow> login_known env i t a)))"

definition session_live :: "auth_options \<Rightarrow> instant \<Rightarrow> admin_session \<Rightarrow> bool" where
  "session_live o1 t s = (\<not> as_expires_at s < t \<and> \<not> as_last_seen s + op_idle_timeout o1 < t)"

definition with_valid_session ::
  "auth_env \<Rightarrow> string \<Rightarrow> (auth_error + admin_session \<times> admin_account \<Rightarrow> (auth_db, 'r) prog) \<Rightarrow> (auth_db, 'r) prog" where
  \<comment> \<open>\<open>ValidateSession\<close>, and what its caller does with the result\<close>
  "with_valid_session env token k = at_clock (\<lambda>t.
     step_then (GetSessionByTokenHash (ae_token env token)) (\<lambda>r. case r of
       Inl NotFound \<Rightarrow> k (Inl SessionInvalid)
     | Inl _ \<Rightarrow> k (Inl AuthInternal)
     | Inr s \<Rightarrow>
         if \<not> session_live (ae_options env) t s then ignoring (DeleteSession (as_id s)) (k (Inl SessionInvalid))
         else step_then (GetAccountByID (as_account s)) (\<lambda>r. case r of
             Inl NotFound \<Rightarrow> ignoring (DeleteSession (as_id s)) (k (Inl SessionInvalid))
           | Inl _ \<Rightarrow> k (Inl AuthInternal)
           | Inr a \<Rightarrow> ignoring (TouchSession (as_id s) t) (k (Inr (s, a))))))"

definition ValidateSession :: "auth_env \<Rightarrow> string \<Rightarrow> auth_request" where
  "ValidateSession env token = with_valid_session env token (\<lambda>r. case r of
     Inl e \<Rightarrow> Done (Inl e) | Inr (s, a) \<Rightarrow> Done (Inr (SessionReply s a)))"

definition Logout :: "auth_env \<Rightarrow> string \<Rightarrow> string \<Rightarrow> string \<Rightarrow> auth_request" where
  "Logout env token req ip =
     step_then (GetSessionByTokenHash (ae_token env token)) (\<lambda>r. case r of
       Inl NotFound \<Rightarrow> Done (Inr AuthDone)
     | Inl _ \<Rightarrow> Done (Inl AuthInternal)
     | Inr s \<Rightarrow> step_then (DeleteSession (as_id s)) (\<lambda>r. case r of
         Inl _ \<Rightarrow> Done (Inl AuthInternal)
       | Inr _ \<Rightarrow> ignoring (auth_audit ''admin'' ''admin.logout'' [] req ip [] ''success'' []) (Done (Inr AuthDone))))"

definition ChangePassword :: "auth_env \<Rightarrow> string \<Rightarrow> string \<Rightarrow> string \<Rightarrow> string \<Rightarrow> string \<Rightarrow> auth_request" where
  "ChangePassword env token current new req ip = with_valid_session env token (\<lambda>r. case r of
     Inl e \<Rightarrow> Done (Inl e)
   | Inr (s, a) \<Rightarrow>
       if \<not> ae_verify env current (aa_hash a) then
         ignoring (auth_audit (aa_username a) ''admin.password_change'' [] req ip [] ''failure'' ''current password incorrect'')
           (Done (Inl InvalidCredentials))
       else if \<not> ValidatePasswordPolicy new (aa_username a) then Done (Inl WeakAdminPassword)
       else case ae_hash env new of
         None \<Rightarrow> Done (Inl AuthInternal)
       | Some h \<Rightarrow> at_clock (\<lambda>t. step_then (UpdatePassword (aa_id a) h t) (\<lambda>r. case r of
           Inl _ \<Rightarrow> Done (Inl AuthInternal)
         | Inr _ \<Rightarrow> step_then (DeleteSessionsForAccount (aa_id a) (as_id s)) (\<lambda>r. case r of
             Inl _ \<Rightarrow> Done (Inl AuthInternal)
           | Inr _ \<Rightarrow> ignoring (auth_audit (aa_username a) ''admin.password_change'' [] req ip [] ''success'' ''other sessions revoked'')
               (Done (Inr (SessionReply s a)))))))"

definition CreateAccount :: "auth_env \<Rightarrow> string \<Rightarrow> string \<Rightarrow> string \<Rightarrow> string \<Rightarrow> auth_request" where
  "CreateAccount env username password who req =
     (if \<not> ValidatePasswordPolicy password username then Done (Inl WeakAdminPassword)
      else case ae_hash env password of
        None \<Rightarrow> Done (Inl AuthInternal)
      | Some h \<Rightarrow> step_then (insert_account username h) (\<lambda>r. case r of
          Inl Conflict \<Rightarrow> Done (Inl AccountTaken)
        | Inl _ \<Rightarrow> Done (Inl AuthInternal)
        | Inr a \<Rightarrow> ignoring (auth_audit who ''admin.account_created'' username req [] [] ''success'' []) (Done (Inr (AccountReply a)))))"

definition ResetPassword :: "auth_env \<Rightarrow> string \<Rightarrow> string \<Rightarrow> string \<Rightarrow> string \<Rightarrow> auth_request" where
  "ResetPassword env username new who req =
     step_then (GetAccountByUsername username) (\<lambda>r. case r of
       Inl NotFound \<Rightarrow> Done (Inl NoAccount)
     | Inl _ \<Rightarrow> Done (Inl AuthInternal)
     | Inr a \<Rightarrow>
         if \<not> ValidatePasswordPolicy new username then Done (Inl WeakAdminPassword)
         else case ae_hash env new of
           None \<Rightarrow> Done (Inl AuthInternal)
         | Some h \<Rightarrow> at_clock (\<lambda>t. step_then (UpdatePassword (aa_id a) h t) (\<lambda>r. case r of
             Inl NotFound \<Rightarrow> Done (Inl NoAccount)
           | Inl _ \<Rightarrow> Done (Inl AuthInternal)
           | Inr _ \<Rightarrow> step_then (DeleteSessionsForAccount (aa_id a) []) (\<lambda>r. case r of
               Inl _ \<Rightarrow> Done (Inl AuthInternal)
             | Inr _ \<Rightarrow> ignoring (auth_audit who ''admin.password_reset'' username req [] [] ''success'' ''all sessions revoked'')
                 (Done (Inr AuthDone))))))"

section \<open>Handlers\<close>

definition loginRequest :: go_struct where
  "loginRequest = [(''username'', GoString), (''password'', GoString)]"

fun login_error_code :: "auth_error \<Rightarrow> nat \<times> string" where
  "login_error_code IPBlocked = (429, ''TOO_MANY_ATTEMPTS'')"
| "login_error_code InvalidCredentials = (401, ''INVALID_CREDENTIALS'')"
| "login_error_code AuthPanic = (0, [])" \<comment> \<open>no answer\<close>
| "login_error_code _ = (500, ''INTERNAL'')"

definition handleLogin :: "auth_env \<Rightarrow> (string \<Rightarrow> string \<Rightarrow> login_input) \<Rightarrow> call \<Rightarrow>
    (auth_db, (nat \<times> string) + auth_reply) prog" where
  \<comment> \<open>the reply holds the cookie and the fields of the body; the context of the request makes the input\<close>
  "handleLogin env input r =
     (case readJSON loginRequest r of
        Some e \<Rightarrow> Done (Inl e)
      | None \<Rightarrow>
          (let str = (\<lambda>k. case json_member (the (c_body r)) k of JStr s \<Rightarrow> s | _ \<Rightarrow> []);
               u = str ''username''; p = str ''password''
           in if u = [] \<or> 64 < length u \<or> p = [] \<or> 256 < length p then Done (Inl (401, ''INVALID_CREDENTIALS''))
              else map_prog (map_sum login_error_code id) (Login env (input u p))))"

definition handleLogout :: "auth_env \<Rightarrow> string option \<Rightarrow> string \<Rightarrow> string \<Rightarrow> (auth_db, nat \<times> string) prog" where
  \<comment> \<open>the session cookie, if any, goes to \<open>Logout\<close>, whose error is only logged; the answer clears the cookie\<close>
  "handleLogout env cookie req ip =
     (case cookie of
        None \<Rightarrow> Done (200, ''ok'')
      | Some token \<Rightarrow>
          if token = [] then Done (200, ''ok'')
          else map_prog (\<lambda>_. (200, ''ok'')) (Logout env token req ip))"

end
