(* ===== verification/AdminSessions.thy ===== *)
theory AdminSessions
  imports AdminAuth
begin

text \<open>
  What holds of the sessions of administrators in any interleaving of logins, logouts, requests
  and password changes, time passing in between: ids and token hashes stay unique, a login takes
  the right password of an open account, a session that was removed never comes back, guesses made
  at the same time count once, and a login can outlive the password it used.
\<close>

section \<open>Invariant and guarantee\<close>

definition auth_ok :: "auth_db \<Rightarrow> bool" where
  "auth_ok db = (distinct (List.map as_id (ad_sessions db)) \<and> distinct (List.map as_token_hash (ad_sessions db)))"

definition same_session :: "admin_session \<Rightarrow> admin_session \<Rightarrow> bool" where
  "same_session s r = (r = s\<lparr>as_last_seen := as_last_seen r\<rparr>)"

definition auth_rely :: "(string \<Rightarrow> string) \<Rightarrow> auth_db \<Rightarrow> auth_db \<Rightarrow> bool" where
  \<comment> \<open>a session is one that was there, or was made from a text drawn since\<close>
  "auth_rely h db db' =
     (\<exists>used. ad_entropy db = used @ ad_entropy db'
        \<and> (\<forall>r \<in> set (ad_sessions db'). (\<exists>s \<in> set (ad_sessions db). same_session s r) \<or> as_token_hash r \<in> h ` set used))"

lemma same_session_refl [simp]: "same_session s s"
  by (simp add: same_session_def)

lemma same_session_trans: "same_session s r \<Longrightarrow> same_session r q \<Longrightarrow> same_session s q"
  by (cases s, cases r, cases q) (simp add: same_session_def)

lemma same_session_keys:
  assumes "same_session s r"
  shows "as_id r = as_id s" "as_token_hash r = as_token_hash s" "as_account r = as_account s"
  using assms by (cases s; cases r; simp add: same_session_def)+

lemma auth_rely_refl [simp]: "auth_rely h db db"
  by (force simp: auth_rely_def)

lemma auth_rely_trans:
  assumes "auth_rely h a b" "auth_rely h b c"
  shows "auth_rely h a c"
proof -
  obtain us vs where "ad_entropy a = us @ ad_entropy b" "ad_entropy b = vs @ ad_entropy c"
    and u: "\<forall>r \<in> set (ad_sessions b). (\<exists>s \<in> set (ad_sessions a). same_session s r) \<or> as_token_hash r \<in> h ` set us"
    and v: "\<forall>r \<in> set (ad_sessions c). (\<exists>s \<in> set (ad_sessions b). same_session s r) \<or> as_token_hash r \<in> h ` set vs"
    using assms by (auto simp: auth_rely_def)
  then have "ad_entropy a = (us @ vs) @ ad_entropy c" by simp
  moreover have "\<forall>r \<in> set (ad_sessions c). (\<exists>s \<in> set (ad_sessions a). same_session s r) \<or> as_token_hash r \<in> h ` set (us @ vs)"
    using u v same_session_trans same_session_keys(2) by (metis image_Un set_append Un_iff)
  ultimately show ?thesis unfolding auth_rely_def by blast
qed

lemma auth_rely_found:
  assumes "auth_rely h a b" "r \<in> set (ad_sessions b)" "as_token_hash r \<notin> h ` set (ad_entropy a)"
  shows "\<exists>q \<in> set (ad_sessions a). same_session q r"
  using assms by (auto simp: auth_rely_def)

interpretation auth: interleaving auth_ok "auth_rely h" for h :: "string \<Rightarrow> string"
  by unfold_locales (auto intro: auth_rely_trans)

section \<open>Every step keeps them\<close>

definition keeps_auth :: "(string \<Rightarrow> string) \<Rightarrow> (auth_db \<Rightarrow> 'a \<times> auth_db) \<Rightarrow> bool" where
  "keeps_auth h m = (\<forall>db r db'. auth_ok db \<longrightarrow> m db = (r, db') \<longrightarrow> auth_ok db' \<and> auth_rely h db db')"

named_theorems auth_intros \<open>safety of the parts of a call\<close>

lemma keeps_fewer:
  \<comment> \<open>no text is drawn, and every session left was there, at most touched\<close>
  assumes "\<And>db r db'. m db = (r, db') \<Longrightarrow> ad_entropy db' = ad_entropy db
    \<and> (\<exists>P f. ad_sessions db' = List.map f (filter P (ad_sessions db)) \<and> (\<forall>s. same_session s (f s)))"
  shows "keeps_auth h m"
  unfolding keeps_auth_def
proof (intro allI impI)
  fix db r db' assume ok: "auth_ok db" and m: "m db = (r, db')"
  obtain P f where f: "ad_sessions db' = List.map f (filter P (ad_sessions db))" "\<And>s. same_session s (f s)"
    using assms [OF m] by blast
  then have "List.map as_id (ad_sessions db') = List.map as_id (filter P (ad_sessions db))"
    "List.map as_token_hash (ad_sessions db') = List.map as_token_hash (filter P (ad_sessions db))"
    by (simp_all add: same_session_keys(1,2) [OF f(2)])
  then have "auth_ok db'" using ok by (simp add: auth_ok_def distinct_map_filter)
  moreover have "auth_rely h db db'" unfolding auth_rely_def using assms [OF m] f by force
  ultimately show "auth_ok db' \<and> auth_rely h db db'" ..
qed

lemma keeps_tables:
  assumes "\<And>db r db'. m db = (r, db') \<Longrightarrow> ad_entropy db' = ad_entropy db \<and> ad_sessions db' = ad_sessions db"
  shows "keeps_auth h m"
proof (rule keeps_fewer)
  fix db r db' assume "m db = (r, db')"
  then show "ad_entropy db' = ad_entropy db
    \<and> (\<exists>P f. ad_sessions db' = List.map f (filter P (ad_sessions db)) \<and> (\<forall>s. same_session s (f s)))"
    using assms by (intro conjI exI [of _ "\<lambda>_. True"] exI [of _ "\<lambda>s. s"]) auto
qed

lemma frame_faults [simp]:
  "auth_ok (db\<lparr>ad_faults := fs\<rparr>) = auth_ok db" "auth_rely h (db\<lparr>ad_faults := fs\<rparr>) d = auth_rely h db d"
  "auth_rely h db (d\<lparr>ad_faults := fs\<rparr>) = auth_rely h db d"
  by (simp_all add: auth_ok_def auth_rely_def)

lemma keeps_asql: "keeps_auth h f \<Longrightarrow> keeps_auth h (asql f)"
  unfolding keeps_auth_def asql_def by (auto split: list.splits if_splits) (metis frame_faults)+

lemma keeps_asql_tables:
  "(\<And>db. ad_entropy (snd (f db)) = ad_entropy db \<and> ad_sessions (snd (f db)) = ad_sessions db) \<Longrightarrow> keeps_auth h (asql f)"
  by (intro keeps_asql keeps_tables) (metis snd_conv)

lemma keeps_update_account: "keeps_auth h (update_account i f)"
  unfolding update_account_def by (intro keeps_asql keeps_tables) auto

lemma keeps_delete_sessions: "keeps_auth h (delete_sessions P)"
  unfolding delete_sessions_def
  by (intro keeps_asql keeps_fewer) (auto intro!: exI [of _ "\<lambda>s. s"])

lemma keeps_auth_statement [auth_intros]:
  "keeps_auth h (GetAccountByUsername n)" "keeps_auth h (GetAccountByID i)" "keeps_auth h (GetSessionByTokenHash x)"
  "keeps_auth h (UpdatePassword i p t)" "keeps_auth h (RecordLoginFailure i k l t)" "keeps_auth h (ResetFailures i t)"
  "keeps_auth h (insert_account n p)" "keeps_auth h (DeleteSession sid)"
  "keeps_auth h (DeleteSessionsForAccount i sid)" "keeps_auth h (DeleteExpiredSessions t)"
  "keeps_auth h (auth_audit who what target req ip agent result detail)"
  unfolding GetAccountByUsername_def GetAccountByID_def GetSessionByTokenHash_def UpdatePassword_def RecordLoginFailure_def
    ResetFailures_def insert_account_def DeleteSession_def DeleteSessionsForAccount_def DeleteExpiredSessions_def auth_audit_def
  by (auto intro!: keeps_asql_tables keeps_update_account keeps_delete_sessions simp: Let_def)

lemma keeps_touch [auth_intros]: "keeps_auth h (TouchSession sid t)"
  unfolding TouchSession_def
  by (rule keeps_asql, rule keeps_fewer)
    (auto simp: same_session_def intro!: exI [of _ "\<lambda>_. True"] exI [of _ "\<lambda>s. if as_id s = sid then s\<lparr>as_last_seen := t\<rparr> else s"])

lemma keeps_mint [auth_intros]: "keeps_auth (ae_token env) (mint_session env i t a)"
  unfolding keeps_auth_def
proof (intro allI impI)
  fix db r db' assume ok: "auth_ok db" and m: "mint_session env i t a db = (r, db')"
  obtain us where e: "ad_entropy db = us @ ad_entropy db'"
    and s: "ad_sessions db' = ad_sessions db \<or> (\<exists>n token. ad_sessions db' = ad_sessions db @ [n] \<and> token \<in> set us
      \<and> as_token_hash n = ae_token env token \<and> (\<forall>x \<in> set (ad_sessions db). as_id x \<noteq> as_id n \<and> as_token_hash x \<noteq> as_token_hash n))"
    using m unfolding mint_session_def draw_def CreateSession_def asql_def
    by (fastforce split: list.splits option.splits sum.splits prod.splits if_splits)
  then have "auth_ok db'" using ok by (auto simp: auth_ok_def, blast+)
  moreover have "auth_rely (ae_token env) db db'" unfolding auth_rely_def using e s by force
  ultimately show "auth_ok db' \<and> auth_rely (ae_token env) db db'" ..
qed

abbreviation safe_auth :: "(string \<Rightarrow> string) \<Rightarrow> (auth_db, 'r) prog \<Rightarrow> bool" where
  "safe_auth h \<equiv> safe auth_ok (auth_rely h)"

lemma safe_keeps_auth: "keeps_auth h m \<Longrightarrow> (\<And>r. safe_auth h (k r)) \<Longrightarrow> safe_auth h (step_then m k)"
  by (rule safe_step_then) (auto simp: keeps_auth_def)

lemma safe_parts [auth_intros]:
  "keeps_auth h m \<Longrightarrow> safe_auth h k \<Longrightarrow> safe_auth h (ignoring m k)"
  "(\<And>t. safe_auth h (q t)) \<Longrightarrow> safe_auth h (at_clock q)"
  "safe_auth h k \<Longrightarrow> safe_auth h (limiter g k)"
  unfolding ignoring_def at_clock_def limiter_def
  by (auto intro!: safe_keeps_auth keeps_tables)

lemma safe_login_fail [auth_intros]: "safe_auth h (login_fail o1 i t why a)"
  unfolding login_fail_def auditLogin_def by (auto intro!: auth_intros simp: Let_def split: option.splits)

lemma safe_try [auth_intros]: "safe_auth (ae_token env) (try_password env i t a)"
  unfolding try_password_def open_session_def auditLogin_def
  by (auto intro!: auth_intros safe_keeps_auth split: sum.splits)

lemma safe_Login: "safe_auth (ae_token env) (Login env i)"
  unfolding Login_def login_known_def auditLogin_def
  by (auto intro!: auth_intros safe_keeps_auth keeps_tables split: sum.splits store_error.splits)

lemma safe_valid_session:
  "(\<And>r. safe_auth (ae_token env) (k r)) \<Longrightarrow> safe_auth (ae_token env) (with_valid_session env token k)"
  unfolding with_valid_session_def
  by (auto intro!: auth_intros safe_keeps_auth split: sum.splits store_error.splits)

datatype auth_call =
    LoginCall login_input
  | ValidateCall string
  | LogoutCall string string string
  | ChangeCall string string string string string
  | NewAccountCall string string string string
  | ResetPasswordCall string string string string
  | TimePasses nat

fun serve_auth :: "auth_env \<Rightarrow> auth_call \<Rightarrow> auth_request" where
  "serve_auth env (LoginCall i) = Login env i"
| "serve_auth env (ValidateCall token) = ValidateSession env token"
| "serve_auth env (LogoutCall token req ip) = Logout env token req ip"
| "serve_auth env (ChangeCall token old new req ip) = ChangePassword env token old new req ip"
| "serve_auth env (NewAccountCall n p who req) = CreateAccount env n p who req"
| "serve_auth env (ResetPasswordCall n p who req) = ResetPassword env n p who req"
| "serve_auth env (TimePasses n) = step_then (\<lambda>db. ((), db\<lparr>ad_clock := ad_clock db + int n\<rparr>)) (\<lambda>_. Done (Inr AuthDone))"

lemma safe_serve_auth: "safe_auth (ae_token env) (serve_auth env x)"
proof (cases x)
  case LoginCall
  then show ?thesis by (simp add: safe_Login)
next
  case ValidateCall
  then show ?thesis by (auto simp: ValidateSession_def intro!: safe_valid_session split: sum.splits)
next
  case LogoutCall
  then show ?thesis
    by (auto simp: Logout_def intro!: auth_intros safe_keeps_auth split: sum.splits store_error.splits)
next
  case ChangeCall
  then show ?thesis
    by (auto simp: ChangePassword_def intro!: auth_intros safe_keeps_auth safe_valid_session split: sum.splits option.splits)
next
  case NewAccountCall
  then show ?thesis
    by (auto simp: CreateAccount_def intro!: auth_intros safe_keeps_auth split: sum.splits store_error.splits option.splits)
next
  case ResetPasswordCall
  then show ?thesis
    by (auto simp: ResetPassword_def intro!: auth_intros safe_keeps_auth split: sum.splits store_error.splits option.splits)
next
  case TimePasses
  then show ?thesis by (auto intro!: auth_intros safe_keeps_auth keeps_tables)
qed

section \<open>What the parts of a call have seen\<close>

definition gone :: "(string \<Rightarrow> string) \<Rightarrow> string \<Rightarrow> auth_db \<Rightarrow> bool" where
  \<comment> \<open>no session has this token hash, and no text still to be drawn gives it\<close>
  "gone h x db = ((\<forall>s \<in> set (ad_sessions db). as_token_hash s \<noteq> x) \<and> x \<notin> h ` set (ad_entropy db))"

lemma gone_later: "gone h x a \<Longrightarrow> auth_rely h a b \<Longrightarrow> gone h x b"
  unfolding gone_def auth_rely_def by (fastforce dest: same_session_keys(2))

lemma entropy_later: "x \<notin> h ` set (ad_entropy a) \<Longrightarrow> auth_rely h a b \<Longrightarrow> x \<notin> h ` set (ad_entropy b)"
  unfolding auth_rely_def by auto

lemma asql_cases:
  assumes "asql f db = (r, db')"
  obtains "r = Inl StoreFailure" | fs where "f (db\<lparr>ad_faults := fs\<rparr>) = (r, db')"
proof (cases "ad_faults db")
  case Nil
  then have "f (db\<lparr>ad_faults := []\<rparr>) = (r, db')" using assms by (simp add: asql_def) (metis auth_db.surjective auth_db.update_convs(8) old.unit.exhaust)
  then show ?thesis by (rule that(2))
next
  case (Cons b bs)
  then show ?thesis using assms that by (cases b) (auto simp: asql_def)
qed

lemma lookup_cases:
  assumes "GetSessionByTokenHash x db = (r, db')"
  shows "r = Inl NotFound \<Longrightarrow> \<forall>s \<in> set (ad_sessions db'). as_token_hash s \<noteq> x"
    and "r = Inr s \<Longrightarrow> s \<in> set (ad_sessions db') \<and> as_token_hash s = x"
proof -
  have "(r = Inl NotFound \<longrightarrow> (\<forall>s \<in> set (ad_sessions db'). as_token_hash s \<noteq> x))
    \<and> (r = Inr s \<longrightarrow> s \<in> set (ad_sessions db') \<and> as_token_hash s = x)"
    using assms [unfolded GetSessionByTokenHash_def]
    by (cases rule: asql_cases) (auto simp: first_or_missing_def filter_empty_conv filter_eq_Cons_iff split: list.splits)
  then show "r = Inl NotFound \<Longrightarrow> \<forall>s \<in> set (ad_sessions db'). as_token_hash s \<noteq> x"
    "r = Inr s \<Longrightarrow> s \<in> set (ad_sessions db') \<and> as_token_hash s = x" by blast+
qed

lemma account_cases: "GetAccountByID i db = (Inr a, db') \<Longrightarrow> aa_id a = i"
  unfolding GetAccountByID_def
  by (erule asql_cases) (auto simp: first_or_missing_def filter_eq_Cons_iff split: list.splits)

lemma delete_cases:
  "delete_sessions P db = (Inr u, db') \<Longrightarrow> s \<in> set (ad_sessions db') \<Longrightarrow> s \<in> set (ad_sessions db) \<and> \<not> P s"
  unfolding delete_sessions_def by (erule asql_cases) auto

text \<open>
  A session found at one moment is, at a later one, the only one with its token hash and the only
  one with its id, among those that do not come from texts drawn since.
\<close>

lemma found_later:
  assumes "auth_ok a" "s \<in> set (ad_sessions a)" "auth_rely h a b" "r \<in> set (ad_sessions b)" "as_token_hash r \<notin> h ` set (ad_entropy a)"
  shows "as_token_hash r = as_token_hash s \<longleftrightarrow> as_id r = as_id s"
proof -
  obtain q where q: "q \<in> set (ad_sessions a)" "same_session q r" using assms(3-5) by (auto simp: auth_rely_def)
  then show ?thesis
    using assms(1,2) same_session_keys(1,2) [OF q(2)] by (auto simp: auth_ok_def distinct_map inj_on_def)
qed

lemma outcome_ignoring: "outcome (ignoring m k) ts b \<Longrightarrow> \<exists>p us. ts = p # us \<and> outcome k us b"
  by (auto simp: ignoring_def outcome_step_then)

lemma outcome_valid:
  assumes "outcome (with_valid_session env token k) ts b"
  shows "\<exists>pre us r. ts = pre @ us \<and> outcome (k r) us b
    \<and> (\<forall>s a. r = Inr (s, a) \<longrightarrow> as_account s = aa_id a \<and> as_token_hash s = ae_token env token
         \<and> (\<exists>d d'. (d, d') \<in> set pre \<and> s \<in> set (ad_sessions d')))"
proof -
  obtain d0 d0' d1 r d1' us where ts: "ts = (d0, d0') # (d1, d1') # us"
    and r: "GetSessionByTokenHash (ae_token env token) d1 = (r, d1')"
    and o1: "outcome (case r of
       Inl NotFound \<Rightarrow> k (Inl SessionInvalid)
     | Inl _ \<Rightarrow> k (Inl AuthInternal)
     | Inr s \<Rightarrow>
         if \<not> session_live (ae_options env) (ad_clock d0) s then ignoring (DeleteSession (as_id s)) (k (Inl SessionInvalid))
         else step_then (GetAccountByID (as_account s)) (\<lambda>r. case r of
             Inl NotFound \<Rightarrow> ignoring (DeleteSession (as_id s)) (k (Inl SessionInvalid))
           | Inl _ \<Rightarrow> k (Inl AuthInternal)
           | Inr a \<Rightarrow> ignoring (TouchSession (as_id s) (ad_clock d0)) (k (Inr (s, a))))) us b"
    using assms unfolding with_valid_session_def at_clock_def outcome_step_then by blast
  have early: "\<exists>pre us r. ts = pre @ us \<and> outcome (k r) us b
    \<and> (\<forall>s a. r = Inr (s, a) \<longrightarrow> as_account s = aa_id a \<and> as_token_hash s = ae_token env token
         \<and> (\<exists>d d'. (d, d') \<in> set pre \<and> s \<in> set (ad_sessions d')))"
    if "us = p @ vs" "outcome (k (Inl e)) vs b" for p vs e
    using that ts by (intro exI [of _ "(d0, d0') # (d1, d1') # p"] exI [of _ vs] exI [of _ "Inl e"]) simp
  show ?thesis
  proof (cases r)
    case (Inl e)
    then show ?thesis using o1 early [of "[]"] by (cases e) auto
  next
    case (Inr s)
    note s = lookup_cases(2) [OF r Inr]
    show ?thesis
    proof (cases "session_live (ae_options env) (ad_clock d0) s")
      case False
      then have "outcome (ignoring (DeleteSession (as_id s)) (k (Inl SessionInvalid))) us b" using o1 Inr by simp
      then obtain p vs where "us = [p] @ vs" "outcome (k (Inl SessionInvalid)) vs b" by (auto dest: outcome_ignoring)
      then show ?thesis by (rule early)
    next
      case True
      then obtain d2 q d2' vs where q: "us = (d2, d2') # vs" "GetAccountByID (as_account s) d2 = (q, d2')"
        and o2: "outcome (case q of
             Inl NotFound \<Rightarrow> ignoring (DeleteSession (as_id s)) (k (Inl SessionInvalid))
           | Inl _ \<Rightarrow> k (Inl AuthInternal)
           | Inr a \<Rightarrow> ignoring (TouchSession (as_id s) (ad_clock d0)) (k (Inr (s, a)))) vs b"
        using o1 Inr by (auto simp: outcome_step_then)
      show ?thesis
      proof (cases q)
        case (Inl e)
        then consider "outcome (k (Inl AuthInternal)) vs b"
          | "outcome (ignoring (DeleteSession (as_id s)) (k (Inl SessionInvalid))) vs b"
          using o2 by (cases e) auto
        then show ?thesis
        proof cases
          case 1
          then show ?thesis using early [of "[(d2, d2')]"] q(1) by simp
        next
          case 2
          then obtain p ws where "vs = p # ws" "outcome (k (Inl SessionInvalid)) ws b" by (auto dest: outcome_ignoring)
          then show ?thesis using early [of "[(d2, d2'), p]"] q(1) by simp
        qed
      next
        case (Inr a)
        then obtain p ws where "vs = p # ws" "outcome (k (Inr (s, a))) ws b" using o2 outcome_ignoring by force
        then show ?thesis
          using ts q(1) s account_cases q(2) Inr
          by (intro exI [of _ "[(d0, d0'), (d1, d1'), (d2, d2'), p]"] exI [of _ ws] exI [of _ "Inr (s, a)"]) auto
      qed
    qed
  qed
qed

section \<open>Removed sessions\<close>

lemma outcome_needs_statement:
  "outcome (step_then m (\<lambda>r. case r of Inl _ \<Rightarrow> Done (Inl z) | Inr (_ :: unit) \<Rightarrow> p)) ts (Inr y)
   \<longleftrightarrow> (\<exists>d d' us. m d = (Inr (), d') \<and> ts = (d, d') # us \<and> outcome p us (Inr y))" (is "?l = ?r")
proof
  assume ?l
  then obtain d r d' us where *: "m d = (r, d')" "ts = (d, d') # us" "outcome (case r of Inl _ \<Rightarrow> Done (Inl z) | Inr _ \<Rightarrow> p) us (Inr y)"
    unfolding outcome_step_then by blast
  then show ?r by (cases r) auto
qed (auto simp: outcome_step_then)

lemma outcome_at_clock: "outcome (at_clock k) ts b \<longleftrightarrow> (\<exists>d us. ts = (d, d) # us \<and> outcome (k (ad_clock d)) us b)"
  unfolding at_clock_def outcome_step_then by auto

lemma sorted_own_later:
  "sorted_wrt (\<lambda>t t'. auth_rely h (snd t) (fst t')) (pre @ us) \<Longrightarrow> (d, d') \<in> set pre \<Longrightarrow> (e, e') \<in> set us \<Longrightarrow> auth_rely h d' e"
  by (fastforce simp: sorted_wrt_append)

lemma Logout_removes:
  assumes "outcome (Logout env token req ip) ts (Inr AuthDone)"
    and "sorted_wrt (\<lambda>t t'. auth_rely (ae_token env) (snd t) (fst t')) ts" and "\<forall>(d, d') \<in> set ts. auth_ok d' \<and> auth_rely (ae_token env) d d'"
    and "\<forall>(d, d') \<in> set ts. ae_token env token \<notin> ae_token env ` set (ad_entropy d')"
  shows "\<exists>d d'. (d, d') \<in> set ts \<and> gone (ae_token env) (ae_token env token) d'"
proof -
  let ?x = "ae_token env token"
  obtain d0 r d0' us where ts: "ts = (d0, d0') # us" and r: "GetSessionByTokenHash ?x d0 = (r, d0')"
    and o1: "outcome (case r of
       Inl NotFound \<Rightarrow> Done (Inr AuthDone)
     | Inl _ \<Rightarrow> Done (Inl AuthInternal)
     | Inr s \<Rightarrow> step_then (DeleteSession (as_id s)) (\<lambda>r. case r of
         Inl _ \<Rightarrow> Done (Inl AuthInternal)
       | Inr _ \<Rightarrow> ignoring (auth_audit ''admin'' ''admin.logout'' [] req ip [] ''success'' []) (Done (Inr AuthDone)))) us (Inr AuthDone)"
    using assms(1) unfolding Logout_def outcome_step_then by blast
  show ?thesis
  proof (cases r)
    case (Inl e)
    then have "e = NotFound" using o1 by (cases e) auto
    then show ?thesis using lookup_cases(1) [OF r] Inl ts assms(4) by (auto simp: gone_def)
  next
    case (Inr s)
    note s = lookup_cases(2) [OF r Inr]
    obtain d1 d1' vs where us: "us = (d1, d1') # vs" and u: "DeleteSession (as_id s) d1 = (Inr (), d1')"
      using o1 Inr by (auto simp: outcome_needs_statement)
    have later: "auth_rely (ae_token env) d0' d1" "auth_ok d0'" using assms(2,3) ts us by auto
    have "as_token_hash q \<noteq> ?x" if q: "q \<in> set (ad_sessions d1')" for q
    proof
      assume x: "as_token_hash q = ?x"
      have "q \<in> set (ad_sessions d1)" "as_id q \<noteq> as_id s"
        using u q delete_cases [of _ d1] by (auto simp: DeleteSession_def)
      moreover have "?x \<notin> ae_token env ` set (ad_entropy d0')" using assms(4) ts by simp
      ultimately show False using found_later [OF later(2) _ later(1)] s x by metis
    qed
    then show ?thesis using ts us assms(4) by (auto simp: gone_def)
  qed
qed

text \<open>
  C10. A session that was logged out stays dead. Whatever else runs, once a logout has answered, no
  session with its token is in the store at the end, because the only way in is a fresh text of
  the random source; that no text still to be drawn has the hash of the token is assumed.
\<close>

theorem revoked_session_stays_dead:
  assumes "auth_ok db" and "steps (List.map (serve_auth env) calls) db ts qs db'"
    and "i < length calls" "calls ! i = LogoutCall token req ip" "qs ! i = Done (Inr AuthDone)"
    and "ae_token env token \<notin> ae_token env ` set (ad_entropy db)"
  shows "\<forall>s \<in> set (ad_sessions db'). as_token_hash s \<noteq> ae_token env token"
proof -
  have safe: "\<forall>p \<in> set (List.map (serve_auth env) calls). safe_auth (ae_token env) p" using safe_serve_auth by auto
  note all = auth.steps_safe [OF assms(2,1) safe]
  have o1: "outcome (Logout env token req ip) (own i ts) (Inr AuthDone)"
    using steps_outcome [OF assms(2), of i "Inr AuthDone"] assms(3-5) by simp
  have fresh: "ae_token env token \<notin> ae_token env ` set (ad_entropy d')" if "(i, d, d') \<in> set ts" for d d'
    using all that entropy_later [OF assms(6)] auth_rely_trans by blast
  obtain d d' where d: "(i, d, d') \<in> set ts" "gone (ae_token env) (ae_token env token) d'"
    using Logout_removes [OF o1 auth.steps_own(1) [OF assms(2,1) safe]] auth.steps_own(2) [OF assms(2,1) safe, of i] fresh
    by (fastforce simp: set_own)
  then have "auth_rely (ae_token env) d' db'" using all by blast
  then show ?thesis using gone_later [OF d(2)] by (auto simp: gone_def)
qed

lemma ChangePassword_removes:
  assumes "outcome (ChangePassword env token old new req ip) ts (Inr (SessionReply s a))"
    and "sorted_wrt (\<lambda>t t'. auth_rely (ae_token env) (snd t) (fst t')) ts"
  shows "as_account s = aa_id a \<and> as_token_hash s = ae_token env token \<and>
    (\<exists>d d' e e'. (d, d') \<in> set ts \<and> s \<in> set (ad_sessions d') \<and> (e, e') \<in> set ts \<and> auth_rely (ae_token env) d' e
       \<and> (\<forall>r \<in> set (ad_sessions e'). r \<in> set (ad_sessions e) \<and> (as_account r \<noteq> aa_id a \<or> as_id r = as_id s)))"
proof -
  let ?k = "\<lambda>r. case r of
     Inl e \<Rightarrow> Done (Inl e)
   | Inr (s, a) \<Rightarrow>
       if \<not> ae_verify env old (aa_hash a) then
         ignoring (auth_audit (aa_username a) ''admin.password_change'' [] req ip [] ''failure'' ''current password incorrect'')
           (Done (Inl InvalidCredentials))
       else if \<not> ValidatePasswordPolicy new (aa_username a) then Done (Inl WeakAdminPassword)
       else case ae_hash env new of
         None \<Rightarrow> Done (Inl AuthInternal)
       | Some h \<Rightarrow> at_clock (\<lambda>t. step_then (UpdatePassword (aa_id a) h t) (\<lambda>r. case r of
           Inl _ \<Rightarrow> Done (Inl AuthInternal)
         | Inr _ \<Rightarrow> step_then (DeleteSessionsForAccount (aa_id a) (as_id s)) (\<lambda>r. case r of
             Inl _ \<Rightarrow> Done (Inl AuthInternal)
           | Inr _ \<Rightarrow> ignoring (auth_audit (aa_username a) ''admin.password_change'' [] req ip [] ''success'' ''other sessions revoked'')
               (Done (Inr (SessionReply s a))))))"
  obtain pre us r where ts: "ts = pre @ us" and o1: "outcome (?k r) us (Inr (SessionReply s a))"
    and r: "\<forall>s a. r = Inr (s, a) \<longrightarrow> as_account s = aa_id a \<and> as_token_hash s = ae_token env token
         \<and> (\<exists>d d'. (d, d') \<in> set pre \<and> s \<in> set (ad_sessions d'))"
    using outcome_valid [OF assms(1) [unfolded ChangePassword_def]] by blast
  obtain s' a' where sa: "r = Inr (s', a')" using o1 by (cases r) auto
  have "(\<exists>t \<in> set us. DeleteSessionsForAccount (aa_id a') (as_id s') (fst t) = (Inr (), snd t)) \<and> s = s' \<and> a = a'"
    using o1 sa by (auto simp: outcome_at_clock outcome_needs_statement dest!: outcome_ignoring split: if_splits option.splits)
  then obtain e e' where e: "(e, e') \<in> set us" "DeleteSessionsForAccount (aa_id a') (as_id s') e = (Inr (), e')" and "s = s'" "a = a'"
    by auto
  then have del: "r \<in> set (ad_sessions e) \<and> (as_account r \<noteq> aa_id a \<or> as_id r = as_id s)" if "r \<in> set (ad_sessions e')" for r
    using that delete_cases [of _ e] unfolding DeleteSessionsForAccount_def by blast
  obtain d d' where d: "(d, d') \<in> set pre" "s \<in> set (ad_sessions d')" using r sa \<open>s = s'\<close> by blast
  have "auth_rely (ae_token env) d' e" using sorted_own_later assms(2) ts d(1) e(1) by blast
  moreover have "(d, d') \<in> set ts" "(e, e') \<in> set ts" using d(1) e(1) ts by simp_all
  ultimately show ?thesis using r sa \<open>s = s'\<close> \<open>a = a'\<close> d(2) del by blast
qed

text \<open>
  C11. A password change ends the other sessions: of the sessions the account had before, the one that
  made the change is the only one left, whatever runs at the same time. (Sessions opened
  meanwhile are another matter, see below.)
\<close>

theorem password_change_ends_sessions:
  assumes "auth_ok db" and "steps (List.map (serve_auth env) calls) db ts qs db'"
    and "i < length calls" "calls ! i = ChangeCall token old new req ip" "qs ! i = Done (Inr (SessionReply s a))"
    and "\<forall>r \<in> set (ad_sessions db). as_token_hash r \<notin> ae_token env ` set (ad_entropy db)"
  shows "\<forall>r \<in> set (ad_sessions db'). as_account r = aa_id a \<and> as_token_hash r \<in> as_token_hash ` set (ad_sessions db)
    \<longrightarrow> as_token_hash r = ae_token env token"
proof (intro ballI impI, elim conjE)
  fix r assume r: "r \<in> set (ad_sessions db')" "as_account r = aa_id a" and "as_token_hash r \<in> as_token_hash ` set (ad_sessions db)"
  have safe: "\<forall>p \<in> set (List.map (serve_auth env) calls). safe_auth (ae_token env) p" using safe_serve_auth by auto
  note all = auth.steps_safe [OF assms(2,1) safe]
  have old: "as_token_hash r \<notin> ae_token env ` set (ad_entropy db)" using assms(6) \<open>as_token_hash r \<in> _\<close> by (metis imageE)
  have fresh: "as_token_hash r \<notin> ae_token env ` set (ad_entropy x)" if "auth_rely (ae_token env) db x" for x
    by (rule entropy_later [OF old that])
  have "outcome (ChangePassword env token old new req ip) (own i ts) (Inr (SessionReply s a))"
    using steps_outcome [OF assms(2), of i] assms(3-5) by simp
  from ChangePassword_removes [OF this auth.steps_own(1) [OF assms(2,1) safe]]
  obtain d d' e e' where x: "as_token_hash s = ae_token env token" and d: "(i, d, d') \<in> set ts" "s \<in> set (ad_sessions d')"
    and e: "(i, e, e') \<in> set ts" "auth_rely (ae_token env) d' e"
      "\<forall>r \<in> set (ad_sessions e'). r \<in> set (ad_sessions e) \<and> (as_account r \<noteq> aa_id a \<or> as_id r = as_id s)"
    unfolding set_own by blast
  have at: "auth_rely (ae_token env) db a \<and> auth_rely (ae_token env) a b \<and> auth_rely (ae_token env) b db' \<and> auth_ok b"
    if "(i, a, b) \<in> set ts" for a b using all that by blast
  have rel: "auth_rely (ae_token env) e' db'" "auth_ok d'" using at [OF e(1)] at [OF d(1)] by auto
  have since: "auth_rely (ae_token env) db e'" "auth_rely (ae_token env) db d'"
    using auth_rely_trans [of _ db e e'] auth_rely_trans [of _ db d d'] at [OF e(1)] at [OF d(1)] by auto
  obtain q where q: "q \<in> set (ad_sessions e')" "same_session q r"
    using auth_rely_found [OF rel(1) r(1) fresh [OF since(1)]] by blast
  note k = same_session_keys [OF q(2)]
  have "q \<in> set (ad_sessions e)" "as_id q = as_id s" using e(3) q(1) k(3) r(2) by auto
  then show "as_token_hash r = ae_token env token"
    using found_later [OF rel(2) d(2) e(2)] fresh [OF since(2)] k(2) x by simp
qed

section \<open>What a login takes\<close>

lemma named_cases: "GetAccountByUsername n d = (Inr a, d') \<Longrightarrow> a \<in> set (ad_accounts d') \<and> toLower (aa_username a) = toLower n"
  unfolding GetAccountByUsername_def
  by (erule asql_cases) (auto simp: first_or_missing_def filter_eq_Cons_iff split: list.splits)

lemma mint_cases:
  assumes "mint_session env i t a d = (Inr (token, csrf), d')"
  shows "\<exists>s \<in> set (ad_sessions d'). as_account s = a \<and> as_token_hash s = ae_token env token \<and> as_csrf s = csrf
    \<and> as_expires_at s = t + op_session_ttl (ae_options env)"
proof -
  have new: "s \<in> set (ad_sessions y)" if "CreateSession s x = (Inr u, y)" for s x y u
    using that [unfolded CreateSession_def] by (cases rule: asql_cases) (auto split: if_splits)
  show ?thesis
    using assms unfolding mint_session_def
    by (auto split: prod.splits option.splits sum.splits dest!: new intro: rev_bexI)
qed

lemma outcome_limiter: "outcome (limiter g k) ts b \<Longrightarrow> \<exists>p us. ts = p # us \<and> outcome k us b"
  by (auto simp: limiter_def outcome_step_then)

lemma login_fail_refuses: "outcome (login_fail o1 i t why a) ts b \<Longrightarrow> b = Inl InvalidCredentials"
  unfolding login_fail_def auditLogin_def
  by (auto simp: Let_def dest!: outcome_limiter outcome_ignoring split: option.splits)

lemma try_password_opens:
  assumes "outcome (try_password env i t a) ts (Inr (LoginReply token csrf b e))"
  shows "ae_verify env (li_password i) (aa_hash a) \<and> b = a \<and> e = t + op_session_ttl (ae_options env) \<and>
    (\<exists>x \<in> set ts. \<exists>s \<in> set (ad_sessions (snd x)). as_account s = aa_id a \<and> as_token_hash s = ae_token env token \<and> as_csrf s = csrf
       \<and> as_expires_at s = e)"
proof -
  have v: "ae_verify env (li_password i) (aa_hash a)"
    using assms login_fail_refuses by (fastforce simp: try_password_def split: if_splits)
  then have "outcome (open_session env i t a) ts (Inr (LoginReply token csrf b e))"
    using assms by (simp add: try_password_def)
  from outcome_limiter [OF this [unfolded open_session_def]]
  obtain x us where o1: "outcome (step_then (ResetFailures (aa_id a) t) (\<lambda>r. case r of
      Inl _ \<Rightarrow> Done (Inl AuthInternal)
    | Inr _ \<Rightarrow> step_then (mint_session env i t (aa_id a)) (\<lambda>r. case r of
        Inl e \<Rightarrow> Done (Inl e)
      | Inr (token, csrf) \<Rightarrow> ignoring (DeleteExpiredSessions t)
          (auditLogin i ''success'' []
            (Done (Inr (LoginReply token csrf a (t + op_session_ttl (ae_options env))))))))) us (Inr (LoginReply token csrf b e))"
    and ts: "ts = x # us"
    by blast
  from o1 obtain d d' vs where vs: "outcome (step_then (mint_session env i t (aa_id a)) (\<lambda>r. case r of
        Inl e \<Rightarrow> Done (Inl e)
      | Inr (token, csrf) \<Rightarrow> ignoring (DeleteExpiredSessions t)
          (auditLogin i ''success'' []
            (Done (Inr (LoginReply token csrf a (t + op_session_ttl (ae_options env)))))))) vs (Inr (LoginReply token csrf b e))"
    and us: "us = (d, d') # vs"
    unfolding outcome_needs_statement by blast
  from vs obtain f r f' ws where f: "mint_session env i t (aa_id a) f = (r, f')" "vs = (f, f') # ws"
    and o3: "outcome (case r of
        Inl e \<Rightarrow> Done (Inl e)
      | Inr (token, csrf) \<Rightarrow> ignoring (DeleteExpiredSessions t)
          (auditLogin i ''success'' []
            (Done (Inr (LoginReply token csrf a (t + op_session_ttl (ae_options env))))))) ws (Inr (LoginReply token csrf b e))"
    unfolding outcome_step_then by blast
  have "r = Inr (token, csrf) \<and> b = a \<and> e = t + op_session_ttl (ae_options env)"
    using o3 by (cases r) (auto simp: auditLogin_def dest!: outcome_ignoring)
  then show ?thesis using v mint_cases [of env i t "aa_id a" f token csrf f'] f ts us by auto
qed

lemma known_opens:
  assumes "outcome (login_known env i t a) ts (Inr (LoginReply token csrf b e))"
  shows "\<not> after_now (aa_locked_until a) t \<and> ae_verify env (li_password i) (aa_hash a) \<and> aa_id b = aa_id a
    \<and> e = t + op_session_ttl (ae_options env) \<and>
    (\<exists>x \<in> set ts. \<exists>s \<in> set (ad_sessions (snd x)). as_account s = aa_id a \<and> as_token_hash s = ae_token env token \<and> as_csrf s = csrf
       \<and> as_expires_at s = e)"
proof -
  have open1: "\<not> after_now (aa_locked_until a) t" using assms login_fail_refuses by (fastforce simp: login_known_def split: if_splits)
  show ?thesis
  proof (cases "aa_locked_until a = None")
    case True
    then have "outcome (try_password env i t a) ts (Inr (LoginReply token csrf b e))"
      using assms open1 by (simp add: login_known_def)
    from try_password_opens [OF this] show ?thesis using open1 by blast
  next
    case False
    then obtain y xs where "ts = y # xs"
      and "outcome (try_password env i t (a\<lparr>aa_failed := 0, aa_locked_until := None\<rparr>)) xs (Inr (LoginReply token csrf b e))"
      using assms open1 by (auto simp: login_known_def outcome_needs_statement)
    from this(1) try_password_opens [OF this(2)] show ?thesis using open1 by auto
  qed
qed

lemma outcome_view:
  "outcome (step_then (\<lambda>d. (g d, d)) k) ts b \<longleftrightarrow> (\<exists>d us. ts = (d, d) # us \<and> outcome (k (g d)) us b)"
  unfolding outcome_step_then by auto

lemma Login_opens:
  assumes "outcome (Login env i) ts (Inr (LoginReply token csrf b e))"
  shows "\<exists>d d1 d2 d2' a. (d, d) \<in> set ts \<and> (d1, d1) \<in> set ts \<and> (d2, d2') \<in> set ts
    \<and> \<not> blocked (li_source_ip i) (ad_clock d) (ad_ips d1)
    \<and> a \<in> set (ad_accounts d2') \<and> toLower (aa_username a) = toLower (li_username i)
    \<and> \<not> after_now (aa_locked_until a) (ad_clock d) \<and> ae_verify env (li_password i) (aa_hash a)
    \<and> aa_id b = aa_id a \<and> e = ad_clock d + op_session_ttl (ae_options env)
    \<and> (\<exists>x \<in> set ts. \<exists>s \<in> set (ad_sessions (snd x)). as_account s = aa_id a \<and> as_token_hash s = ae_token env token
       \<and> as_csrf s = csrf \<and> as_expires_at s = e)"
proof -
  let ?k = "\<lambda>t r. case r of
         Inl NotFound \<Rightarrow> login_fail (ae_options env) i t ''unknown account'' None
       | Inl _ \<Rightarrow> Done (Inl AuthInternal)
       | Inr a \<Rightarrow> login_known env i t a"
  obtain d us d1 vs where ts: "ts = (d, d) # us" "us = (d1, d1) # vs"
    and o1: "outcome (if blocked (li_source_ip i) (ad_clock d) (ad_ips d1) then auditLogin i ''failure'' ''ip blocked'' (Done (Inl IPBlocked))
       else step_then (GetAccountByUsername (li_username i)) (?k (ad_clock d))) vs (Inr (LoginReply token csrf b e))"
    using assms unfolding Login_def outcome_at_clock outcome_view by blast
  have free: "\<not> blocked (li_source_ip i) (ad_clock d) (ad_ips d1)"
    using o1 by (auto simp: auditLogin_def dest!: outcome_ignoring)
  then obtain d2 r d2' ws where vs: "vs = (d2, d2') # ws" and r: "GetAccountByUsername (li_username i) d2 = (r, d2')"
    and o2: "outcome (?k (ad_clock d) r) ws (Inr (LoginReply token csrf b e))"
    using o1 [unfolded if_not_P [OF free] outcome_step_then] by blast
  obtain a where a: "r = Inr a" using o2 login_fail_refuses by (cases r) (fastforce split: store_error.splits)+
  have "outcome (login_known env i (ad_clock d) a) ws (Inr (LoginReply token csrf b e))" using o2 a by simp
  note opens = known_opens [OF this] and found = named_cases [OF r [unfolded a]]
  have "(d, d) \<in> set ts" "(d1, d1) \<in> set ts" "(d2, d2') \<in> set ts" "set ws \<subseteq> set ts" using ts vs by auto
  then show ?thesis using opens free found by blast
qed

text \<open>
  C9. A login opens a session only for the right password of an account whose lockout is not open,
  from an address that is not blocked, whatever else runs: each of the three was so at a step
  of the call, and the session it reports is in the store, with its expiry.
\<close>

theorem login_admits_only:
  assumes "steps (List.map (serve_auth env) calls) db ts qs db'"
    and "i < length calls" "calls ! i = LoginCall x" "qs ! i = Done (Inr (LoginReply token csrf b e))"
  shows "\<exists>d d1 d2 d2' a. (i, d, d) \<in> set ts \<and> (i, d1, d1) \<in> set ts \<and> (i, d2, d2') \<in> set ts
    \<and> \<not> blocked (li_source_ip x) (ad_clock d) (ad_ips d1)
    \<and> a \<in> set (ad_accounts d2') \<and> toLower (aa_username a) = toLower (li_username x)
    \<and> \<not> after_now (aa_locked_until a) (ad_clock d) \<and> ae_verify env (li_password x) (aa_hash a)
    \<and> aa_id b = aa_id a \<and> e = ad_clock d + op_session_ttl (ae_options env)
    \<and> (\<exists>d3 d3'. (i, d3, d3') \<in> set ts \<and> (\<exists>s \<in> set (ad_sessions d3'). as_account s = aa_id a
       \<and> as_token_hash s = ae_token env token \<and> as_csrf s = csrf \<and> as_expires_at s = e))"
proof -
  have "outcome (Login env x) (own i ts) (Inr (LoginReply token csrf b e))"
    using steps_outcome [OF assms(1), of i] assms(2-4) by simp
  from Login_opens [OF this] show ?thesis unfolding set_own Bex_def by (metis prod.collapse set_own)
qed

section \<open>Guesses at the same time\<close>

inductive moves :: "('s, 'a) prog \<Rightarrow> 's \<Rightarrow> ('s, 'a) prog \<Rightarrow> 's \<Rightarrow> bool" where
  \<comment> \<open>some steps of one call\<close>
  Rest: "moves p s p s"
| Move: "f s = (p, s') \<Longrightarrow> moves p s' q u \<Longrightarrow> moves (Atomic f) s q u"

lemma moves_step_then: "f s = (a, s') \<Longrightarrow> moves (k a) s' q u \<Longrightarrow> moves (step_then f k) s q u"
  unfolding step_then_def by (rule moves.Move) simp_all

lemma steps_trans: "steps ps s ts qs u \<Longrightarrow> steps qs u us rs v \<Longrightarrow> steps ps s (ts @ us) rs v"
  by (induction rule: steps.induct) (auto intro: steps.Step)

lemma steps_moves:
  "moves p s q u \<Longrightarrow> i < length ps \<Longrightarrow> ps ! i = p \<Longrightarrow> \<exists>ts. steps ps s ts (ps[i := q]) u"
proof (induction arbitrary: ps rule: moves.induct)
  case (Rest p s)
  then have "ps[i := p] = ps" by auto
  then show ?case by (metis steps.Stop)
next
  case (Move f s p s' q u)
  obtain ts where "steps (ps[i := p]) s' ts (ps[i := p, i := q]) u"
    using Move.IH [of "ps[i := p]"] Move.prems(1) by auto
  then show ?case using steps.Step [OF Move.prems(1,2) Move.hyps(1)] by auto
qed

text \<open>Calls that can each move on from where the one before came to can move in turn.\<close>

lemma steps_in_turn:
  assumes "length qs = length ps" "Q 0 s"
    and "\<And>i s. i < length ps \<Longrightarrow> Q i s \<Longrightarrow> \<exists>u. moves (ps ! i) s (qs ! i) u \<and> Q (Suc i) u"
  shows "\<exists>ts u. steps ps s ts qs u \<and> Q (length ps) u"
proof -
  have "k \<le> length ps \<Longrightarrow> \<exists>ts u. steps ps s ts (take k qs @ drop k ps) u \<and> Q k u" for k
  proof (induction k)
    case 0
    then show ?case using assms(2) by (auto intro: steps.Stop)
  next
    case (Suc k)
    then obtain ts u where u: "steps ps s ts (take k qs @ drop k ps) u" "Q k u" by auto
    have k: "k < length ps" "(take k qs @ drop k ps) ! k = ps ! k" "k < length (take k qs @ drop k ps)"
      and next1: "(take k qs @ drop k ps)[k := qs ! k] = take (Suc k) qs @ drop (Suc k) ps"
      using Suc.prems assms(1) by (simp_all add: nth_append list_update_append take_Suc_conv_app_nth Cons_nth_drop_Suc [symmetric])
    obtain v where v: "moves (ps ! k) u (qs ! k) v" "Q (Suc k) v" using assms(3) [OF k(1) u(2)] by blast
    from steps_moves [OF v(1) k(3,2)] show ?case using steps_trans [OF u(1)] v(2) next1 by metis
  qed
  from this [of "length ps"] show ?thesis using assms(1) by simp
qed

lemma asql_ok: "ad_faults d = [] \<Longrightarrow> asql f d = f d"
  by (simp add: asql_def)

lemma wrong_guess_reads:
  assumes "ad_faults d = []" "filter (\<lambda>b. toLower (aa_username b) = toLower (li_username x)) (ad_accounts d) = [a]"
    and "\<not> blocked (li_source_ip x) (ad_clock d) (ad_ips d)" "aa_locked_until a = None" "\<not> ae_verify env (li_password x) (aa_hash a)"
  shows "moves (Login env x) d (login_fail (ae_options env) x (ad_clock d) ''bad password'' (Some a)) d"
  unfolding Login_def at_clock_def
  by (rule moves_step_then, rule refl)+
    (use assms in \<open>auto intro!: moves_step_then moves.Rest simp: GetAccountByUsername_def asql_ok first_or_missing_def
       login_known_def after_now_def try_password_def\<close>)

definition one_more :: "admin_account \<Rightarrow> instant \<Rightarrow> admin_account" where
  "one_more a t = a\<lparr>aa_failed := aa_failed a + 1, aa_updated_at := t\<rparr>"

definition refusals :: "audit_row list \<Rightarrow> (string \<times> string \<times> string \<times> string) list" where
  "refusals rows = List.map (\<lambda>r. (ar_action r, ar_source_ip r, ar_result r, ar_detail r)) rows"

definition refusal :: "string \<Rightarrow> login_input \<Rightarrow> string \<times> string \<times> string \<times> string" where
  "refusal why x = (''admin.login'', li_source_ip x, ''failure'', why)"

lemma audit_refusal:
  assumes "ad_faults d = []"
  shows "\<exists>d'. auth_audit (li_username x) ''admin.login'' (li_username x) (li_request_id x) (li_source_ip x) (li_user_agent x)
      ''failure'' ''bad password'' d = (Inr (), d') \<and> ad_faults d' = [] \<and> ad_accounts d' = ad_accounts d \<and> ad_clock d' = ad_clock d
      \<and> ad_ips d' = ad_ips d \<and> refusals (ad_audit d') = refusals (ad_audit d) @ [refusal ''bad password'' x]"
  using assms by (simp add: auth_audit_def asql_ok refusals_def refusal_def UserStore.truncate_def)

lemma wrong_guess_fails:
  assumes "ad_faults d = []" "aa_failed a + 1 < op_max_failures o1" "aa_locked_until a = None"
    and "aa_id a \<in> aa_id ` set (ad_accounts d)" "\<forall>b \<in> set (ad_accounts d). aa_id b = aa_id a \<longrightarrow> b = a \<or> b = one_more a t"
  shows "\<exists>u. moves (login_fail o1 x t ''bad password'' (Some a)) d (Done (Inl InvalidCredentials)) u \<and> ad_faults u = []
    \<and> aa_id a \<in> aa_id ` set (ad_accounts u) \<and> (\<forall>b \<in> set (ad_accounts u). aa_id b = aa_id a \<longrightarrow> b = one_more a t)
    \<and> refusals (ad_audit u) = refusals (ad_audit d) @ [refusal ''bad password'' x]"
proof -
  let ?d1 = "d\<lparr>ad_ips := recordFailure o1 (li_source_ip x) t (ad_ips d)\<rparr>"
  let ?d2 = "?d1\<lparr>ad_accounts := List.map (\<lambda>b. if aa_id b = aa_id a
      then b\<lparr>aa_failed := aa_failed a + 1, aa_locked_until := None, aa_updated_at := t\<rparr> else b) (ad_accounts d)\<rparr>"
  have d2: "RecordLoginFailure (aa_id a) (aa_failed a + 1) None t ?d1 = (Inr (), ?d2)"
    using assms(1,4) by (simp add: RecordLoginFailure_def update_account_def asql_ok)
  have "List.map aa_id (ad_accounts ?d2) = List.map aa_id (ad_accounts d)" by simp
  then have here: "aa_id a \<in> aa_id ` set (ad_accounts ?d2)" using assms(4) by (metis set_map)
  have rows: "b = one_more a t" if b: "b \<in> set (ad_accounts ?d2)" "aa_id b = aa_id a" for b
  proof -
    obtain c where c: "c \<in> set (ad_accounts d)" and bc: "b = (if aa_id c = aa_id a
        then c\<lparr>aa_failed := aa_failed a + 1, aa_locked_until := None, aa_updated_at := t\<rparr> else c)" using b(1) by auto
    have "aa_id c = aa_id a" using bc b(2) by (simp split: if_splits)
    then have "b = c\<lparr>aa_failed := aa_failed a + 1, aa_locked_until := None, aa_updated_at := t\<rparr>" "c = a \<or> c = one_more a t"
      using bc assms(5) c by simp_all
    then show ?thesis using assms(3) by (cases a) (auto simp: one_more_def)
  qed
  have free: "ad_faults ?d2 = []" using assms(1) by simp
  obtain d3 where d3: "auth_audit (li_username x) ''admin.login'' (li_username x) (li_request_id x) (li_source_ip x)
      (li_user_agent x) ''failure'' ''bad password'' ?d2 = (Inr (), d3)" "ad_faults d3 = []" "ad_accounts d3 = ad_accounts ?d2"
      "refusals (ad_audit d3) = refusals (ad_audit ?d2) @ [refusal ''bad password'' x]"
    using audit_refusal [OF free, of x] by blast
  have same: "ad_audit ?d2 = ad_audit d" by simp
  have "moves (login_fail o1 x t ''bad password'' (Some a)) d (Done (Inl InvalidCredentials)) d3"
    unfolding login_fail_def limiter_def
    by (rule moves_step_then, rule refl)
      (use assms(2) d2 d3(1) in \<open>auto intro!: moves_step_then moves.Rest simp: Let_def ignoring_def auditLogin_def\<close>)
  then show ?thesis using d3(2,4) here rows unfolding d3(3) [symmetric] same by blast
qed

text \<open>
  C19. Guesses that run at the same time count once. However many wrong passwords are tried for an
  account that is open and that one more failure would not lock, there is an order of their
  statements in which every one of them is checked against the password, refused and audited as a
  bad password, and the account has exactly one failure more and no lockout: each attempt writes
  back the count it read plus one.
\<close>

theorem parallel_guesses_count_once:
  assumes "ad_faults db = []" "aa_locked_until a = None" "aa_failed a + 1 < op_max_failures (ae_options env)" "guesses \<noteq> []"
    and "\<forall>b \<in> set (ad_accounts db). aa_id b = aa_id a \<longrightarrow> b = a"
    and "\<forall>x \<in> set guesses. filter (\<lambda>b. toLower (aa_username b) = toLower (li_username x)) (ad_accounts db) = [a]
      \<and> \<not> ae_verify env (li_password x) (aa_hash a) \<and> \<not> blocked (li_source_ip x) (ad_clock db) (ad_ips db)"
  shows "\<exists>ts db'. steps (List.map (\<lambda>x. serve_auth env (LoginCall x)) guesses) db ts
      (replicate (length guesses) (Done (Inl InvalidCredentials))) db'
    \<and> aa_id a \<in> aa_id ` set (ad_accounts db')
    \<and> (\<forall>b \<in> set (ad_accounts db'). aa_id b = aa_id a \<longrightarrow> b = a\<lparr>aa_failed := aa_failed a + 1, aa_updated_at := ad_clock db\<rparr>)
    \<and> refusals (ad_audit db') = refusals (ad_audit db) @ List.map (refusal ''bad password'') guesses"
proof -
  let ?fail = "\<lambda>x. login_fail (ae_options env) x (ad_clock db) ''bad password'' (Some a)"
  let ?Q = "\<lambda>k d. ad_faults d = [] \<and> aa_id a \<in> aa_id ` set (ad_accounts d)
    \<and> (\<forall>b \<in> set (ad_accounts d). aa_id b = aa_id a \<longrightarrow> k = 0 \<and> b = a \<or> 0 < k \<and> b = one_more a (ad_clock db))
    \<and> refusals (ad_audit d) = refusals (ad_audit db) @ List.map (refusal ''bad password'') (take k guesses)"
  have "\<exists>ts u. steps (List.map (Login env) guesses) db ts (List.map ?fail guesses) u \<and> u = db"
    by (rule steps_in_turn [where Q = "\<lambda>_ u. u = db"]) (use assms(1,2,6) wrong_guess_reads in auto)
  then obtain ts where read: "steps (List.map (Login env) guesses) db ts (List.map ?fail guesses) db" by blast
  have "a \<in> set (ad_accounts db)"
    using assms(4,6) by (cases guesses) (auto dest!: arg_cong [of _ _ set])
  then have start: "?Q 0 db" using assms(1,5) by auto
  have step: "\<exists>u. moves (List.map ?fail guesses ! i) d (replicate (length guesses) (Done (Inl InvalidCredentials)) ! i) u \<and> ?Q (Suc i) u"
    if "i < length (List.map ?fail guesses)" "?Q i d" for i d
    using wrong_guess_fails [of d a "ae_options env" "ad_clock db" "guesses ! i"] that assms(2,3) by (auto simp: take_Suc_conv_app_nth)
  have "\<exists>us u. steps (List.map ?fail guesses) db us (replicate (length guesses) (Done (Inl InvalidCredentials))) u
      \<and> ?Q (length (List.map ?fail guesses)) u"
    by (rule steps_in_turn [where Q = ?Q, OF _ start step]) simp_all
  then obtain us u where u: "steps (List.map ?fail guesses) db us (replicate (length guesses) (Done (Inl InvalidCredentials))) u"
    "?Q (length guesses) u"
    unfolding length_map by blast
  have "steps (List.map (\<lambda>x. serve_auth env (LoginCall x)) guesses) db (ts @ us)
      (replicate (length guesses) (Done (Inl InvalidCredentials))) u"
    using steps_trans [OF read u(1)] by simp
  then show ?thesis using u(2) assms(4) unfolding one_more_def by auto
qed

section \<open>A login and a password change at the same time\<close>

lemma moves_run: "moves p d (Done (fst (run p d))) (snd (run p d))"
proof (induction p arbitrary: d)
  case (Done a)
  then show ?case by (simp add: moves.Rest)
next
  case (Atomic f)
  obtain q d' where q: "f d = (q, d')" by fastforce
  have "moves q d' (Done (fst (run q d'))) (snd (run q d'))" using Atomic.IH [of "f d" q d'] q rangeI [of f d] by auto
  then show ?case using q by (auto intro: moves.Move)
qed

lemma run_parts [simp]:
  "run (at_clock k) d = run (k (ad_clock d)) d"
  "run (limiter g k2) d = run k2 (d\<lparr>ad_ips := g (ad_ips d)\<rparr>)"
  "run (ignoring m k2) d = run k2 (snd (m d))"
  by (simp_all add: at_clock_def limiter_def ignoring_def split: prod.splits)

lemma right_password_reads:
  assumes "ad_faults d = []" "filter (\<lambda>b. toLower (aa_username b) = toLower (li_username x)) (ad_accounts d) = [a]"
    and "\<not> blocked (li_source_ip x) (ad_clock d) (ad_ips d)" "aa_locked_until a = None" "ae_verify env (li_password x) (aa_hash a)"
  shows "moves (Login env x) d (open_session env x (ad_clock d) a) d"
  unfolding Login_def at_clock_def
  by (rule moves_step_then, rule refl)+
    (use assms in \<open>auto intro!: moves_step_then moves.Rest simp: GetAccountByUsername_def asql_ok first_or_missing_def
       login_known_def after_now_def try_password_def\<close>)

lemma change_password_run:
  assumes "ad_faults d = []" "filter (\<lambda>r. as_token_hash r = ae_token env token) (ad_sessions d) = [s]"
    and "session_live (ae_options env) (ad_clock d) s" "filter (\<lambda>b. aa_id b = as_account s) (ad_accounts d) = [a]" "ae_verify env old (aa_hash a)"
    and "ValidatePasswordPolicy new (aa_username a)" "ae_hash env new = Some h"
  shows "\<exists>u. run (ChangePassword env token old new req ip) d = (Inr (SessionReply s a), u) \<and> ad_faults u = [] \<and> ad_clock u = ad_clock d
    \<and> ad_entropy u = ad_entropy d \<and> ad_ips u = ad_ips d
    \<and> ad_accounts u = List.map (\<lambda>b. if aa_id b = aa_id a
        then b\<lparr>aa_hash := h, aa_updated_at := ad_clock d, aa_failed := 0, aa_locked_until := None\<rparr> else b) (ad_accounts d)
    \<and> (\<forall>r \<in> set (ad_sessions u). \<exists>q \<in> set (ad_sessions d). as_id r = as_id q \<and> as_token_hash r = as_token_hash q)"
proof -
  have "a \<in> set (ad_accounts d)" "aa_id a = as_account s" using assms(4) by (auto simp: filter_eq_Cons_iff)
  moreover from this have "as_account s \<in> aa_id ` set (ad_accounts d)" by force
  ultimately show ?thesis
    using assms by (auto simp: ChangePassword_def with_valid_session_def GetSessionByTokenHash_def GetAccountByID_def TouchSession_def
      UpdatePassword_def update_account_def DeleteSessionsForAccount_def delete_sessions_def auth_audit_def asql_ok first_or_missing_def) metis+
qed

lemma open_session_run:
  assumes "ad_faults d = []" "aa_id a \<in> aa_id ` set (ad_accounts d)" "ad_entropy d = t1 # t2 # t3 # ts"
    and "\<forall>r \<in> set (ad_sessions d). as_id r \<noteq> t3 \<and> as_token_hash r \<noteq> ae_token env t1" "sql_time_le t (t + op_session_ttl (ae_options env))"
  shows "\<exists>u. run (open_session env x t a) d = (Inr (LoginReply t1 t2 a (t + op_session_ttl (ae_options env))), u) \<and> ad_clock u = ad_clock d
    \<and> ad_accounts u = List.map (\<lambda>b. if aa_id b = aa_id a then b\<lparr>aa_failed := 0, aa_locked_until := None, aa_updated_at := t\<rparr> else b) (ad_accounts d)
    \<and> (\<exists>r \<in> set (ad_sessions u). as_account r = aa_id a \<and> as_token_hash r = ae_token env t1 \<and> as_last_seen r = t
        \<and> as_expires_at r = t + op_session_ttl (ae_options env))"
  using assms by (auto simp: open_session_def auditLogin_def ResetFailures_def update_account_def mint_session_def draw_def CreateSession_def
    DeleteExpiredSessions_def delete_sessions_def auth_audit_def asql_ok image_iff)
    (rule bexI [rotated, OF UnI1 [OF imageI]], rule IntI, assumption, simp_all)

text \<open>
  C20. A login can outlive the password it used. Take any store, an account that is open, a login
  with its password and, at the same time, a change of that password in a live session. There
  is an order of their statements in which both succeed and, after the change, which is meant
  to end every other session, the account has the new password and a live session that
  was opened with the old one.
\<close>

theorem login_outlives_password_change:
  assumes "ad_faults db = []" and "filter (\<lambda>b. toLower (aa_username b) = toLower (li_username x)) (ad_accounts db) = [a]"
    and "filter (\<lambda>b. aa_id b = aa_id a) (ad_accounts db) = [a]" "aa_locked_until a = None"
    and "\<not> blocked (li_source_ip x) (ad_clock db) (ad_ips db)" "ae_verify env (li_password x) (aa_hash a)"
    and "filter (\<lambda>r. as_token_hash r = ae_token env token) (ad_sessions db) = [s]" "as_account s = aa_id a"
    and "session_live (ae_options env) (ad_clock db) s" "ValidatePasswordPolicy new (aa_username a)" "ae_hash env new = Some h"
    and "ad_entropy db = t1 # t2 # t3 # ts" "\<forall>r \<in> set (ad_sessions db). as_id r \<noteq> t3 \<and> as_token_hash r \<noteq> ae_token env t1"
    and "0 \<le> op_idle_timeout (ae_options env)" "10 ^ 9 \<le> op_session_ttl (ae_options env)"
    and "in_years (ad_clock db div 10 ^ 9)" "in_years ((ad_clock db + op_session_ttl (ae_options env)) div 10 ^ 9)"
  shows "\<exists>us db'. steps (List.map (serve_auth env) [LoginCall x, ChangeCall token (li_password x) new req ip]) db us
      [Done (Inr (LoginReply t1 t2 a (ad_clock db + op_session_ttl (ae_options env)))), Done (Inr (SessionReply s a))] db'
    \<and> (\<forall>b \<in> set (ad_accounts db'). aa_id b = aa_id a \<longrightarrow> aa_hash b = h)
    \<and> (\<exists>r \<in> set (ad_sessions db'). as_account r = aa_id a \<and> as_token_hash r = ae_token env t1
         \<and> as_token_hash r \<noteq> as_token_hash s \<and> session_live (ae_options env) (ad_clock db') r)"
proof -
  let ?e = "ad_clock db + op_session_ttl (ae_options env)"
  let ?change = "ChangePassword env token (li_password x) new req ip"
  have le: "sql_time_le (ad_clock db) ?e"
    using sql_time_le_seconds(1) [OF assms(16,17)] assms(15) by (simp add: div_less_iff_less_mult [symmetric])
  have here: "aa_id a \<in> aa_id ` set (ad_accounts db)" using assms(3) by (force simp: filter_eq_Cons_iff)
  have s: "s \<in> set (ad_sessions db)" using assms(7) by (force simp: filter_eq_Cons_iff)
  obtain u where run1: "run ?change db = (Inr (SessionReply s a), u)" and u: "ad_faults u = []" "ad_clock u = ad_clock db"
      "ad_entropy u = ad_entropy db"
      "ad_accounts u = List.map (\<lambda>b. if aa_id b = aa_id a
        then b\<lparr>aa_hash := h, aa_updated_at := ad_clock db, aa_failed := 0, aa_locked_until := None\<rparr> else b) (ad_accounts db)"
      "\<forall>r \<in> set (ad_sessions u). \<exists>q \<in> set (ad_sessions db). as_id r = as_id q \<and> as_token_hash r = as_token_hash q"
    using change_password_run [OF assms(1,7,9) assms(3) [folded assms(8)] assms(6,10,11), of req ip] by blast
  have "List.map aa_id (ad_accounts u) = List.map aa_id (ad_accounts db)" by (simp add: u(4))
  then have known: "aa_id a \<in> aa_id ` set (ad_accounts u)" using here by (metis set_map)
  have new1: "\<forall>r \<in> set (ad_sessions u). as_id r \<noteq> t3 \<and> as_token_hash r \<noteq> ae_token env t1" using u(5) assms(13) by metis
  have drawn: "ad_entropy u = t1 # t2 # t3 # ts" using u(3) assms(12) by simp
  from open_session_run [OF u(1) known drawn new1 le, of x] obtain v r where run2: "run (open_session env x (ad_clock db) a) u = (Inr (LoginReply t1 t2 a ?e), v)" and v: "ad_clock v = ad_clock u"
      "ad_accounts v = List.map (\<lambda>b. if aa_id b = aa_id a then b\<lparr>aa_failed := 0, aa_locked_until := None, aa_updated_at := ad_clock db\<rparr> else b) (ad_accounts u)"
      and r: "r \<in> set (ad_sessions v)" "as_account r = aa_id a" "as_token_hash r = ae_token env t1" "as_last_seen r = ad_clock db" "as_expires_at r = ?e"
    by blast
  let ?ps = "[Login env x, ?change]"
  obtain us1 where s1: "steps ?ps db us1 [open_session env x (ad_clock db) a, ?change] db"
    using steps_moves [OF right_password_reads [OF assms(1,2,5,4,6)], of 0 ?ps] by auto
  obtain us2 where s2: "steps [open_session env x (ad_clock db) a, ?change] db us2 [open_session env x (ad_clock db) a, Done (Inr (SessionReply s a))] u"
    using steps_moves [OF moves_run [of ?change db], of 1 "[open_session env x (ad_clock db) a, ?change]"] run1 by auto
  obtain us3 where s3: "steps [open_session env x (ad_clock db) a, Done (Inr (SessionReply s a))] u us3
      [Done (Inr (LoginReply t1 t2 a ?e)), Done (Inr (SessionReply s a))] v"
    using steps_moves [OF moves_run [of "open_session env x (ad_clock db) a" u], of 0 "[open_session env x (ad_clock db) a, Done (Inr (SessionReply s a))]"] run2
    by auto
  have "session_live (ae_options env) (ad_clock v) r"
    using assms(14,15) r(4,5) v(1) u(2) by (simp add: session_live_def)
  moreover have "\<forall>b \<in> set (ad_accounts v). aa_id b = aa_id a \<longrightarrow> aa_hash b = h" by (auto simp: v(2) u(4))
  moreover have "as_token_hash r \<noteq> as_token_hash s" using r(3) assms(13) s by metis
  ultimately show ?thesis
    using steps_trans [OF steps_trans [OF s1 s2] s3] r(1-3) unfolding serve_auth.simps list.map by blast
qed

section \<open>Guesses one after the other\<close>











section \<open>A console with one administrator\<close>

definition keeper_env :: auth_env where
  \<comment> \<open>a password is its own hash here\<close>
  "keeper_env = \<lparr>ae_verify = (\<lambda>p h. p = h), ae_hash = Some, ae_token = (\<lambda>t. CHR ''#'' # t),
     ae_options = applyDefaults \<lparr>op_session_ttl = 0, op_idle_timeout = 0, op_max_failures = 0, op_lockout = 0,
       op_ip_max_failures = 0, op_ip_window = 0, op_ip_lockout = 0\<rparr>\<rparr>"

definition keeper :: admin_account where
  "keeper = \<lparr>aa_id = 1, aa_username = ''keeper'', aa_hash = ''old enough to change'', aa_failed = 0, aa_locked_until = None,
     aa_created_at = 0, aa_updated_at = 0\<rparr>"

definition keeper_session :: "string \<Rightarrow> string \<Rightarrow> admin_session" where
  "keeper_session i t = \<lparr>as_id = i, as_account = 1, as_token_hash = CHR ''#'' # t, as_csrf = ''c'', as_created_at = 0,
     as_expires_at = minutes 600, as_last_seen = 0, as_source_ip = ''10.0.0.1'', as_user_agent = ''agent''\<rparr>"

definition keeper_db :: auth_db where
  "keeper_db = \<lparr>ad_accounts = [keeper], ad_sessions = [keeper_session ''s1'' ''t1'', keeper_session ''s2'' ''t2''], ad_seq = 1, ad_ips = [],
     ad_audit = [], ad_entropy = [''t3'', ''c3'', ''s3'', ''t4'', ''c4'', ''s4''], ad_clock = 0, ad_faults = []\<rparr>"

definition keeper_login :: "string \<Rightarrow> string \<Rightarrow> login_input" where
  "keeper_login p ip = \<lparr>li_username = ''Keeper'', li_password = p, li_source_ip = ip, li_user_agent = ''agent'', li_request_id = ''r''\<rparr>"

definition keeper_change :: auth_call where
  "keeper_change = ChangeCall ''t1'' ''old enough to change'' ''brand new and long'' ''r'' ''10.0.0.1''"

definition leaving :: "(nat \<times> auth_db \<times> auth_db) list \<times> auth_request list \<times> auth_db" where
  "leaving = schedule [0, 1, 0, 0, 1, 1, 1, 1, 1, 1, 1] (List.map (serve_auth keeper_env) [LogoutCall ''t2'' ''r'' ''10.0.0.1'', ValidateCall ''t2'']) keeper_db"

definition changing :: "(nat \<times> auth_db \<times> auth_db) list \<times> auth_request list \<times> auth_db" where
  \<comment> \<open>the password is checked, then changed, and only then the session is made\<close>
  "changing = schedule (replicate 3 0 @ replicate 8 1 @ replicate 5 0)
     (List.map (serve_auth keeper_env) [LoginCall (keeper_login ''old enough to change'' ''10.0.0.9''), keeper_change]) keeper_db"

fun after_calls :: "(nat \<times> auth_db \<times> auth_db) list \<times> auth_request list \<times> auth_db \<Rightarrow>
    (auth_error + auth_reply) option list \<times> (int \<times> string) list \<times> (string \<times> int \<times> instant option) list" where
  "after_calls (ts, qs, db) = (List.map finished qs, List.map (\<lambda>s. (as_account s, as_token_hash s)) (ad_sessions db),
     List.map (\<lambda>a. (aa_hash a, aa_failed a, aa_locked_until a)) (ad_accounts db))"

lemma after_calls_parts:
  "after_calls x = (List.map finished (fst (snd x)), List.map (\<lambda>s. (as_account s, as_token_hash s)) (ad_sessions (snd (snd x))),
     List.map (\<lambda>a. (aa_hash a, aa_failed a, aa_locked_until a)) (ad_accounts (snd (snd x))))"
  by (cases x) simp

lemma leaving_runs:
  "after_calls leaving = ([Some (Inr AuthDone), Some (Inl SessionInvalid)], [(1, ''#t1'')], [(''old enough to change'', 0, None)])"
  by code_simp

lemma changing_runs:
  "after_calls changing =
     ([Some (Inr (LoginReply ''t3'' ''c3'' keeper (minutes (7 * 24 * 60)))), Some (Inr (SessionReply (keeper_session ''s1'' ''t1'') keeper))],
      [(1, ''#t1''), (1, ''#t3'')], [(''brand new and long'', 0, None)])"
  by code_simp

lemma run_of_schedule:
  assumes "schedule is ps s = x"
  shows "steps ps s (fst x) (fst (snd x)) (snd (snd x))"
  by (rule schedule_steps [of "is" ps s]) (simp add: assms)

lemmas leaving_steps = run_of_schedule [OF leaving_def [symmetric]]
lemmas changing_steps = run_of_schedule [OF changing_def [symmetric]]

lemma answered:
  assumes "after_calls x = (rs, y)" "i < length rs" "rs ! i = Some r"
  shows "fst (snd x) ! i = Done r"
proof -
  have "List.map finished (fst (snd x)) ! i = Some r" "i < length (fst (snd x))"
    using assms by (auto simp: after_calls_parts)
  then show ?thesis by (simp add: finished_iff)
qed

lemma keeper_db_ok: "auth_ok keeper_db"
  by (simp add: auth_ok_def keeper_db_def keeper_session_def)

theorem login_admits_only_witness:
  "\<exists>d d' a. (0, d, d') \<in> set (fst changing) \<and> a \<in> set (ad_accounts d') \<and> ae_verify keeper_env ''old enough to change'' (aa_hash a)"
  using login_admits_only [OF changing_steps, of 0] answered [OF changing_runs, of 0]
  by (force simp: keeper_login_def)

theorem revoked_session_stays_dead_witness:
  "''#t2'' \<notin> as_token_hash ` set (ad_sessions (snd (snd leaving)))"
  using revoked_session_stays_dead [OF keeper_db_ok leaving_steps, of 0] answered [OF leaving_runs, of 0]
  by (auto simp: keeper_db_def keeper_env_def)

theorem password_change_ends_sessions_witness:
  "as_token_hash ` {r \<in> set (ad_sessions (snd (snd changing))). as_account r = 1 \<and> as_token_hash r \<in> {''#t1'', ''#t2''}} \<subseteq> {''#t1''}"
  using password_change_ends_sessions [OF keeper_db_ok changing_steps, of 1] answered [OF changing_runs, of 1]
  by (auto simp: keeper_db_def keeper_env_def keeper_session_def keeper_change_def keeper_def)

lemma keeper_names: "toLower ''keeper'' = toLower ''Keeper''"
  by code_simp

definition guesses_at_keeper :: "login_input list" where
  "guesses_at_keeper = List.map (keeper_login ''not the password'') [''10.1.0.1'', ''10.1.0.2'', ''10.1.0.3'', ''10.1.0.4'', ''10.1.0.5'']"

lemmas keeper_simps = keeper_db_def keeper_def keeper_env_def keeper_login_def keeper_names guesses_at_keeper_def
  applyDefaults_def or_default_def minutes_def

theorem parallel_guesses_count_once_witness:
  "\<exists>ts db'. steps (List.map (\<lambda>x. serve_auth keeper_env (LoginCall x)) guesses_at_keeper) keeper_db ts
      (replicate 5 (Done (Inl InvalidCredentials))) db' \<and> 1 \<in> aa_id ` set (ad_accounts db')
    \<and> {b \<in> set (ad_accounts db'). aa_id b = 1} \<subseteq> {keeper\<lparr>aa_failed := 1\<rparr>} \<and> length (ad_audit db') = 5"
proof -
  have "\<exists>ts db'. steps (List.map (\<lambda>x. serve_auth keeper_env (LoginCall x)) guesses_at_keeper) keeper_db ts
      (replicate (length guesses_at_keeper) (Done (Inl InvalidCredentials))) db'
    \<and> aa_id keeper \<in> aa_id ` set (ad_accounts db')
    \<and> (\<forall>b \<in> set (ad_accounts db'). aa_id b = aa_id keeper \<longrightarrow> b = keeper\<lparr>aa_failed := aa_failed keeper + 1, aa_updated_at := ad_clock keeper_db\<rparr>)
    \<and> refusals (ad_audit db') = refusals (ad_audit keeper_db) @ List.map (refusal ''bad password'') guesses_at_keeper"
    by (rule parallel_guesses_count_once) (auto simp: keeper_simps blocked_def)
  then obtain ts db' where r: "steps (List.map (\<lambda>x. serve_auth keeper_env (LoginCall x)) guesses_at_keeper) keeper_db ts
      (replicate (length guesses_at_keeper) (Done (Inl InvalidCredentials))) db'" "aa_id keeper \<in> aa_id ` set (ad_accounts db')"
    "\<forall>b \<in> set (ad_accounts db'). aa_id b = aa_id keeper \<longrightarrow> b = keeper\<lparr>aa_failed := aa_failed keeper + 1, aa_updated_at := ad_clock keeper_db\<rparr>"
    "refusals (ad_audit db') = refusals (ad_audit keeper_db) @ List.map (refusal ''bad password'') guesses_at_keeper"
    by blast
  have "length (ad_audit db') = 5" using arg_cong [OF r(4), of length] by (simp add: refusals_def keeper_db_def guesses_at_keeper_def)
  moreover have "{b \<in> set (ad_accounts db'). aa_id b = 1} \<subseteq> {keeper\<lparr>aa_failed := 1\<rparr>}" using r(3) by (auto simp: keeper_def keeper_db_def)
  moreover have "1 \<in> aa_id ` set (ad_accounts db')" using r(2) by (simp add: keeper_def)
  moreover have "length guesses_at_keeper = 5" by (simp add: guesses_at_keeper_def)
  ultimately show ?thesis using r(1) by (intro exI [of _ ts] exI [of _ db'] conjI) simp_all
qed


theorem login_outlives_password_change_witness:
  "\<exists>us db'. steps (List.map (serve_auth keeper_env) [LoginCall (keeper_login ''old enough to change'' ''10.0.0.9''), keeper_change]) keeper_db us
      [Done (Inr (LoginReply ''t3'' ''c3'' keeper (minutes (7 * 24 * 60)))), Done (Inr (SessionReply (keeper_session ''s1'' ''t1'') keeper))] db'
    \<and> {b \<in> set (ad_accounts db'). aa_id b = 1} \<subseteq> {b. aa_hash b = ''brand new and long''} \<and> ''#t3'' \<in> as_token_hash ` set (ad_sessions db')"
proof -
  let ?x = "keeper_login ''old enough to change'' ''10.0.0.9''"
  have years: "in_years 0" "in_years 604800" by code_simp+
  have policy: "ValidatePasswordPolicy ''brand new and long'' ''keeper''" by code_simp
  have "\<exists>us db'. steps (List.map (serve_auth keeper_env) [LoginCall ?x, ChangeCall ''t1'' (li_password ?x) ''brand new and long'' ''r'' ''10.0.0.1'']) keeper_db us
      [Done (Inr (LoginReply ''t3'' ''c3'' keeper (ad_clock keeper_db + op_session_ttl (ae_options keeper_env)))),
       Done (Inr (SessionReply (keeper_session ''s1'' ''t1'') keeper))] db'
    \<and> (\<forall>b \<in> set (ad_accounts db'). aa_id b = aa_id keeper \<longrightarrow> aa_hash b = ''brand new and long'')
    \<and> (\<exists>r \<in> set (ad_sessions db'). as_account r = aa_id keeper \<and> as_token_hash r = ae_token keeper_env ''t3''
         \<and> as_token_hash r \<noteq> as_token_hash (keeper_session ''s1'' ''t1'') \<and> session_live (ae_options keeper_env) (ad_clock db') r)"
    by (rule login_outlives_password_change [where ts = "[''t4'', ''c4'', ''s4'']" and ?t3.0 = "''s3''"])
      (use policy years in \<open>auto simp: keeper_simps keeper_session_def blocked_def session_live_def\<close>)
  then obtain us db' where r: "steps (List.map (serve_auth keeper_env) [LoginCall ?x, keeper_change]) keeper_db us
      [Done (Inr (LoginReply ''t3'' ''c3'' keeper (minutes (7 * 24 * 60)))), Done (Inr (SessionReply (keeper_session ''s1'' ''t1'') keeper))] db'"
    "\<forall>b \<in> set (ad_accounts db'). aa_id b = aa_id keeper \<longrightarrow> aa_hash b = ''brand new and long''"
    "\<exists>r \<in> set (ad_sessions db'). as_token_hash r = ae_token keeper_env ''t3''"
    unfolding keeper_change_def by (auto simp: keeper_simps)
  have "{b \<in> set (ad_accounts db'). aa_id b = 1} \<subseteq> {b. aa_hash b = ''brand new and long''}" using r(2) by (auto simp: keeper_def)
  moreover have "''#t3'' \<in> as_token_hash ` set (ad_sessions db')" using r(3) by (force simp: keeper_env_def)
  ultimately show ?thesis using r(1) by blast
qed

text \<open>
  The logout handler answers that all is well also when the session could not be removed: if the
  statement that deletes it fails, the session it was asked to end stays.
\<close>

lemma logout_failure_is_hidden:
  assumes "ad_faults d = [False, True]" "filter (\<lambda>r. as_token_hash r = ae_token env token) (ad_sessions d) = [s]" "token \<noteq> []"
  shows "fst (run (handleLogout env (Some token) req ip) d) = (200, ''ok'')
    \<and> ad_sessions (snd (run (handleLogout env (Some token) req ip) d)) = ad_sessions d"
  using assms by (simp add: handleLogout_def run_map_prog Logout_def GetSessionByTokenHash_def DeleteSession_def delete_sessions_def asql_def first_or_missing_def)

end
