(* ===== verification/Spec2Isabelle.thy ===== *)
theory Spec2Isabelle
  imports HookSpec LogsPage Console SettingsPage UserDetailPage Sparkline UserConsole AdminSessions
begin

text \<open>
  Verification of xoxproxy: its management console and the server behind it.

  The program. xoxproxy runs a proxy engine for many users. Its control plane is a Go server
  (\<open>internal/\<close>, \<open>cmd/\<close>) with a JSON API over an SQLite database; the console is a React application
  (\<open>web/src\<close>) the server hands out as one page. The console keeps no truth of its own: its pages
  fetch through hooks, show what they fetched, and send writes that carry the version of the user
  they were made for. The server checks session and CSRF token, decodes the body strictly, and
  calls a service, which validates, runs statements on the tables, writes an audit entry and
  notifies the deployment pipeline; the pipeline reads the tables and renders the configuration
  of the engine. Modelled are the console, all of \<open>web/src\<close> but its ambient types, and of the server
  the way from a request for users or an administrator to the rendered configuration.

  How it is modelled. A page is a state record, a datatype of messages and a step function; a
  \<open>useState\<close> is a field, an event handler a message, a render a function from the state to a tree
  of elements (\<open>Dom\<close>), whose handlers name messages. An \<open>async\<close> function is cut where it awaits:
  the message sends the request and records what awaits it, and an answer, a later event, runs
  the rest. Answers may arrive in any order and any number of other events may come between.
  Effects (requests, navigation, storage, the clipboard) are values a step returns. JavaScript
  numbers are a datatype with exact rationals rounded to binary64 (\<open>JsNumber\<close>), written and read
  as ECMA-262 says (\<open>JsNumText\<close>); 64-bit integers of the API are integers that \<open>jint\<close> turns into
  such a number when the code computes with them. Strings are lists of bytes, in UTF-8. What the
  browser or a library supplies is a parameter: the locale formatters and \<open>Math.log\<close> (the record
  \<open>env\<close>), the route a path matches (\<open>router\<close>), which link is active (\<open>active\<close>), the media query.
  A call of the server is a program over the tables: a tree of atomic steps, one per statement or
  transaction, and pools of calls interleave between steps. A statement may fail (a list of
  faults says when), the random source may run dry, and hashing is a function of the model's
  environment (\<open>crypto\<close>, \<open>auth_env\<close>). Times are integers of nanoseconds, rendered as the text
  the database compares.

  Which theory models what, in the console.
  \<^item> \<open>Prelude\<close>: hint collections, list and option facts, the interface \<open>machine\<close> of a deterministic
    machine with an invariant, interpreted by every component of the console.
  \<^item> \<open>JsNumber\<close>, \<open>JsNumText\<close>, \<open>JsText\<close>, \<open>JsDate\<close>: what the source uses of the language.
  \<^item> \<open>Client\<close>: \<open>api/client.ts\<close>, requests, responses, errors and the data shapes.
  \<^item> \<open>Dom\<close>, \<open>Ui\<close>, \<open>DataTable\<close>, \<open>UserForm\<close>, \<open>Charts\<close>, \<open>Sparkline\<close>: the shared components of
    \<open>components/\<close>; \<open>DataTable\<close> has the interface \<open>comparator\<close> of what a stable sort needs.
  \<^item> \<open>Format\<close>: \<open>lib/format.ts\<close>. \<open>Hooks\<close>: \<open>lib/hooks.ts\<close>; \<open>HookSpec\<close>: what \<open>useApi\<close> promises.
  \<^item> \<open>Auth\<close>: \<open>auth/AuthContext.tsx\<close>, \<open>pages/Login.tsx\<close>, \<open>App.tsx\<close>. \<open>LayoutPage\<close>:
    \<open>components/Layout.tsx\<close> and \<open>main.tsx\<close>, and the shell that joins them with \<open>Auth\<close>. \<open>Console\<close>:
    the shell with the answers of all pages, and \<open>withSession\<close> of \<open>internal/api/middleware.go\<close>.
  \<^item> \<open>UsersPage\<close>, \<open>UserDetailPage\<close>, \<open>LogsPage\<close>, \<open>SettingsPage\<close>, \<open>ServerPage\<close>, \<open>OverviewPage\<close>,
    \<open>AnalyticsPage\<close>: the files of \<open>pages/\<close> with these names; \<open>LogsPage\<close> also has the handler and the
    query of the audit trail, \<open>SettingsPage\<close> the handler of a password change.

  In the server.
  \<^item> \<open>RequestDecoding\<close>: \<open>readJSON\<close>, the request shapes of \<open>internal/api/user_handlers.go\<close>, and
    the version of an action.
  \<^item> \<open>Requests\<close>: calls as programs, their interleaving (\<open>steps\<close>), what one call sees (\<open>outcome\<close>),
    and the interface \<open>interleaving\<close> of an invariant and a guarantee that every step keeps.
  \<^item> \<open>GoTime\<close>: \<open>formatTime\<close> and the comparison of times as text (\<open>internal/store/sqlite/sqlite.go\<close>).
  \<^item> \<open>UserStore\<close>: the tables and statements of \<open>internal/store/sqlite\<close> for users, credentials, usage
    and audit. \<open>UserService\<close>: \<open>internal/users/service.go\<close>, every operation.
  \<^item> \<open>UserInvariant\<close>: the invariant and guarantee of the tables, an \<open>interleaving\<close> every operation
    keeps. \<open>UserRequests\<close>, \<open>UserServer\<close>: edits as atomic operations, and pools of calls.
    \<open>UserOutcomes\<close>: the result of each operation run alone, with every pattern of faults.
  \<^item> \<open>Engine\<close>: \<open>internal/engine/threeproxy\<close>, validation and rendering of the configuration and the
    encoding of password hashes. \<open>EngineState\<close>: the state \<open>internal/deploy\<close> derives from the tables.
  \<^item> \<open>UserApi\<close>: the handlers and routes of \<open>internal/api/user_handlers.go\<close>. \<open>UserConsole\<close>: the
    console's requests answered by these handlers.
  \<^item> \<open>AdminAuth\<close>: \<open>internal/auth/service.go\<close>, the policy of \<open>password.go\<close>, the repositories of
    administrators and sessions, the login and logout handlers. \<open>AdminSessions\<close>: any interleaving of them, with
    time passing, again an \<open>interleaving\<close>.

  What the lemmas show. Hooks: whatever the order of answers, the newest request decides what is
  shown; \<open>useApi\<close> refines a machine with a single request slot. Tables: sorting is a stable sorted
  permutation, and a click acts on the row shown. Forms: which fields survive an untouched edit
  exactly, and how the others change. Sessions of the browser: the guard decides the screen,
  redirects end, a logout is final, and a token is lost only on the way to the login page. Pages:
  writes carry the version shown, modals are released, older pages of the trail miss and repeat
  nothing, totals, rankings and meters are exact or in bounds. Store: it stays well formed in every
  interleaving and under every fault; an edit is one atomic operation on the table it meets; one
  version of a user is used by one change; a rotation happens wholly or not at all. Proxy: every
  well-formed store renders to a configuration, whose access lists admit the active, unexpired
  users with the protocol and no others; changes are announced. Administrators: a login takes the
  right password of an open account, wrong ones in turn lock it, a session logged out or revoked
  does not come back. From end
  to end: of two presses on one version one wins, and a user created in the console is
  admitted by the proxy with the password shown.

  Where the code does not do what it means to, the theorem states what it does. In the console:
  edits and rotations are refused by the decoder, a login does not open the console, a wrong
  current password signs the administrator out, quotas lose precision,
  the bar of a daily quota counts a month, an open form outlives its user, a refused login disarms
  a running session, a failed query keeps the rows of the previous one, a lost stream goes
  unnoticed. Between console and server: the list ends after a hundred users, a quota of one
  megabyte is refused, a deletion ignores the version it is sent. In the server: a committed
  change of status is neither audited nor announced exactly when its row cannot be read back, times
  within one second may compare the wrong way round, guesses made at the same time count once towards a lockout,
  and a login can outlive the password it used. A failed logout is answered like one that worked
  (lemma \<open>logout_failure_is_hidden\<close>).

  Bounds and fuel. Integers are exact as numbers up to 2^53 and as text up to 10^15, the bounds
  of the theorems that need them. Redirects are followed with fuel 2, which \<open>Auth\<close> proves to be
  enough; the walk through older pages of the audit trail takes as fuel the number of entries,
  each page but the last showing fifty. The programs of the server are finite trees and need none.

  Not modelled. Styling: constant class names, axis and tooltip styles of the chart library, the
  chart library itself. The libraries: React's scheduling beyond the order of events, the router's
  matching of paths. The generated bundle under \<open>internal/api/static\<close> and the build configuration.
  Of the server: Argon2id, BLAKE2, SHA-256 and the random source (parameters), the prose of error
  messages, ingestion and aggregation of traffic (\<open>internal/analytics\<close>), writing, reloading and
  rolling back the configuration of the engine and its supervision, migrations, rate limiting of
  requests, the handlers for traffic and system figures, the command line and the installer: code
  that reads and writes files, sockets and processes.
\<close>

end
